(* ===== verification/Prelude.thy ===== *)
theory Prelude
  imports Main "HOL-Library.Word"
begin

text \<open>
  Shared ground of the development: the names of the machine types, the outcome of a C++
  call that may throw or leave defined behaviour, a few facts on 64-bit lengths, slices of
  a byte sequence, and \<^verbatim>\<open>std::map\<close> as an association list kept in key order. The laws of
  the map are the locale \<open>ordered_map\<close>, interpreted here on the association list, and the
  induction that lifts a step invariant to reachable states is the locale
  \<open>invariant_system\<close>, which the stateful components interpret.
\<close>

unbundle bit_operations_syntax

subsection \<open>Machine types\<close>

type_synonym u8 = "8 word"
type_synonym u16 = "16 word"
type_synonym u32 = "32 word"
type_synonym u64 = "64 word"
type_synonym bytes = "8 word list"

text \<open>
  \<open>word_simps\<close>: reading words as natural numbers when nothing wraps.
  \<open>codec_simps\<close>: the equations with which a serializer cancels against its parser.
\<close>

named_theorems word_simps \<open>unsigned reading of words without wrap-around\<close>
named_theorems codec_simps \<open>parsing what was serialized\<close>

text \<open>\<^verbatim>\<open>std::string::size()\<close>, a 64-bit count.\<close>

definition size64 :: "'a list \<Rightarrow> u64" where
  "size64 xs = of_nat (length xs)"

text \<open>Every string of the program fits in the address space: \<open>2 ^ 64\<close> is written as a numeral, the
  form the simplifier gives it.\<close>

abbreviation str_ok :: "'a list \<Rightarrow> bool" where
  "str_ok xs \<equiv> length xs < 18446744073709551616"

lemma unat_size64 [simp]: "str_ok xs \<Longrightarrow> unat (size64 xs) = length xs"
  by (simp add: size64_def unat_of_nat)

lemma size64_Nil [simp]: "size64 [] = 0"
  by (simp add: size64_def)

lemma size64_append [simp]: "size64 (xs @ ys) = size64 xs + size64 ys"
  by (simp add: size64_def)

lemma size64_eq_0_iff: "str_ok xs \<Longrightarrow> size64 xs = 0 \<longleftrightarrow> xs = []"
  by (metis length_0_conv unat_0_iff unat_size64)

lemma unat64_lt [simp]: "unat (x :: u64) < 18446744073709551616"
  using unsigned_less [of x] by simp

lemma unat16_lt [simp]: "unat (x :: u16) < 65536"
  using unsigned_less [of x] by simp

lemma unat32_lt [simp]: "unat (x :: u32) < 4294967296"
  using unsigned_less [of x] by simp

lemma unat8_lt [simp]: "unat (x :: u8) < 256"
  using unsigned_less [of x] by simp

lemma unat_small_lt [simp]:
  "unat (x :: u32) < 18446744073709551616"
  "unat (y :: u16) < 18446744073709551616" "unat y < 4294967296"
  "unat (z :: u8) < 18446744073709551616" "unat z < 4294967296" "unat z < 65536"
  using unat32_lt [of x] unat16_lt [of y] unat8_lt [of z] by linarith+

lemma unat_add_nowrap [word_simps]:
  "unat (a :: u64) + unat b < 18446744073709551616 \<Longrightarrow> unat (a + b) = unat a + unat b"
  by (simp add: unat_word_ariths)

lemma unat_mult_nowrap:
  "unat (a :: u64) * unat b < 18446744073709551616 \<Longrightarrow> unat (a * b) = unat a * unat b"
  by (simp add: unat_word_ariths)

lemma unat_sub_nowrap [word_simps]:
  "unat b \<le> unat (a :: u64) \<Longrightarrow> unat (a - b) = unat a - unat b"
  by (simp add: unat_sub word_le_nat_alt)

lemmas word_nat_order = word_le_nat_alt word_less_nat_alt
lemmas [word_simps] = word_nat_order

lemma unat_eq_iff: "(a :: 'a :: len word) = b \<longleftrightarrow> unat a = unat b"
  by (rule word_unat_eq_iff)

lemma unat_ucast: "unat (ucast (x :: 'a :: len word) :: 'b :: len word) = unat x mod 2 ^ LENGTH('b)"
  by (simp add: unsigned_ucast_eq take_bit_eq_mod)

lemma size64_take_unat: "str_ok xs \<Longrightarrow> size64 (take n xs) = (if n < length xs then of_nat n else size64 xs)"
  by (simp add: size64_def min_def)

subsection \<open>Outcomes of a call\<close>

text \<open>
  A call returns a value (\<open>Inr\<close>), throws one of the exceptions of the source, runs into
  behaviour that the language leaves undefined, or does not return (\<open>No_return\<close>, the outcome of a
  loop that has used up the bound on its iterations); the last two carry the place.
  \<open>System_error\<close> is the \<^verbatim>\<open>tagged_error\<close> of \<^verbatim>\<open>util.hh\<close>: what was attempted, and the error code.
\<close>

datatype cpp_error =
    Out_of_range string
  | Invalid_argument string
  | Runtime_error string
  | System_error string int
  | Undefined_behaviour string
  | No_return string

type_synonym 'a res = "cpp_error + 'a"

fun rbind :: "'a res \<Rightarrow> ('a \<Rightarrow> 'b res) \<Rightarrow> 'b res" where
  "rbind (Inl e) f = Inl e"
| "rbind (Inr x) f = f x"

lemma rbind_eq_Inr: "rbind m f = Inr y \<longleftrightarrow> (\<exists>x. m = Inr x \<and> f x = Inr y)"
  by (cases m) auto

lemma rbind_eq_Inl: "rbind m f = Inl e \<longleftrightarrow> m = Inl e \<or> (\<exists>x. m = Inr x \<and> f x = Inl e)"
  by (cases m) auto

lemma rbind_cong [fundef_cong]:
  "m = m' \<Longrightarrow> (\<And>x. m' = Inr x \<Longrightarrow> f x = g x) \<Longrightarrow> rbind m f = rbind m' g"
  by (cases m') auto

text \<open>\<^verbatim>\<open>std::string::substr(pos, n)\<close>.\<close>

definition substr :: "bytes \<Rightarrow> u64 \<Rightarrow> u64 \<Rightarrow> bytes res" where
  "substr s pos n =
     (if size64 s < pos then Inl (Out_of_range ''substr'')
      else Inr (take (unat n) (drop (unat pos) s)))"

subsection \<open>Slices\<close>

text \<open>The bytes of \<open>xs\<close> at the positions \<open>i, \<dots>, i + n - 1\<close>.\<close>

definition chunk :: "'a list \<Rightarrow> nat \<Rightarrow> nat \<Rightarrow> 'a list" where
  "chunk xs i n = take n (drop i xs)"

lemma length_chunk: "i + n \<le> length xs \<Longrightarrow> length (chunk xs i n) = n"
  by (simp add: chunk_def)

lemma take_chunk: "take m (chunk xs i n) = chunk xs i (min m n)"
  by (simp add: chunk_def)

lemma drop_chunk: "drop m (chunk xs i n) = chunk xs (i + m) (n - m)"
  by (simp add: chunk_def drop_take add.commute)

lemma chunk_append: "chunk xs i m @ chunk xs (i + m) n = chunk xs i (m + n)"
  by (simp add: chunk_def take_add add.commute)

lemma chunk_0 [simp]: "chunk xs 0 n = take n xs"
  by (simp add: chunk_def)

lemma chunk_chunk: "chunk (chunk xs i n) a b = chunk xs (i + a) (min b (n - a))"
  by (metis chunk_def drop_chunk take_chunk)

lemma take_append_chunk: "take i xs @ chunk xs i n = take (i + n) xs"
  by (simp add: chunk_def take_add)

subsection \<open>Ordered maps\<close>

text \<open>
  What the program uses of \<^verbatim>\<open>std::map\<close>: iteration in key order, \<^verbatim>\<open>find\<close>, \<^verbatim>\<open>insert\<close> (which keeps an
  entry that is already there), \<^verbatim>\<open>operator[]\<close> assignment and \<^verbatim>\<open>erase\<close>.
\<close>

fun omap_insert :: "'k :: linorder \<Rightarrow> 'v \<Rightarrow> ('k \<times> 'v) list \<Rightarrow> ('k \<times> 'v) list" where
  "omap_insert k v [] = [(k, v)]"
| "omap_insert k v ((k', v') # m) =
     (if k < k' then (k, v) # (k', v') # m
      else if k = k' then (k', v') # m
      else (k', v') # omap_insert k v m)"

fun omap_assign :: "'k :: linorder \<Rightarrow> 'v \<Rightarrow> ('k \<times> 'v) list \<Rightarrow> ('k \<times> 'v) list" where
  "omap_assign k v [] = [(k, v)]"
| "omap_assign k v ((k', v') # m) =
     (if k < k' then (k, v) # (k', v') # m
      else if k = k' then (k, v) # m
      else (k', v') # omap_assign k v m)"

definition omap_erase :: "'k :: linorder \<Rightarrow> ('k \<times> 'v) list \<Rightarrow> ('k \<times> 'v) list" where
  "omap_erase k m = filter (\<lambda>p. fst p \<noteq> k) m"

definition omap_find :: "('k :: linorder \<times> 'v) list \<Rightarrow> 'k \<Rightarrow> 'v option" where
  "omap_find m k = map_of m k"

definition omap_ok :: "('k :: linorder \<times> 'v) list \<Rightarrow> bool" where
  "omap_ok m \<longleftrightarrow> sorted_wrt (<) (map fst m)"

lemma omap_ok_Nil [simp]: "omap_ok []"
  by (simp add: omap_ok_def)

lemma omap_ok_Cons: "omap_ok ((k, v) # m) \<longleftrightarrow> (\<forall>p \<in> set m. k < fst p) \<and> omap_ok m"
  by (auto simp: omap_ok_def)

lemma fst_set_omap_insert: "fst ` set (omap_insert k v m) = insert k (fst ` set m)"
  by (induction k v m rule: omap_insert.induct) (simp_all add: insert_commute)

lemma fst_set_omap_assign: "fst ` set (omap_assign k v m) = insert k (fst ` set m)"
  by (induction k v m rule: omap_assign.induct) (simp_all add: insert_commute)

lemma omap_find_insert:
  "omap_ok m \<Longrightarrow> omap_find (omap_insert k v m) k' =
     (if k' = k \<and> omap_find m k = None then Some v else omap_find m k')"
proof (induction m)
  case Nil
  then show ?case by (simp add: omap_find_def)
next
  case (Cons p m)
  obtain a b where p: "p = (a, b)" by (cases p)
  have none: "map_of m k = None" if "k < a"
    using Cons.prems that by (fastforce simp: p omap_ok_Cons map_of_eq_None_iff)
  show ?case
    using Cons none by (auto simp: p omap_ok_Cons omap_find_def)
qed

lemma omap_find_assign:
  "omap_ok m \<Longrightarrow> omap_find (omap_assign k v m) k' = (if k' = k then Some v else omap_find m k')"
proof (induction m)
  case Nil
  then show ?case by (simp add: omap_find_def)
next
  case (Cons p m)
  then show ?case by (cases p) (auto simp: omap_ok_Cons omap_find_def)
qed

lemma omap_find_erase: "omap_find (omap_erase k m) k' = (if k' = k then None else omap_find m k')"
  by (induction m) (auto simp: omap_find_def omap_erase_def)

lemma omap_ok_insert [simp]: "omap_ok m \<Longrightarrow> omap_ok (omap_insert k v m)"
proof (induction m)
  case Nil
  then show ?case by (simp add: omap_ok_def)
next
  case (Cons p m)
  obtain a b where p: "p = (a, b)" by (cases p)
  have "\<forall>q \<in> set (omap_insert k v m). a < fst q" if "a < k"
  proof
    fix q assume "q \<in> set (omap_insert k v m)"
    then have "fst q \<in> insert k (fst ` set m)"
      by (metis fst_set_omap_insert imageI)
    with that Cons.prems show "a < fst q" by (auto simp: p omap_ok_Cons)
  qed
  with Cons show ?case by (auto simp: p omap_ok_Cons)
qed

lemma omap_ok_assign [simp]: "omap_ok m \<Longrightarrow> omap_ok (omap_assign k v m)"
proof (induction m)
  case Nil
  then show ?case by (simp add: omap_ok_def)
next
  case (Cons p m)
  obtain a b where p: "p = (a, b)" by (cases p)
  have "\<forall>q \<in> set (omap_assign k v m). a < fst q" if "a < k"
  proof
    fix q assume "q \<in> set (omap_assign k v m)"
    then have "fst q \<in> insert k (fst ` set m)"
      by (metis fst_set_omap_assign imageI)
    with that Cons.prems show "a < fst q" by (auto simp: p omap_ok_Cons)
  qed
  with Cons show ?case by (auto simp: p omap_ok_Cons)
qed

lemma omap_ok_erase [simp]: "omap_ok m \<Longrightarrow> omap_ok (omap_erase k m)"
  by (simp add: omap_ok_def omap_erase_def sorted_wrt_map sorted_wrt_filter)

lemma omap_insert_between:
  "(\<forall>p \<in> set xs. fst p < k) \<Longrightarrow> (\<forall>p \<in> set ys. k < fst p) \<Longrightarrow>
     omap_insert k v (xs @ ys) = xs @ (k, v) # ys"
proof (induction xs)
  case Nil
  then show ?case by (cases ys) auto
next
  case (Cons p xs)
  then show ?case by (cases p) auto
qed

lemma fold_omap_erase:
  "fold (\<lambda>(k, _) b. omap_erase k b) del m = filter (\<lambda>p. fst p \<notin> fst ` set del) m"
proof (induction del arbitrary: m)
  case (Cons d del)
  then show ?case by (cases d) (auto simp: omap_erase_def intro: filter_cong)
qed simp

lemma erase_middle:
  assumes "omap_ok (xs @ del @ ys)"
  shows "fold (\<lambda>(k, _) b. omap_erase k b) del (xs @ del @ ys) = xs @ ys"
proof -
  have "distinct (map fst (xs @ del @ ys))"
    using assms by (simp add: omap_ok_def strict_sorted_iff)
  then have "fst ` set xs \<inter> fst ` set del = {}" "fst ` set ys \<inter> fst ` set del = {}"
    by (simp_all add: Int_commute Int_Un_distrib image_Un)
  then have "\<forall>p \<in> set xs. fst p \<notin> fst ` set del" "\<forall>p \<in> set ys. fst p \<notin> fst ` set del"
    by blast+
  moreover have "filter (\<lambda>p. fst p \<notin> fst ` set del) del = []"
    by (simp add: filter_empty_conv)
  ultimately show ?thesis by (simp add: fold_omap_erase)
qed

text \<open>The laws a client of the map may use, and what follows from them alone.\<close>

locale ordered_map =
  fixes mempty :: 'm
    and minsert :: "'k \<Rightarrow> 'v \<Rightarrow> 'm \<Rightarrow> 'm"
    and massign :: "'k \<Rightarrow> 'v \<Rightarrow> 'm \<Rightarrow> 'm"
    and merase :: "'k \<Rightarrow> 'm \<Rightarrow> 'm"
    and mfind :: "'m \<Rightarrow> 'k \<Rightarrow> 'v option"
    and minv :: "'m \<Rightarrow> bool"
  assumes find_empty: "mfind mempty k = None"
    and find_insert: "minv m \<Longrightarrow> mfind (minsert k v m) k' =
          (if k' = k \<and> mfind m k = None then Some v else mfind m k')"
    and find_assign: "minv m \<Longrightarrow> mfind (massign k v m) k' = (if k' = k then Some v else mfind m k')"
    and find_erase: "minv m \<Longrightarrow> mfind (merase k m) k' = (if k' = k then None else mfind m k')"
    and inv_empty: "minv mempty"
    and inv_insert: "minv m \<Longrightarrow> minv (minsert k v m)"
    and inv_assign: "minv m \<Longrightarrow> minv (massign k v m)"
    and inv_erase: "minv m \<Longrightarrow> minv (merase k m)"
begin

lemma find_fold_erase:
  "minv m \<Longrightarrow> minv (fold merase ks m) \<and>
     mfind (fold merase ks m) k = (if k \<in> set ks then None else mfind m k)"
  by (induction ks arbitrary: m) (auto simp: inv_erase find_erase)

lemma dom_insert: "minv m \<Longrightarrow> dom (mfind (minsert k v m)) = insert k (dom (mfind m))"
  by (auto simp: dom_def find_insert)

lemma insert_present: "minv m \<Longrightarrow> mfind m k = Some w \<Longrightarrow> mfind (minsert k v m) = mfind m"
  by (auto simp: find_insert fun_eq_iff)

end

interpretation om: ordered_map "[]" omap_insert omap_assign omap_erase omap_find omap_ok
  by unfold_locales
    (simp_all add: omap_find_insert omap_find_assign omap_find_erase, simp add: omap_find_def)

subsection \<open>Reachable states\<close>

inductive reach :: "('s \<Rightarrow> bool) \<Rightarrow> ('s \<Rightarrow> 's \<Rightarrow> bool) \<Rightarrow> 's \<Rightarrow> bool"
  for ini :: "'s \<Rightarrow> bool" and stp :: "'s \<Rightarrow> 's \<Rightarrow> bool" where
  reach_init: "ini s \<Longrightarrow> reach ini stp s"
| reach_step: "reach ini stp s \<Longrightarrow> stp s t \<Longrightarrow> reach ini stp t"

text \<open>A component whose steps keep an invariant that its initial states have.\<close>

locale invariant_system =
  fixes ini :: "'s \<Rightarrow> bool"
    and stp :: "'s \<Rightarrow> 's \<Rightarrow> bool"
    and sinv :: "'s \<Rightarrow> bool"
  assumes init_inv: "ini s \<Longrightarrow> sinv s"
    and step_inv: "sinv s \<Longrightarrow> stp s t \<Longrightarrow> sinv t"
begin

lemma reach_inv: "reach ini stp s \<Longrightarrow> sinv s"
  by (induction rule: reach.induct) (auto intro: init_inv step_inv)

lemma steps_inv: "stp\<^sup>*\<^sup>* s t \<Longrightarrow> sinv s \<Longrightarrow> sinv t"
  by (induction rule: rtranclp_induct) (auto intro: step_inv)

end

end
