(* ===== verification/Buffers.thy ===== *)
theory Buffers
  imports Prelude
begin

text \<open>
  \<^verbatim>\<open>libsponge/util/buffer.hh\<close> and \<^verbatim>\<open>buffer.cc\<close>: the shared read-only string \<open>Buffer\<close>, the list
  of buffers \<open>BufferList\<close> and the list of views \<open>BufferViewList\<close>. The string behind a
  \<open>Buffer\<close> is never written after construction, so the reference count is not observable
  and the storage is a value. Both lists meet the contract \<open>chunked_string\<close>: a byte string
  held in pieces, from which a prefix can be removed.
\<close>

subsection \<open>Buffer\<close>

record buffer =
  buf_storage :: "bytes option"
  buf_offset :: u64

definition Buffer_default :: buffer where
  "Buffer_default = \<lparr>buf_storage = None, buf_offset = 0\<rparr>"

definition Buffer_of :: "bytes \<Rightarrow> buffer" where
  "Buffer_of s = \<lparr>buf_storage = Some s, buf_offset = 0\<rparr>"

definition Buffer_str :: "buffer \<Rightarrow> bytes" where
  "Buffer_str b = (case buf_storage b of
     None \<Rightarrow> []
   | Some s \<Rightarrow> take (unat (size64 s - buf_offset b)) (drop (unat (buf_offset b)) s))"

definition Buffer_at :: "buffer \<Rightarrow> u64 \<Rightarrow> u8 res" where
  "Buffer_at b n =
     (if n < size64 (Buffer_str b) then Inr (Buffer_str b ! unat n) else Inl (Out_of_range ''at''))"

definition Buffer_size :: "buffer \<Rightarrow> u64" where
  "Buffer_size b = size64 (Buffer_str b)"

definition Buffer_copy :: "buffer \<Rightarrow> bytes" where
  "Buffer_copy b = Buffer_str b"

definition Buffer_remove_prefix :: "buffer \<Rightarrow> u64 \<Rightarrow> buffer res" where
  "Buffer_remove_prefix b n =
     (if size64 (Buffer_str b) < n then Inl (Out_of_range ''Buffer::remove_prefix'')
      else let off = buf_offset b + n in
        Inr (case buf_storage b of
               None \<Rightarrow> b\<lparr>buf_offset := off\<rparr>
             | Some s \<Rightarrow> if off = size64 s then \<lparr>buf_storage = None, buf_offset = off\<rparr>
                         else b\<lparr>buf_offset := off\<rparr>))"

definition buffer_ok :: "buffer \<Rightarrow> bool" where
  "buffer_ok b \<longleftrightarrow> (case buf_storage b of
     None \<Rightarrow> True | Some s \<Rightarrow> str_ok s \<and> unat (buf_offset b) \<le> length s)"

lemma Buffer_str_of [simp]: "str_ok s \<Longrightarrow> Buffer_str (Buffer_of s) = s"
  by (simp add: Buffer_str_def Buffer_of_def)

lemma Buffer_str_default [simp]: "Buffer_str Buffer_default = []"
  by (simp add: Buffer_str_def Buffer_default_def)

lemma buffer_ok_of [simp]: "str_ok s \<Longrightarrow> buffer_ok (Buffer_of s)"
  by (simp add: buffer_ok_def Buffer_of_def)

lemma buffer_ok_default [simp]: "buffer_ok Buffer_default"
  by (simp add: buffer_ok_def Buffer_default_def)

lemma Buffer_str_drop:
  "buffer_ok b \<Longrightarrow> Buffer_str b =
     (case buf_storage b of None \<Rightarrow> [] | Some s \<Rightarrow> drop (unat (buf_offset b)) s)"
  by (auto simp: buffer_ok_def Buffer_str_def word_simps split: option.splits)

lemma str_ok_Buffer_str: "buffer_ok b \<Longrightarrow> str_ok (Buffer_str b)"
  by (auto simp: Buffer_str_drop buffer_ok_def split: option.splits)

lemma Buffer_remove_prefix_ok:
  assumes ok: "buffer_ok b" and n: "unat n \<le> length (Buffer_str b)"
  shows "\<exists>b'. Buffer_remove_prefix b n = Inr b' \<and> buffer_ok b' \<and> Buffer_str b' = drop (unat n) (Buffer_str b)"
proof (cases "buf_storage b")
  case None
  with n show ?thesis
    by (simp add: Buffer_remove_prefix_def Buffer_str_def buffer_ok_def unat_0_iff)
next
  case (Some s)
  from ok Some have s: "str_ok s" "unat (buf_offset b) \<le> length s"
    by (simp_all add: buffer_ok_def)
  from ok Some have str: "Buffer_str b = drop (unat (buf_offset b)) s"
    by (simp add: Buffer_str_drop)
  have off: "unat (buf_offset b + n) = unat (buf_offset b) + unat n"
    using n s str by (intro unat_add_nowrap) simp
  have le: "\<not> size64 (Buffer_str b) < n"
    using n str_ok_Buffer_str [OF ok] by (simp add: word_simps)
  show ?thesis
  proof (cases "buf_offset b + n = size64 s")
    case True
    with off s have "length s = unat (buf_offset b) + unat n"
      by (metis unat_size64)
    then have "drop (unat n) (Buffer_str b) = []"
      by (simp add: str)
    with True le Some show ?thesis
      by (simp add: Buffer_remove_prefix_def buffer_ok_def Buffer_str_def)
  next
    case False
    have "unat (buf_offset b + n) \<le> length s"
      using n s off str by simp
    with False le Some s off show ?thesis
      by (simp add: Buffer_remove_prefix_def buffer_ok_def Buffer_str_drop str add.commute)
  qed
qed

lemma Buffer_remove_prefix_throws:
  "buffer_ok b \<Longrightarrow> length (Buffer_str b) < unat n \<Longrightarrow>
     Buffer_remove_prefix b n = Inl (Out_of_range ''Buffer::remove_prefix'')"
  using str_ok_Buffer_str [of b] by (simp add: Buffer_remove_prefix_def word_simps)

subsection \<open>BufferList\<close>

type_synonym buffer_list = "buffer list"

definition BufferList_of_string :: "bytes \<Rightarrow> buffer_list" where
  "BufferList_of_string s = [Buffer_of s]"

definition BufferList_append :: "buffer_list \<Rightarrow> buffer_list \<Rightarrow> buffer_list" where
  "BufferList_append bs other = fold (\<lambda>buf acc. acc @ [buf]) other bs"

definition BufferList_to_Buffer :: "buffer_list \<Rightarrow> buffer res" where
  "BufferList_to_Buffer bs = (case bs of
     [] \<Rightarrow> Inr Buffer_default
   | [b] \<Rightarrow> Inr b
   | _ \<Rightarrow> Inl (Runtime_error ''BufferList: please use concatenate() to combine a multi-Buffer BufferList into one Buffer''))"

definition BufferList_concatenate :: "buffer_list \<Rightarrow> bytes" where
  "BufferList_concatenate bs = fold (\<lambda>buf ret. ret @ Buffer_str buf) bs []"

definition BufferList_size :: "buffer_list \<Rightarrow> u64" where
  "BufferList_size bs = fold (\<lambda>buf ret. ret + Buffer_size buf) bs 0"

fun BufferList_remove_prefix :: "buffer_list \<Rightarrow> u64 \<Rightarrow> buffer_list res" where
  "BufferList_remove_prefix bs n =
     (if n = 0 then Inr bs
      else case bs of
        [] \<Rightarrow> Inl (Out_of_range ''BufferList::remove_prefix'')
      | b # bs' \<Rightarrow>
          if n < size64 (Buffer_str b)
          then rbind (Buffer_remove_prefix b n) (\<lambda>b'. Inr (b' # bs'))
          else BufferList_remove_prefix bs' (n - size64 (Buffer_str b)))"

declare BufferList_remove_prefix.simps [simp del]

definition buffer_list_ok :: "buffer_list \<Rightarrow> bool" where
  "buffer_list_ok bs \<longleftrightarrow> list_all buffer_ok bs"

lemma BufferList_append_eq [simp]: "BufferList_append bs other = bs @ other"
proof -
  have "fold (\<lambda>buf acc. acc @ [buf]) other acc = acc @ other" for acc :: buffer_list
    by (induction other arbitrary: acc) simp_all
  then show ?thesis by (simp add: BufferList_append_def)
qed

lemma BufferList_concatenate_eq: "BufferList_concatenate bs = concat (map Buffer_str bs)"
proof -
  have "fold (\<lambda>buf ret. ret @ Buffer_str buf) bs ret = ret @ concat (map Buffer_str bs)" for ret
    by (induction bs arbitrary: ret) simp_all
  then show ?thesis by (simp add: BufferList_concatenate_def)
qed

lemma BufferList_size_eq: "BufferList_size bs = size64 (concat (map Buffer_str bs))"
proof -
  have "fold (\<lambda>buf ret. ret + Buffer_size buf) bs ret = ret + size64 (concat (map Buffer_str bs))" for ret
    by (induction bs arbitrary: ret) (simp_all add: Buffer_size_def)
  then show ?thesis by (simp add: BufferList_size_def)
qed

lemma buffer_list_ok_simps [simp]:
  "buffer_list_ok []"
  "buffer_list_ok (b # bs) \<longleftrightarrow> buffer_ok b \<and> buffer_list_ok bs"
  "buffer_list_ok (bs @ cs) \<longleftrightarrow> buffer_list_ok bs \<and> buffer_list_ok cs"
  by (simp_all add: buffer_list_ok_def)

lemma BufferList_remove_prefix_ok:
  "buffer_list_ok bs \<Longrightarrow> unat n \<le> length (concat (map Buffer_str bs)) \<Longrightarrow>
     \<exists>bs'. BufferList_remove_prefix bs n = Inr bs' \<and> buffer_list_ok bs' \<and>
       concat (map Buffer_str bs') = drop (unat n) (concat (map Buffer_str bs))"
proof (induction bs arbitrary: n)
  case Nil
  then show ?case by (simp add: BufferList_remove_prefix.simps unat_0_iff)
next
  case (Cons b bs)
  from Cons.prems have ok: "buffer_ok b" by simp
  note len = unat_size64 [OF str_ok_Buffer_str [OF ok]]
  consider (zero) "n = 0" | (inside) "n \<noteq> 0" "n < size64 (Buffer_str b)"
    | (beyond) "n \<noteq> 0" "\<not> n < size64 (Buffer_str b)" by blast
  then show ?case
  proof cases
    case zero
    with Cons.prems show ?thesis by (simp add: BufferList_remove_prefix.simps)
  next
    case inside
    then have lt: "unat n < length (Buffer_str b)"
      using len by (simp add: word_simps)
    then obtain b' where "Buffer_remove_prefix b n = Inr b'" "buffer_ok b'"
      "Buffer_str b' = drop (unat n) (Buffer_str b)"
      using Buffer_remove_prefix_ok [OF ok, of n] by auto
    with inside lt Cons.prems show ?thesis by (simp add: BufferList_remove_prefix.simps)
  next
    case beyond
    then have sub: "unat (n - size64 (Buffer_str b)) = unat n - length (Buffer_str b)"
      using len by (simp add: word_simps)
    with beyond Cons.prems len Cons.IH [of "n - size64 (Buffer_str b)"] show ?thesis
      by (simp add: BufferList_remove_prefix.simps [of "b # bs"] word_simps)
  qed
qed

lemma BufferList_remove_prefix_throws:
  "buffer_list_ok bs \<Longrightarrow> length (concat (map Buffer_str bs)) < unat n \<Longrightarrow>
     BufferList_remove_prefix bs n = Inl (Out_of_range ''BufferList::remove_prefix'')"
proof (induction bs arbitrary: n)
  case Nil
  then show ?case by (auto simp: BufferList_remove_prefix.simps)
next
  case (Cons b bs)
  from Cons.prems have ok: "buffer_ok b" by simp
  note len = unat_size64 [OF str_ok_Buffer_str [OF ok]]
  have "\<not> n < size64 (Buffer_str b)" "n \<noteq> 0"
    using Cons.prems len by (auto simp: word_simps)
  moreover from this have "unat (n - size64 (Buffer_str b)) = unat n - length (Buffer_str b)"
    using len by (simp add: word_simps)
  ultimately show ?case
    using Cons.prems Cons.IH [of "n - size64 (Buffer_str b)"]
    by (simp add: BufferList_remove_prefix.simps [of "b # bs"])
qed

subsection \<open>BufferViewList\<close>

type_synonym buffer_view_list = "bytes list"

definition BufferViewList_of :: "buffer_list \<Rightarrow> buffer_view_list" where
  "BufferViewList_of buffers = fold (\<lambda>x views. views @ [Buffer_str x]) buffers []"

definition BufferViewList_of_string :: "bytes \<Rightarrow> buffer_view_list" where
  "BufferViewList_of_string s = [s]"

fun BufferViewList_remove_prefix :: "buffer_view_list \<Rightarrow> u64 \<Rightarrow> buffer_view_list res" where
  "BufferViewList_remove_prefix vs n =
     (if n = 0 then Inr vs
      else case vs of
        [] \<Rightarrow> Inl (Out_of_range ''BufferListView::remove_prefix'')
      | v # vs' \<Rightarrow>
          if n < size64 v then Inr (drop (unat n) v # vs')
          else BufferViewList_remove_prefix vs' (n - size64 v))"

declare BufferViewList_remove_prefix.simps [simp del]

definition BufferViewList_size :: "buffer_view_list \<Rightarrow> u64" where
  "BufferViewList_size vs = fold (\<lambda>v ret. ret + size64 v) vs 0"

text \<open>An \<^verbatim>\<open>iovec\<close>: the bytes the pointer leads to, and the length field.\<close>

definition BufferViewList_as_iovecs :: "buffer_view_list \<Rightarrow> (bytes \<times> u64) list" where
  "BufferViewList_as_iovecs vs = fold (\<lambda>x ret. ret @ [(x, size64 x)]) vs []"

lemma BufferViewList_of_eq: "BufferViewList_of bs = map Buffer_str bs"
proof -
  have "fold (\<lambda>x views. views @ [Buffer_str x]) bs vs = vs @ map Buffer_str bs" for vs
    by (induction bs arbitrary: vs) simp_all
  then show ?thesis by (simp add: BufferViewList_of_def)
qed

lemma BufferViewList_size_eq: "BufferViewList_size vs = size64 (concat vs)"
proof -
  have "fold (\<lambda>v ret. ret + size64 v) vs ret = ret + size64 (concat vs)" for ret
    by (induction vs arbitrary: ret) simp_all
  then show ?thesis by (simp add: BufferViewList_size_def)
qed

lemma BufferViewList_as_iovecs_eq: "BufferViewList_as_iovecs vs = map (\<lambda>v. (v, size64 v)) vs"
proof -
  have "fold (\<lambda>x ret. ret @ [(x, size64 x)]) vs ret = ret @ map (\<lambda>v. (v, size64 v)) vs"
    for ret :: "(bytes \<times> u64) list"
    by (induction vs arbitrary: ret) simp_all
  then show ?thesis by (simp add: BufferViewList_as_iovecs_def)
qed

lemma BufferViewList_remove_prefix_ok:
  "list_all str_ok vs \<Longrightarrow> unat n \<le> length (concat vs) \<Longrightarrow>
     \<exists>vs'. BufferViewList_remove_prefix vs n = Inr vs' \<and> list_all str_ok vs' \<and>
       concat vs' = drop (unat n) (concat vs)"
proof (induction vs arbitrary: n)
  case Nil
  then show ?case by (simp add: BufferViewList_remove_prefix.simps unat_0_iff)
next
  case (Cons v vs)
  then have len: "unat (size64 v) = length v" by simp
  show ?case
  proof (cases "n < size64 v")
    case True
    with Cons.prems len show ?thesis
      by (auto simp: BufferViewList_remove_prefix.simps [of "v # vs"] word_simps)
  next
    case False
    then have "unat (n - size64 v) = unat n - length v"
      using len by (simp add: word_simps)
    with False Cons.prems len Cons.IH [of "n - size64 v"] show ?thesis
      by (auto simp: BufferViewList_remove_prefix.simps [of "v # vs"] word_simps)
  qed
qed

lemma BufferViewList_remove_prefix_throws:
  "list_all str_ok vs \<Longrightarrow> length (concat vs) < unat n \<Longrightarrow>
     BufferViewList_remove_prefix vs n = Inl (Out_of_range ''BufferListView::remove_prefix'')"
proof (induction vs arbitrary: n)
  case Nil
  then show ?case by (auto simp: BufferViewList_remove_prefix.simps)
next
  case (Cons v vs)
  then have len: "unat (size64 v) = length v" by simp
  have "\<not> n < size64 v" "n \<noteq> 0"
    using Cons.prems len by (auto simp: word_simps)
  moreover from this have "unat (n - size64 v) = unat n - length v"
    using len by (simp add: word_simps)
  ultimately show ?case
    using Cons.prems Cons.IH [of "n - size64 v"]
    by (simp add: BufferViewList_remove_prefix.simps [of "v # vs"])
qed

subsection \<open>The contract of a string held in pieces\<close>

locale chunked_string =
  fixes content :: "'l \<Rightarrow> bytes"
    and csize :: "'l \<Rightarrow> u64"
    and remove_prefix :: "'l \<Rightarrow> u64 \<Rightarrow> 'l res"
    and lok :: "'l \<Rightarrow> bool"
  assumes csize_content: "lok l \<Longrightarrow> csize l = size64 (content l)"
    and remove_ok: "lok l \<Longrightarrow> unat n \<le> length (content l) \<Longrightarrow>
          \<exists>l'. remove_prefix l n = Inr l' \<and> lok l' \<and> content l' = drop (unat n) (content l)"
    and remove_throws: "lok l \<Longrightarrow> length (content l) < unat n \<Longrightarrow>
          \<exists>what. remove_prefix l n = Inl (Out_of_range what)"
begin

lemma remove_returns_iff:
  "lok l \<Longrightarrow> (\<exists>l'. remove_prefix l n = Inr l') \<longleftrightarrow> unat n \<le> length (content l)"
  by (metis Inl_Inr_False linorder_not_less remove_ok remove_throws)

lemma remove_content:
  "lok l \<Longrightarrow> remove_prefix l n = Inr l' \<Longrightarrow> lok l' \<and> content l' = drop (unat n) (content l)"
  by (metis Inr_inject remove_ok remove_returns_iff)

lemma remove_all: "lok l \<Longrightarrow> str_ok (content l) \<Longrightarrow>
    \<exists>l'. remove_prefix l (csize l) = Inr l' \<and> lok l' \<and> content l' = []"
  using remove_ok [of l "csize l"] by (simp add: csize_content)

lemma remove_twice:
  assumes l: "lok l" and n: "remove_prefix l n = Inr l1" and m: "remove_prefix l1 m = Inr l2"
    and fits: "str_ok (content l)"
  shows "\<exists>l'. remove_prefix l (n + m) = Inr l' \<and> content l' = content l2"
proof -
  note l1 = remove_content [OF l n]
  note l2 = remove_content [OF conjunct1 [OF l1] m]
  have "unat n \<le> length (content l)" "unat m \<le> length (content l1)"
    using l n l1 m remove_returns_iff by blast+
  then have sum: "unat n + unat m \<le> length (content l)"
    using l1 by simp
  then have nm: "unat (n + m) = unat n + unat m"
    using fits by (intro unat_add_nowrap) simp
  have "\<exists>l'. remove_prefix l (n + m) = Inr l' \<and> lok l' \<and> content l' = drop (unat (n + m)) (content l)"
    by (rule remove_ok) (use l sum nm in simp_all)
  then show ?thesis
    using l1 l2 nm by (auto simp: add.commute)
qed

end

interpretation bl: chunked_string BufferList_concatenate BufferList_size
  BufferList_remove_prefix buffer_list_ok
  by unfold_locales
    (auto simp: BufferList_concatenate_eq BufferList_size_eq BufferList_remove_prefix_throws
      intro: BufferList_remove_prefix_ok)

interpretation bv: chunked_string concat BufferViewList_size BufferViewList_remove_prefix "list_all str_ok"
  by unfold_locales
    (blast intro: BufferViewList_size_eq BufferViewList_remove_prefix_ok
      BufferViewList_remove_prefix_throws)+

end
