(* ===== verification/Byte_Stream.thy ===== *)
theory Byte_Stream
  imports Buffers
begin

text \<open>
  \<^verbatim>\<open>libsponge/byte_stream.hh\<close> and \<^verbatim>\<open>byte_stream.cc\<close>: the flow-controlled in-memory byte stream.
  Its contract is the locale \<open>bounded_fifo\<close>: a queue of bytes with a capacity, written at
  one end and read at the other. The reassembler and the sender use the stream through the
  facts of its interpretation.
\<close>

subsection \<open>State and operations\<close>

record byte_stream =
  bs_buf :: buffer_list
  bs_cap :: u64
  bs_total_written_bytes :: u64
  bs_total_read_bytes :: u64
  bs_input_ended :: bool
  bs_error :: bool

definition ByteStream_new :: "u64 \<Rightarrow> byte_stream" where
  "ByteStream_new capacity =
     \<lparr>bs_buf = [], bs_cap = capacity, bs_total_written_bytes = 0, bs_total_read_bytes = 0,
      bs_input_ended = False, bs_error = False\<rparr>"

definition ByteStream_buffer_size :: "byte_stream \<Rightarrow> u64" where
  "ByteStream_buffer_size s = BufferList_size (bs_buf s)"

definition ByteStream_remaining_capacity :: "byte_stream \<Rightarrow> u64" where
  "ByteStream_remaining_capacity s =
     (if bs_cap s < BufferList_size (bs_buf s) then 0 else bs_cap s - BufferList_size (bs_buf s))"

definition ByteStream_write :: "byte_stream \<Rightarrow> bytes \<Rightarrow> byte_stream \<times> u64" where
  "ByteStream_write s data =
     (let len = size64 data; rem_cap = ByteStream_remaining_capacity s in
      if 0 < rem_cap
      then let n = (if rem_cap < len then rem_cap else len) in
        (s\<lparr>bs_total_written_bytes := bs_total_written_bytes s + n,
           bs_buf := BufferList_append (bs_buf s) [Buffer_of (take (unat n) data)]\<rparr>, n)
      else (s, 0))"

definition ByteStream_peek_output :: "byte_stream \<Rightarrow> u64 \<Rightarrow> bytes" where
  "ByteStream_peek_output s len =
     (let buf = BufferList_concatenate (bs_buf s);
          blen = ByteStream_buffer_size s;
          blen = (if len < blen then len else blen)
      in take (unat blen) buf)"

definition ByteStream_pop_output :: "byte_stream \<Rightarrow> u64 \<Rightarrow> byte_stream res" where
  "ByteStream_pop_output s len =
     (let size = ByteStream_buffer_size s; n = (if len < size then len else size) in
      rbind (BufferList_remove_prefix (bs_buf s) n) (\<lambda>buf.
      Inr (s\<lparr>bs_buf := buf, bs_total_read_bytes := bs_total_read_bytes s + n\<rparr>)))"

definition ByteStream_read :: "byte_stream \<Rightarrow> u64 \<Rightarrow> (bytes \<times> byte_stream) res" where
  "ByteStream_read s len =
     (let read_bytes = ByteStream_peek_output s len in
      rbind (ByteStream_pop_output s len) (\<lambda>s'. Inr (read_bytes, s')))"

definition ByteStream_end_input :: "byte_stream \<Rightarrow> byte_stream" where
  "ByteStream_end_input s = s\<lparr>bs_input_ended := True\<rparr>"

definition ByteStream_set_error :: "byte_stream \<Rightarrow> byte_stream" where
  "ByteStream_set_error s = s\<lparr>bs_error := True\<rparr>"

definition ByteStream_buffer_empty :: "byte_stream \<Rightarrow> bool" where
  "ByteStream_buffer_empty s \<longleftrightarrow> BufferList_size (bs_buf s) = 0"

definition ByteStream_eof :: "byte_stream \<Rightarrow> bool" where
  "ByteStream_eof s \<longleftrightarrow> bs_input_ended s \<and> ByteStream_buffer_empty s"

subsection \<open>Invariant and abstraction\<close>

definition bs_contents :: "byte_stream \<Rightarrow> bytes" where
  "bs_contents s = BufferList_concatenate (bs_buf s)"

definition bs_free :: "byte_stream \<Rightarrow> nat" where
  "bs_free s = unat (bs_cap s) - length (bs_contents s)"

definition byte_stream_ok :: "byte_stream \<Rightarrow> bool" where
  "byte_stream_ok s \<longleftrightarrow>
     buffer_list_ok (bs_buf s) \<and>
     length (bs_contents s) \<le> unat (bs_cap s) \<and>
     bs_total_written_bytes s = bs_total_read_bytes s + size64 (bs_contents s)"

lemma bs_contents_bound: "byte_stream_ok s \<Longrightarrow> str_ok (bs_contents s)"
  unfolding byte_stream_ok_def using unat64_lt [of "bs_cap s"] by linarith

lemma byte_stream_ok_new [simp]: "byte_stream_ok (ByteStream_new c)"
  by (simp add: byte_stream_ok_def bs_contents_def ByteStream_new_def BufferList_concatenate_def)

lemma bs_contents_new [simp]: "bs_contents (ByteStream_new c) = []"
  by (simp add: bs_contents_def ByteStream_new_def BufferList_concatenate_def)

lemma buffer_size_eq: "byte_stream_ok s \<Longrightarrow> ByteStream_buffer_size s = size64 (bs_contents s)"
  by (simp add: ByteStream_buffer_size_def byte_stream_ok_def bs_contents_def bl.csize_content)

lemma unat_buffer_size: "byte_stream_ok s \<Longrightarrow> unat (ByteStream_buffer_size s) = length (bs_contents s)"
  by (simp add: buffer_size_eq bs_contents_bound)

lemma unat_remaining_capacity: "byte_stream_ok s \<Longrightarrow> unat (ByteStream_remaining_capacity s) = bs_free s"
  using bs_contents_bound [of s] buffer_size_eq [of s]
  by (auto simp: ByteStream_remaining_capacity_def ByteStream_buffer_size_def bs_free_def
      byte_stream_ok_def word_simps)

lemma buffer_empty_iff: "byte_stream_ok s \<Longrightarrow> ByteStream_buffer_empty s \<longleftrightarrow> bs_contents s = []"
  using buffer_size_eq [of s] bs_contents_bound [of s]
  by (simp add: ByteStream_buffer_empty_def ByteStream_buffer_size_def size64_eq_0_iff)

lemma eof_iff: "byte_stream_ok s \<Longrightarrow> ByteStream_eof s \<longleftrightarrow> bs_input_ended s \<and> bs_contents s = []"
  by (simp add: ByteStream_eof_def buffer_empty_iff)

lemma ByteStream_write_cases:
  assumes ok: "byte_stream_ok s" and data: "str_ok data"
  obtains (full) "bs_free s = 0" "ByteStream_write s data = (s, 0)"
  | (room) n where "bs_free s \<noteq> 0" "unat n = min (bs_free s) (length data)"
      "n = size64 (take (bs_free s) data)"
      "ByteStream_write s data =
        (s\<lparr>bs_total_written_bytes := bs_total_written_bytes s + n,
           bs_buf := bs_buf s @ [Buffer_of (take (bs_free s) data)]\<rparr>, n)"
proof (cases "ByteStream_remaining_capacity s = 0")
  case True
  then have "bs_free s = 0"
    using unat_remaining_capacity [OF ok] by simp
  then show ?thesis
    using True by (intro full) (simp_all add: ByteStream_write_def Let_def)
next
  case False
  define n where "n = (if ByteStream_remaining_capacity s < size64 data
    then ByteStream_remaining_capacity s else size64 data)"
  have n: "unat n = min (bs_free s) (length data)"
    using data unat_remaining_capacity [OF ok] by (auto simp: n_def word_simps)
  then have take_n: "take (unat n) data = take (bs_free s) data"
    by (auto simp: min_def)
  have size: "n = size64 (take (bs_free s) data)"
    using n data by (simp add: unat_eq_iff min.commute)
  have "bs_free s \<noteq> 0"
    using False unat_remaining_capacity [OF ok] by (metis unat_0_iff)
  moreover have "ByteStream_write s data =
      (s\<lparr>bs_total_written_bytes := bs_total_written_bytes s + n,
         bs_buf := bs_buf s @ [Buffer_of (take (bs_free s) data)]\<rparr>, n)"
    using False by (simp add: ByteStream_write_def Let_def n_def [symmetric] take_n word_gt_0)
  ultimately show ?thesis
    using n size by (intro room) simp_all
qed

lemma ByteStream_write_ok:
  assumes ok: "byte_stream_ok s" and data: "str_ok data"
  shows "byte_stream_ok (fst (ByteStream_write s data)) \<and>
     bs_contents (fst (ByteStream_write s data)) = bs_contents s @ take (bs_free s) data \<and>
     unat (snd (ByteStream_write s data)) = min (bs_free s) (length data) \<and>
     bs_total_written_bytes (fst (ByteStream_write s data)) =
       bs_total_written_bytes s + size64 (take (bs_free s) data)"
  using ok data
proof (cases rule: ByteStream_write_cases)
  case full
  with ok show ?thesis by simp
next
  case (room n)
  have short: "str_ok (take (bs_free s) data)"
    using data by simp
  let ?s' = "s\<lparr>bs_total_written_bytes := bs_total_written_bytes s + n,
    bs_buf := bs_buf s @ [Buffer_of (take (bs_free s) data)]\<rparr>"
  have contents: "bs_contents ?s' = bs_contents s @ take (bs_free s) data"
    using short by (simp add: bs_contents_def BufferList_concatenate_eq)
  moreover have "length (bs_contents s) + min (bs_free s) (length data) \<le> unat (bs_cap s)"
    using ok by (auto simp: byte_stream_ok_def bs_free_def)
  ultimately have "byte_stream_ok ?s'"
    using ok short room(3) by (simp add: byte_stream_ok_def min.commute add.assoc)
  with contents room show ?thesis by simp
qed

lemma ByteStream_write_frame [simp]:
  "bs_cap (fst (ByteStream_write s data)) = bs_cap s"
  "bs_input_ended (fst (ByteStream_write s data)) = bs_input_ended s"
  "bs_error (fst (ByteStream_write s data)) = bs_error s"
  "bs_total_read_bytes (fst (ByteStream_write s data)) = bs_total_read_bytes s"
  by (simp_all add: ByteStream_write_def Let_def)

lemma bs_frame_simps [simp]:
  "bs_contents (ByteStream_end_input s) = bs_contents s"
  "bs_contents (ByteStream_set_error s) = bs_contents s"
  "byte_stream_ok (ByteStream_end_input s) = byte_stream_ok s"
  "byte_stream_ok (ByteStream_set_error s) = byte_stream_ok s"
  "bs_free (ByteStream_end_input s) = bs_free s"
  "bs_free (ByteStream_set_error s) = bs_free s"
  "bs_cap (ByteStream_end_input s) = bs_cap s"
  "bs_cap (ByteStream_set_error s) = bs_cap s"
  "bs_total_written_bytes (ByteStream_end_input s) = bs_total_written_bytes s"
  "bs_total_written_bytes (ByteStream_set_error s) = bs_total_written_bytes s"
  "bs_total_read_bytes (ByteStream_end_input s) = bs_total_read_bytes s"
  "bs_total_read_bytes (ByteStream_set_error s) = bs_total_read_bytes s"
  "bs_input_ended (ByteStream_end_input s)"
  "bs_input_ended (ByteStream_set_error s) = bs_input_ended s"
  "bs_error (ByteStream_set_error s)"
  "bs_error (ByteStream_end_input s) = bs_error s"
  by (simp_all add: bs_contents_def ByteStream_end_input_def ByteStream_set_error_def
      byte_stream_ok_def bs_free_def)

lemma peek_output_eq: "byte_stream_ok s \<Longrightarrow> ByteStream_peek_output s n = take (unat n) (bs_contents s)"
  using unat_buffer_size [of s]
  by (auto simp: ByteStream_peek_output_def Let_def bs_contents_def word_simps)

lemma ByteStream_pop_output_ok:
  assumes ok: "byte_stream_ok s"
  shows "\<exists>s'. ByteStream_pop_output s n = Inr s' \<and> byte_stream_ok s' \<and>
     bs_contents s' = drop (unat n) (bs_contents s) \<and>
     bs_cap s' = bs_cap s \<and> bs_input_ended s' = bs_input_ended s \<and> bs_error s' = bs_error s \<and>
     bs_total_written_bytes s' = bs_total_written_bytes s \<and>
     bs_total_read_bytes s' = bs_total_read_bytes s + size64 (take (unat n) (bs_contents s))"
proof -
  define m where "m = (if n < ByteStream_buffer_size s then n else ByteStream_buffer_size s)"
  have m: "unat m = min (unat n) (length (bs_contents s))"
    using unat_buffer_size [OF ok] by (auto simp: m_def word_simps)
  have m_eq: "m = size64 (take (unat n) (bs_contents s))"
    using m bs_contents_bound [OF ok] by (simp add: unat_eq_iff min.commute)
  have "buffer_list_ok (bs_buf s)" "unat m \<le> length (BufferList_concatenate (bs_buf s))"
    using ok m by (simp_all add: byte_stream_ok_def bs_contents_def)
  from bl.remove_ok [OF this] obtain buf where
    buf: "BufferList_remove_prefix (bs_buf s) m = Inr buf" "buffer_list_ok buf"
      "BufferList_concatenate buf = drop (unat m) (BufferList_concatenate (bs_buf s))"
    by blast
  have drop_m: "drop (unat m) (bs_contents s) = drop (unat n) (bs_contents s)"
    using m by (simp add: min_def)
  have "size64 (take (unat n) (bs_contents s)) + size64 (drop (unat n) (bs_contents s)) = size64 (bs_contents s)"
    by (metis append_take_drop_id size64_append)
  with ok buf drop_m m_eq show ?thesis
    by (auto simp: ByteStream_pop_output_def Let_def m_def [symmetric] byte_stream_ok_def
        bs_contents_def [symmetric] bs_contents_def [of "s\<lparr>bs_buf := buf, bs_total_read_bytes := b\<rparr>" for b]
        add.assoc)
qed

lemma ByteStream_read_ok:
  assumes "byte_stream_ok s"
  shows "\<exists>s'. ByteStream_read s n = Inr (take (unat n) (bs_contents s), s') \<and> byte_stream_ok s' \<and>
     bs_contents s' = drop (unat n) (bs_contents s) \<and>
     bs_cap s' = bs_cap s \<and> bs_input_ended s' = bs_input_ended s \<and> bs_error s' = bs_error s \<and>
     bs_total_written_bytes s' = bs_total_written_bytes s \<and>
     bs_total_read_bytes s' = bs_total_read_bytes s + size64 (take (unat n) (bs_contents s))"
  using ByteStream_pop_output_ok [OF assms, of n]
  by (auto simp: ByteStream_read_def Let_def peek_output_eq [OF assms])

subsection \<open>The contract of a bounded queue of bytes\<close>

locale bounded_fifo =
  fixes queue :: "'s \<Rightarrow> bytes"
    and room :: "'s \<Rightarrow> nat"
    and put :: "'s \<Rightarrow> bytes \<Rightarrow> 's \<times> u64"
    and get :: "'s \<Rightarrow> u64 \<Rightarrow> (bytes \<times> 's) res"
    and sok :: "'s \<Rightarrow> bool"
  assumes put_ok: "sok s \<Longrightarrow> str_ok data \<Longrightarrow> sok (fst (put s data))"
    and put_queue: "sok s \<Longrightarrow> str_ok data \<Longrightarrow> queue (fst (put s data)) = queue s @ take (room s) data"
    and put_room: "sok s \<Longrightarrow> str_ok data \<Longrightarrow> room (fst (put s data)) = room s - length data"
    and put_count: "sok s \<Longrightarrow> str_ok data \<Longrightarrow> unat (snd (put s data)) = min (room s) (length data)"
    and get_ok: "sok s \<Longrightarrow> \<exists>s'. get s n = Inr (take (unat n) (queue s), s') \<and> sok s' \<and>
          queue s' = drop (unat n) (queue s) \<and> room s' = room s + min (unat n) (length (queue s))"
begin

text \<open>A queue that is written and then read to the end gives back what it took.\<close>

lemma put_get:
  assumes "sok s" and "str_ok data" and "unat n = length (queue s) + length data"
  shows "\<exists>s'. get (fst (put s data)) n = Inr (queue s @ take (room s) data, s') \<and> queue s' = []"
proof -
  from get_ok [OF put_ok [OF assms(1,2)], of n] obtain s' where
    s': "get (fst (put s data)) n = Inr (take (unat n) (queue (fst (put s data))), s')"
      "queue s' = drop (unat n) (queue (fst (put s data)))" by blast
  moreover have "length (queue (fst (put s data))) \<le> unat n"
    using assms by (simp add: put_queue)
  ultimately have "get (fst (put s data)) n = Inr (queue (fst (put s data)), s')" "queue s' = []"
    by simp_all
  then show ?thesis
    using put_queue [OF assms(1,2)] by simp
qed

text \<open>Two reads in a row deliver what one longer read would.\<close>

lemma get_get:
  assumes "sok s" and "unat (n + m) = unat n + unat m"
  shows "\<exists>xs ys s1 s2. get s n = Inr (xs, s1) \<and> get s1 m = Inr (ys, s2) \<and>
     xs @ ys = take (unat (n + m)) (queue s) \<and> queue s2 = drop (unat (n + m)) (queue s)"
proof -
  from get_ok [OF assms(1), of n] obtain s1 where
    s1: "get s n = Inr (take (unat n) (queue s), s1)" "sok s1" "queue s1 = drop (unat n) (queue s)"
    by blast
  from get_ok [OF s1(2), of m] obtain s2 where
    "get s1 m = Inr (take (unat m) (queue s1), s2)" "queue s2 = drop (unat m) (queue s1)"
    by blast
  with s1 assms(2) show ?thesis
    by (simp add: take_add) (simp add: add.commute)
qed

end

interpretation bs: bounded_fifo bs_contents bs_free ByteStream_write ByteStream_read byte_stream_ok
proof unfold_locales
  fix s and data :: bytes assume s: "byte_stream_ok s" and d: "str_ok data"
  show "byte_stream_ok (fst (ByteStream_write s data))"
    and "bs_contents (fst (ByteStream_write s data)) = bs_contents s @ take (bs_free s) data"
    and "unat (snd (ByteStream_write s data)) = min (bs_free s) (length data)"
    using ByteStream_write_ok [OF s d] by simp_all
  show "bs_free (fst (ByteStream_write s data)) = bs_free s - length data"
    using ByteStream_write_ok [OF s d] s by (auto simp: bs_free_def byte_stream_ok_def)
next
  fix s n assume s: "byte_stream_ok s"
  show "\<exists>s'. ByteStream_read s n = Inr (take (unat n) (bs_contents s), s') \<and> byte_stream_ok s' \<and>
      bs_contents s' = drop (unat n) (bs_contents s) \<and>
      bs_free s' = bs_free s + min (unat n) (length (bs_contents s))"
    using ByteStream_read_ok [OF s, of n] s by (auto simp: bs_free_def byte_stream_ok_def)
qed

subsection \<open>Any sequence of calls\<close>

text \<open>
  The calls an owner can make, and a run over a sequence of them that records the bytes the
  stream accepted and the bytes it delivered.
\<close>

datatype bs_op = Bs_write bytes | Bs_read u64 | Bs_end_input | Bs_set_error

fun bs_op_ok :: "bs_op \<Rightarrow> bool" where
  "bs_op_ok (Bs_write data) = str_ok data"
| "bs_op_ok _ = True"

fun bs_run :: "byte_stream \<Rightarrow> bs_op list \<Rightarrow> (bytes \<times> bytes \<times> byte_stream) res" where
  "bs_run s [] = Inr ([], [], s)"
| "bs_run s (Bs_write data # ops) =
     (let (s', n) = ByteStream_write s data in
      rbind (bs_run s' ops) (\<lambda>(acc, del, t). Inr (take (unat n) data @ acc, del, t)))"
| "bs_run s (Bs_read n # ops) =
     rbind (ByteStream_read s n) (\<lambda>(xs, s').
     rbind (bs_run s' ops) (\<lambda>(acc, del, t). Inr (acc, xs @ del, t)))"
| "bs_run s (Bs_end_input # ops) = bs_run (ByteStream_end_input s) ops"
| "bs_run s (Bs_set_error # ops) = bs_run (ByteStream_set_error s) ops"

lemma bs_run_fifo:
  "byte_stream_ok s \<Longrightarrow> list_all bs_op_ok ops \<Longrightarrow>
     \<exists>acc del t. bs_run s ops = Inr (acc, del, t) \<and> byte_stream_ok t \<and> bs_cap t = bs_cap s \<and>
       bs_contents s @ acc = del @ bs_contents t \<and>
       bs_total_written_bytes t = bs_total_written_bytes s + size64 acc \<and>
       bs_total_read_bytes t = bs_total_read_bytes s + size64 del"
proof (induction s ops rule: bs_run.induct)
  case (2 s data ops)
  obtain s' n where w: "ByteStream_write s data = (s', n)" by (cases "ByteStream_write s data")
  have d: "str_ok data" using "2.prems" by simp
  note step = ByteStream_write_ok [OF "2.prems"(1) d, unfolded w fst_conv snd_conv]
  have cap: "bs_cap s' = bs_cap s" "bs_total_read_bytes s' = bs_total_read_bytes s"
    using ByteStream_write_frame [of s data] by (simp_all add: w)
  have n: "take (unat n) data = take (bs_free s) data"
    using step by (auto simp: min_def)
  have "list_all bs_op_ok ops" "byte_stream_ok s'"
    using "2.prems" step by simp_all
  from "2.IH" [OF w [symmetric] refl this(2,1)] obtain acc del t where
    run: "bs_run s' ops = Inr (acc, del, t)" "byte_stream_ok t" "bs_cap t = bs_cap s'"
      "bs_contents s' @ acc = del @ bs_contents t"
      "bs_total_written_bytes t = bs_total_written_bytes s' + size64 acc"
      "bs_total_read_bytes t = bs_total_read_bytes s' + size64 del" by blast
  with w n step cap show ?case by (auto simp: add.assoc)
next
  case (3 s n ops)
  from ByteStream_read_ok [OF "3.prems"(1), of n] obtain s' where
    r: "ByteStream_read s n = Inr (take (unat n) (bs_contents s), s')" "byte_stream_ok s'"
      "bs_contents s' = drop (unat n) (bs_contents s)" "bs_cap s' = bs_cap s"
      "bs_total_written_bytes s' = bs_total_written_bytes s"
      "bs_total_read_bytes s' = bs_total_read_bytes s + size64 (take (unat n) (bs_contents s))"
    by blast
  have "list_all bs_op_ok ops" using "3.prems" by simp
  from "3.IH" [OF r(1) refl r(2) this] obtain acc del t where
    run: "bs_run s' ops = Inr (acc, del, t)" "byte_stream_ok t" "bs_cap t = bs_cap s'"
      "bs_contents s' @ acc = del @ bs_contents t"
      "bs_total_written_bytes t = bs_total_written_bytes s' + size64 acc"
      "bs_total_read_bytes t = bs_total_read_bytes s' + size64 del" by blast
  have "bs_contents s @ acc = take (unat n) (bs_contents s) @ del @ bs_contents t"
    using run(4) r(3) by (metis append_assoc append_take_drop_id)
  with r run show ?case by (auto simp: add.assoc)
qed auto

text \<open>
  C5. A byte stream is a bounded first-in first-out queue under every sequence of writes,
  reads, \<^verbatim>\<open>end_input\<close> and \<^verbatim>\<open>set_error\<close> calls: no call throws, what was delivered followed by what is
  still buffered is exactly what was accepted, in order; at most the capacity is buffered;
  and the two counters are the (64-bit) numbers of bytes accepted and delivered.
\<close>

theorem byte_stream_fifo:
  assumes "list_all bs_op_ok ops"
  shows "\<exists>acc del t. bs_run (ByteStream_new capacity) ops = Inr (acc, del, t) \<and>
     acc = del @ bs_contents t \<and>
     length (bs_contents t) \<le> unat capacity \<and>
     bs_total_written_bytes t = size64 acc \<and> bs_total_read_bytes t = size64 del"
proof -
  have cap: "bs_cap (ByteStream_new capacity) = capacity"
    "bs_total_written_bytes (ByteStream_new capacity) = 0"
    "bs_total_read_bytes (ByteStream_new capacity) = 0"
    by (simp_all add: ByteStream_new_def)
  from bs_run_fifo [OF byte_stream_ok_new assms, of capacity] cap show ?thesis
    by (auto simp: byte_stream_ok_def)
qed

theorem byte_stream_fifo_witness:
  "\<exists>acc del t. bs_run (ByteStream_new 4) [Bs_write [1, 2, 3], Bs_read 2, Bs_write [4, 5, 6, 7]] = Inr (acc, del, t) \<and>
     acc = del @ bs_contents t \<and>
     length (bs_contents t) \<le> unat (4 :: u64) \<and>
     bs_total_written_bytes t = size64 acc \<and> bs_total_read_bytes t = size64 del"
  by (rule byte_stream_fifo) simp

text \<open>
  Ending the input does not close the writing side: a write to a stream with room that
  was ended before is still accepted in full, and takes a stream at end of file out of it.
\<close>

theorem write_after_end_input_accepted:
  assumes "byte_stream_ok s" and "data \<noteq> []" and "length data \<le> bs_free s"
  shows "bs_contents (fst (ByteStream_write (ByteStream_end_input s) data)) = bs_contents s @ data \<and>
     \<not> ByteStream_eof (fst (ByteStream_write (ByteStream_end_input s) data))"
proof -
  have "bs_free s < 18446744073709551616"
    using unat64_lt [of "bs_cap s"] unfolding bs_free_def by linarith
  then have d: "str_ok data" using assms(3) by simp
  have ok: "byte_stream_ok (ByteStream_end_input s)" using assms(1) by simp
  show ?thesis
    using ByteStream_write_ok [OF ok d] assms by (simp add: eof_iff)
qed

theorem write_after_end_input_accepted_witness:
  "bs_contents (fst (ByteStream_write (ByteStream_end_input (ByteStream_new 4)) [7])) = [7] \<and>
     \<not> ByteStream_eof (fst (ByteStream_write (ByteStream_end_input (ByteStream_new 4)) [7]))"
  using write_after_end_input_accepted [of "ByteStream_new 4" "[7]"]
  by (simp add: bs_free_def) (simp add: ByteStream_new_def)

end
