(* ===== verification/Stream_Reassembler.thy ===== *)
theory Stream_Reassembler
  imports Byte_Stream
begin

text \<open>
  \<^verbatim>\<open>libsponge/stream_reassembler.hh\<close> and \<^verbatim>\<open>stream_reassembler.cc\<close>: substrings of a byte stream
  arrive in any order, overlapping or repeated, and are written to the output stream once
  they are contiguous. The pending substrings are a \<^verbatim>\<open>std::map\<close> from the index of their first
  byte. The abstract view is the next index to be written and the set of the indices that
  are pending; \<open>push_refines\<close> shows that \<^verbatim>\<open>push_substring\<close> implements it.
\<close>

subsection \<open>State and operations\<close>

type_synonym seg_map = "(u64 \<times> bytes) list"

record reassembler =
  ra_output :: byte_stream
  ra_capacity :: u64
  ra_unassembled_bytes :: u64
  ra_expected_index :: u64
  ra_buf :: seg_map
  ra_input_ended :: bool

definition StreamReassembler_new :: "u64 \<Rightarrow> reassembler" where
  "StreamReassembler_new capacity =
     \<lparr>ra_output = ByteStream_new capacity, ra_capacity = capacity, ra_unassembled_bytes = 0,
      ra_expected_index = 0, ra_buf = [], ra_input_ended = False\<rparr>"

definition StreamReassembler_empty :: "reassembler \<Rightarrow> bool" where
  "StreamReassembler_empty r \<longleftrightarrow> ra_unassembled_bytes r = 0"

definition merge_string :: "bytes \<Rightarrow> u64 \<Rightarrow> bytes \<Rightarrow> u64 \<Rightarrow> bytes res" where
  "merge_string str1 ind1 str2 ind2 =
     (if ind1 < ind2 \<and> ind1 + size64 str1 < ind2 then Inr []
      else if ind2 < ind1 \<and> ind2 + size64 str2 < ind1 then Inr []
      else if ind1 \<le> ind2 then
        (let overlapped = ind1 + size64 str1 - ind2 in
         if overlapped < size64 str2
         then rbind (substr str2 overlapped (size64 str2 - overlapped)) (\<lambda>t. Inr (str1 @ t))
         else Inr str1)
      else
        (let overlapped = ind2 + size64 str2 - ind1 in
         if overlapped < size64 str1
         then rbind (substr str1 overlapped (size64 str1 - overlapped)) (\<lambda>t. Inr (str2 @ t))
         else Inr str2))"

text \<open>
  The locals of \<^verbatim>\<open>merge\<close> over its loop. The iterator \<^verbatim>\<open>it_prev\<close> starts uninitialised
  (\<open>None\<close>), as does \<^verbatim>\<open>_index\<close>, which is read only once \<^verbatim>\<open>_first\<close> has been set together with it.
\<close>

record merge_locals =
  ml_first :: bool
  ml_index :: u64
  ml_s :: bytes
  ml_prev :: "(u64 \<times> bytes) option"
  ml_to_be_deleted :: seg_map

fun merge_loop :: "bytes \<Rightarrow> u64 \<Rightarrow> seg_map \<Rightarrow> merge_locals \<Rightarrow> merge_locals res" where
  "merge_loop data index [] l = Inr l"
| "merge_loop data index ((k, v) # es) l =
     rbind
       (if index \<le> k + size64 v \<and> k \<le> index + size64 data
        then rbind
          (if ml_first l then Inr l
           else if index < k then Inr (l\<lparr>ml_index := index, ml_first := True\<rparr>)
           else rbind (merge_string v k data index) (\<lambda>s.
                Inr (l\<lparr>ml_index := k, ml_s := s, ml_first := True\<rparr>)))
          (\<lambda>l. Inr (l\<lparr>ml_to_be_deleted := ml_to_be_deleted l @ [(k, v)]\<rparr>))
        else Inr l)
       (\<lambda>l. if index + size64 data < k then Inr l
            else merge_loop data index es (l\<lparr>ml_prev := Some (k, v)\<rparr>))"

definition StreamReassembler_merge :: "reassembler \<Rightarrow> bytes \<Rightarrow> u64 \<Rightarrow> reassembler res" where
  "StreamReassembler_merge r data index =
     rbind (merge_loop data index (ra_buf r)
       \<lparr>ml_first = False, ml_index = 0, ml_s = [], ml_prev = None, ml_to_be_deleted = []\<rparr>) (\<lambda>l.
     rbind
       (if ml_first l
        then (case ml_prev l of
            None \<Rightarrow> Inl (Undefined_behaviour ''merge: it_prev'')
          | Some (k, v) \<Rightarrow>
              if ml_s l = [] then merge_string data index v k
              else merge_string (ml_s l) (ml_index l) v k)
        else Inr (ml_s l)) (\<lambda>s.
     if ml_to_be_deleted l \<noteq> [] then
       (let tot = fold (\<lambda>(_, v) t. t + size64 v) (ml_to_be_deleted l) 0;
            buf = fold (\<lambda>(k, _) b. omap_erase k b) (ml_to_be_deleted l) (ra_buf r)
        in Inr (r\<lparr>ra_buf := omap_insert (ml_index l) s buf,
                  ra_unassembled_bytes := ra_unassembled_bytes r - (tot - size64 s)\<rparr>))
     else Inr (r\<lparr>ra_buf := omap_insert index data (ra_buf r),
                 ra_unassembled_bytes := ra_unassembled_bytes r + size64 data\<rparr>)))"

text \<open>
  The branch for a substring longer than the room left erases the map entry and reads it
  afterwards: its outcome is undefined.
\<close>

definition StreamReassembler_reorder_buffer :: "reassembler \<Rightarrow> reassembler res" where
  "StreamReassembler_reorder_buffer r =
     (case ra_buf r of
        [] \<Rightarrow> Inr r
      | (k, v) # es \<Rightarrow>
          let bs_rem_cap = ByteStream_remaining_capacity (ra_output r) in
          if k = ra_expected_index r \<and> 0 < bs_rem_cap then
            if bs_rem_cap < size64 v
            then Inl (Undefined_behaviour ''reorder_buffer: it->second read after erase(it)'')
            else Inr (r\<lparr>ra_output := fst (ByteStream_write (ra_output r) v),
                        ra_unassembled_bytes := ra_unassembled_bytes r - size64 v,
                        ra_expected_index := ra_expected_index r + size64 v,
                        ra_buf := omap_erase k (ra_buf r)\<rparr>)
          else Inr r)"

definition StreamReassembler_validate ::
  "reassembler \<Rightarrow> bytes \<Rightarrow> u64 \<Rightarrow> bool \<Rightarrow> (bytes \<times> u64 \<times> bool \<times> bool) res" where
  "StreamReassembler_validate r data index eof =
     (let upper_bound_index = ra_expected_index r + ByteStream_remaining_capacity (ra_output r);
          len = size64 data
      in
      if ByteStream_remaining_capacity (ra_output r) = 0 then Inr ([], 0, eof, True)
      else if len = 0 then Inr ([], 0, eof, True)
      else if upper_bound_index \<le> index then Inr ([], 0, False, False)
      else if index + len \<le> ra_expected_index r then Inr ([], 0, False, False)
      else
        (let (mod_index, mod_len, mod_data_s, eof') =
          (if index \<le> ra_expected_index r then
             if upper_bound_index < index + len
             then (ra_expected_index r, upper_bound_index - ra_expected_index r,
                   ra_expected_index r - index, False)
             else (ra_expected_index r, size64 data + index - ra_expected_index r,
                   ra_expected_index r - index, eof)
           else
             if upper_bound_index < index + len
             then (index, upper_bound_index - index, 0, False)
             else (index, size64 data, 0, eof))
         in rbind (substr data mod_data_s mod_len) (\<lambda>mod_data.
            Inr (mod_data, mod_index, eof', True))))"

definition StreamReassembler_push_substring ::
  "reassembler \<Rightarrow> bytes \<Rightarrow> u64 \<Rightarrow> bool \<Rightarrow> reassembler res" where
  "StreamReassembler_push_substring r data index eof =
     rbind (StreamReassembler_validate r data index eof) (\<lambda>(mdata, mindex, eof', verified).
     if \<not> verified then Inr r
     else
       rbind
         (if mdata \<noteq> []
          then rbind (StreamReassembler_merge r mdata mindex) StreamReassembler_reorder_buffer
          else Inr r) (\<lambda>r.
       let r = (if eof' then r\<lparr>ra_input_ended := True\<rparr> else r) in
       Inr (if ra_input_ended r \<and> StreamReassembler_empty r
            then r\<lparr>ra_output := ByteStream_end_input (ra_output r)\<rparr> else r)))"

subsection \<open>Pending substrings\<close>

text \<open>
  The pending substrings lie between \<open>lo\<close> and \<open>hi\<close>, are not empty, and any two of them have a
  gap between them.
\<close>

fun segs_ok :: "nat \<Rightarrow> nat \<Rightarrow> seg_map \<Rightarrow> bool" where
  "segs_ok lo hi [] = True"
| "segs_ok lo hi ((k, v) # es) =
     (lo \<le> unat k \<and> v \<noteq> [] \<and> unat k + length v \<le> hi \<and> segs_ok (Suc (unat k + length v)) hi es)"

definition seg_span :: "u64 \<times> bytes \<Rightarrow> nat set" where
  "seg_span e = {unat (fst e) ..< unat (fst e) + length (snd e)}"

definition covered :: "seg_map \<Rightarrow> nat set" where
  "covered es = (\<Union>e \<in> set es. seg_span e)"

definition seg_total :: "seg_map \<Rightarrow> nat" where
  "seg_total es = sum_list (map (length \<circ> snd) es)"

text \<open>The substrings are excerpts of the stream \<open>S\<close>.\<close>

definition excerpts :: "bytes \<Rightarrow> seg_map \<Rightarrow> bool" where
  "excerpts S es \<longleftrightarrow> (\<forall>(k, v) \<in> set es. v = chunk S (unat k) (length v))"

lemma covered_simps [simp]:
  "covered [] = {}"
  "covered (e # es) = seg_span e \<union> covered es"
  "covered (es @ fs) = covered es \<union> covered fs"
  by (auto simp: covered_def)

lemma seg_total_simps [simp]:
  "seg_total [] = 0"
  "seg_total (e # es) = length (snd e) + seg_total es"
  "seg_total (es @ fs) = seg_total es + seg_total fs"
  by (simp_all add: seg_total_def)

lemma excerpts_simps [simp]:
  "excerpts S []"
  "excerpts S ((k, v) # es) \<longleftrightarrow> v = chunk S (unat k) (length v) \<and> excerpts S es"
  "excerpts S (es @ fs) \<longleftrightarrow> excerpts S es \<and> excerpts S fs"
  by (auto simp: excerpts_def)

lemma excerpts_mem: "excerpts S es \<Longrightarrow> (k, v) \<in> set es \<Longrightarrow> v = chunk S (unat k) (length v)"
  by (auto simp: excerpts_def)

lemma seg_span_covered: "e \<in> set es \<Longrightarrow> seg_span e \<subseteq> covered es"
  by (auto simp: covered_def)

lemma segs_ok_mono: "segs_ok lo hi es \<Longrightarrow> lo' \<le> lo \<Longrightarrow> hi \<le> hi' \<Longrightarrow> segs_ok lo' hi' es"
  by (induction lo hi es arbitrary: lo' rule: segs_ok.induct) auto

lemma segs_ok_bound: "segs_ok lo hi es \<Longrightarrow> covered es \<subseteq> {lo ..< hi}"
  by (induction lo hi es rule: segs_ok.induct) (auto simp: seg_span_def)

lemma segs_ok_mem:
  "segs_ok lo hi es \<Longrightarrow> (k, v) \<in> set es \<Longrightarrow> lo \<le> unat k \<and> v \<noteq> [] \<and> unat k + length v \<le> hi"
  by (induction lo hi es rule: segs_ok.induct) auto

lemma segs_ok_append:
  "segs_ok lo hi (es @ fs) \<longleftrightarrow>
     segs_ok lo hi es \<and>
     segs_ok (if es = [] then lo else Suc (unat (fst (last es)) + length (snd (last es)))) hi fs"
  by (induction lo hi es rule: segs_ok.induct) auto

lemma finite_covered [simp]: "finite (covered es)"
  by (auto simp: covered_def seg_span_def)

lemma card_covered: "segs_ok lo hi es \<Longrightarrow> card (covered es) = seg_total es"
proof (induction lo hi es rule: segs_ok.induct)
  case (2 lo hi k v es)
  then have "covered es \<subseteq> {Suc (unat k + length v) ..< hi}"
    by (auto dest: segs_ok_bound)
  then have "seg_span (k, v) \<inter> covered es = {}"
    by (auto simp: seg_span_def)
  then show ?case
    using 2 by (simp add: card_Un_disjoint seg_span_def)
qed simp

lemma segs_ok_omap_ok: "segs_ok lo hi es \<Longrightarrow> omap_ok es"
proof (induction lo hi es rule: segs_ok.induct)
  case (2 lo hi k v es)
  have "k < fst p" if "p \<in> set es" for p
    using 2 that segs_ok_mem [of "Suc (unat k + length v)" hi es "fst p" "snd p"]
    by (simp add: word_less_nat_alt)
  with 2 show ?case by (simp add: omap_ok_Cons)
qed simp

subsection \<open>Joining two substrings\<close>

lemma chunk_join:
  "i \<le> j \<Longrightarrow> j \<le> i + m \<Longrightarrow> chunk S i m @ drop (i + m - j) (chunk S j n) = chunk S i (max m (j + n - i))"
proof -
  assume ij: "i \<le> j" "j \<le> i + m"
  have "drop (i + m - j) (chunk S j n) = chunk S (i + m) (n - (i + m - j))"
    using ij by (simp add: drop_chunk)
  then have "chunk S i m @ drop (i + m - j) (chunk S j n) = chunk S i (m + (n - (i + m - j)))"
    by (simp add: chunk_append)
  also have "m + (n - (i + m - j)) = max m (j + n - i)"
    using ij by auto
  finally show ?thesis .
qed

lemma merge_string_append:
  assumes order: "unat i \<le> unat j" "unat j \<le> unat i + length a"
    and bound: "unat i + length a < 18446744073709551616" "unat j + length b < 18446744073709551616"
  shows "merge_string a i b j = Inr (a @ drop (unat i + length a - unat j) b)"
proof -
  have ov: "unat (i + size64 a - j) = unat i + length a - unat j"
    using order bound by (simp add: word_simps)
  have sub: "unat (size64 b - (i + size64 a - j)) = length b - (unat i + length a - unat j)"
    if "i + size64 a - j < size64 b"
    using that bound ov by (simp add: word_simps)
  have "\<not> i + size64 a < j" "\<not> j < i"
    using order bound by (simp_all add: word_simps)
  then show ?thesis
    using order bound ov sub
    by (auto simp: merge_string_def Let_def substr_def word_simps)
qed

text \<open>Joined substrings reach from the first beginning to the later end, and stay excerpts.\<close>

lemma merge_string_ok:
  assumes "unat i \<le> unat j" "unat j \<le> unat i + length a"
    and "unat i + length a < 18446744073709551616" "unat j + length b < 18446744073709551616"
  obtains s where "merge_string a i b j = Inr s"
    "unat i + length s = max (unat i + length a) (unat j + length b)"
    "\<And>S. a = chunk S (unat i) (length a) \<Longrightarrow> b = chunk S (unat j) (length b) \<Longrightarrow>
       s = chunk S (unat i) (length s)"
proof
  let ?s = "a @ drop (unat i + length a - unat j) b"
  show "merge_string a i b j = Inr ?s"
    by (rule merge_string_append [OF assms])
  show len: "unat i + length ?s = max (unat i + length a) (unat j + length b)"
    using assms by auto
  fix S assume "a = chunk S (unat i) (length a)" and "b = chunk S (unat j) (length b)"
  then have "?s = chunk S (unat i) (max (length a) (unat j + length b - unat i))"
    using chunk_join [OF assms(1,2), of S "length b"] by simp
  moreover have "max (length a) (unat j + length b - unat i) = length ?s"
    using assms by auto
  ultimately show "?s = chunk S (unat i) (length ?s)" by metis
qed

subsection \<open>The loop of merge\<close>

text \<open>The pending substrings before, touching, and after a new one that spans \<open>i\<close> to \<open>j\<close>.\<close>

lemma segs_split:
  assumes "segs_ok lo hi es" and "i \<le> j"
  shows "\<exists>xs del ys. es = xs @ del @ ys \<and>
     (\<forall>(k, v) \<in> set xs. unat k + length v < i) \<and>
     (\<forall>(k, v) \<in> set del. i \<le> unat k + length v \<and> unat k \<le> j) \<and>
     (\<forall>(k, v) \<in> set ys. j < unat k)"
  using assms(1)
proof (induction lo hi es rule: segs_ok.induct)
  case (2 lo hi k v es)
  from "2.prems" have rest: "segs_ok (Suc (unat k + length v)) hi es" by simp
  from "2.IH" [OF rest] obtain xs del ys where
    es: "es = xs @ del @ ys" and xs: "\<forall>(k, v) \<in> set xs. unat k + length v < i"
    and del: "\<forall>(k, v) \<in> set del. i \<le> unat k + length v \<and> unat k \<le> j"
    and ys: "\<forall>(k, v) \<in> set ys. j < unat k" by blast
  have later: "unat k + length v < unat k'" if "(k', v') \<in> set es" for k' v'
    using segs_ok_mem [OF rest that] by simp
  consider (before) "unat k + length v < i" | (touch) "i \<le> unat k + length v" "unat k \<le> j" | (after) "j < unat k"
    by linarith
  then show ?case
  proof cases
    case before
    with es xs del ys show ?thesis
      by (intro exI [of _ "(k, v) # xs"] exI [of _ del] exI [of _ ys]) simp
  next
    case touch
    have "xs = []"
    proof (rule ccontr)
      assume "xs \<noteq> []"
      then obtain k' v' where "(k', v') \<in> set xs" by (metis list.set_intros(1) neq_Nil_conv surj_pair)
      with xs later [of k' v'] touch es show False by fastforce
    qed
    with touch es del ys show ?thesis
      by (intro exI [of _ "[]"] exI [of _ "(k, v) # del"] exI [of _ ys]) simp
  next
    case after
    have "\<forall>(k', v') \<in> set es. j < unat k'"
      using later after by fastforce
    with after show ?thesis
      by (intro exI [of _ "[]"] exI [of _ "[]"] exI [of _ "(k, v) # es"]) simp
  qed
qed simp

lemma merge_loop_before:
  assumes "\<forall>(k, v) \<in> set xs. unat k + length v < unat index"
    and "unat index + length data < 18446744073709551616"
  shows "merge_loop data index (xs @ es) l =
     merge_loop data index es (l\<lparr>ml_prev := if xs = [] then ml_prev l else Some (last xs)\<rparr>)"
  using assms(1)
proof (induction xs arbitrary: l)
  case (Cons e xs)
  obtain k v where e: "e = (k, v)" by (cases e)
  with Cons.prems have lt: "unat k + length v < unat index" by simp
  then have "unat (k + size64 v) = unat k + length v"
    using assms(2) by (simp add: word_simps)
  then have "\<not> index \<le> k + size64 v" "\<not> index + size64 data < k"
    using lt assms(2) by (simp_all add: word_simps)
  then show ?case
    using Cons by (simp add: e)
qed simp

lemma merge_loop_touch:
  assumes "\<forall>(k, v) \<in> set del. unat index \<le> unat k + length v \<and> unat k \<le> unat index + length data \<and>
      unat k + length v < 18446744073709551616"
    and "unat index + length data < 18446744073709551616" and "ml_first l"
  shows "merge_loop data index (del @ es) l =
     merge_loop data index es (l\<lparr>ml_prev := if del = [] then ml_prev l else Some (last del),
       ml_to_be_deleted := ml_to_be_deleted l @ del\<rparr>)"
  using assms(1,3)
proof (induction del arbitrary: l)
  case (Cons e del)
  obtain k v where e: "e = (k, v)" by (cases e)
  with Cons.prems have k: "unat index \<le> unat k + length v" "unat k \<le> unat index + length data"
    "unat k + length v < 18446744073709551616" by auto
  then have "index \<le> k + size64 v" "k \<le> index + size64 data" "\<not> index + size64 data < k"
    using assms(2) by (simp_all add: word_simps)
  then show ?case
    using Cons by (simp add: e)
qed simp

lemma merge_loop_after:
  assumes "\<forall>(k, v) \<in> set ys. unat index + length data < unat k"
    and "unat index + length data < 18446744073709551616"
  shows "merge_loop data index ys l = Inr l"
proof (cases ys)
  case (Cons e es)
  obtain k v where e: "e = (k, v)" by (cases e)
  then have "index + size64 data < k" "\<not> k \<le> index + size64 data"
    using assms Cons by (simp_all add: word_simps)
  then show ?thesis by (simp add: Cons e)
qed simp

subsection \<open>merge\<close>

text \<open>
  A new substring that touches the pending \<open>del\<close>, which begin with \<open>(k1, v1)\<close> and end with
  \<open>(kn, vn)\<close>, between \<open>xs\<close> and \<open>ys\<close>, which it does not touch.
\<close>

definition merge_site :: "seg_map \<Rightarrow> bytes \<Rightarrow> u64 \<Rightarrow> seg_map \<Rightarrow> seg_map \<Rightarrow> seg_map \<Rightarrow> bool" where
  "merge_site buf data index xs del ys \<longleftrightarrow>
     buf = xs @ del @ ys \<and> omap_ok buf \<and> data \<noteq> [] \<and>
     unat index + length data < 18446744073709551616 \<and>
     (\<forall>(k, v) \<in> set xs. unat k + length v < unat index) \<and>
     (\<forall>(k, v) \<in> set ys. unat index + length data < unat k) \<and>
     (\<forall>(k, v) \<in> set del. unat index \<le> unat k + length v \<and> unat k \<le> unat index + length data \<and> v \<noteq> [] \<and>
       unat k + length v < 18446744073709551616)"

lemma merge_site_mem:
  "merge_site buf data index xs del ys \<Longrightarrow> (k, v) \<in> set del \<Longrightarrow>
     unat index \<le> unat k + length v \<and> unat k \<le> unat index + length data \<and> v \<noteq> [] \<and>
     unat k + length v < 18446744073709551616"
  by (auto simp: merge_site_def)

definition merge_locals_init :: merge_locals where
  "merge_locals_init = \<lparr>ml_first = False, ml_index = 0, ml_s = [], ml_prev = None, ml_to_be_deleted = []\<rparr>"

lemma merge_loop_joined:
  assumes site: "merge_site buf data index xs del ys" and del: "del = (k1, v1) # del'"
  shows "merge_loop data index buf merge_locals_init =
      (if index < k1 then Inr (merge_locals_init\<lparr>ml_index := index, ml_first := True,
         ml_prev := Some (last del), ml_to_be_deleted := del\<rparr>)
       else rbind (merge_string v1 k1 data index) (\<lambda>s. Inr (merge_locals_init\<lparr>ml_index := k1, ml_s := s,
         ml_first := True, ml_prev := Some (last del), ml_to_be_deleted := del\<rparr>)))"
proof -
  have bound: "unat index + length data < 18446744073709551616"
    and xs: "\<forall>(k, v) \<in> set xs. unat k + length v < unat index"
    and ys: "\<forall>(k, v) \<in> set ys. unat index + length data < unat k"
    and buf: "buf = xs @ ((k1, v1) # del') @ ys"
    and touch: "\<forall>(k, v) \<in> set del'. unat index \<le> unat k + length v \<and> unat k \<le> unat index + length data \<and>
      unat k + length v < 18446744073709551616"
    using site del by (auto simp: merge_site_def)
  have "index \<le> k1 + size64 v1" "k1 \<le> index + size64 data" "\<not> index + size64 data < k1"
    using merge_site_mem [OF site, of k1 v1] del bound by (simp_all add: word_simps)
  then show ?thesis
    using merge_loop_before [OF xs bound, of "del @ ys"] merge_loop_touch [OF touch bound]
      merge_loop_after [OF ys bound]
    by (cases "merge_string v1 k1 data index") (simp_all add: buf del merge_locals_init_def)
qed

lemma fold_size_eq: "fold (\<lambda>(_, v) t. t + size64 v) es t0 = t0 + of_nat (seg_total es)"
  by (induction es arbitrary: t0) (auto simp: size64_def)

lemma merge_after_loop:
  assumes "merge_loop data index (ra_buf r) merge_locals_init = Inr l"
    and "ml_first l" and "ml_prev l = Some (kn, vn)"
    and "(if ml_s l = [] then merge_string data index vn kn
          else merge_string (ml_s l) (ml_index l) vn kn) = Inr s"
    and "ml_to_be_deleted l = del" and "del \<noteq> []" and "merge_site (ra_buf r) data index xs del ys"
  shows "StreamReassembler_merge r data index =
     Inr (r\<lparr>ra_buf := omap_insert (ml_index l) s (xs @ ys),
       ra_unassembled_bytes := ra_unassembled_bytes r - (of_nat (seg_total del) - size64 s)\<rparr>)"
proof -
  have buf: "ra_buf r = xs @ del @ ys" "omap_ok (xs @ del @ ys)"
    using assms(7) by (simp_all add: merge_site_def) metis
  have "fold (\<lambda>(k, _) b. omap_erase k b) del (ra_buf r) = xs @ ys"
    unfolding buf(1) by (rule erase_middle [OF buf(2)])
  then show ?thesis
    using assms by (simp add: StreamReassembler_merge_def merge_locals_init_def [symmetric] fold_size_eq)
qed

text \<open>
  \<^verbatim>\<open>merge\<close> leaves one substring in place of the touching ones, from the lower beginning to the
  higher end, and counts the bytes it holds more than they did.
\<close>

lemma merge_joined:
  assumes site: "merge_site (ra_buf r) data index xs del ys" and del: "del = (k1, v1) # del'" "last del = (kn, vn)"
    and order: "unat k1 + length v1 \<le> unat kn + length vn" "unat k1 \<le> unat kn"
  obtains idx s where "StreamReassembler_merge r data index =
       Inr (r\<lparr>ra_buf := omap_insert idx s (xs @ ys),
         ra_unassembled_bytes := ra_unassembled_bytes r - (of_nat (seg_total del) - size64 s)\<rparr>)"
    "unat idx = min (unat index) (unat k1)"
    "unat idx + length s = max (unat index + length data) (unat kn + length vn)"
    "\<And>S. excerpts S del \<Longrightarrow> data = chunk S (unat index) (length data) \<Longrightarrow> s = chunk S (unat idx) (length s)"
proof (cases "index < k1")
  case True
  have mem: "(kn, vn) \<in> set del" using del by (metis last_in_set list.distinct(1))
  note kn = merge_site_mem [OF site mem]
  have bound: "unat index + length data < 18446744073709551616" using site by (simp add: merge_site_def)
  have o: "unat index \<le> unat kn" using True order by (simp add: word_less_nat_alt)
  obtain s where s: "merge_string data index vn kn = Inr s"
    "unat index + length s = max (unat index + length data) (unat kn + length vn)"
    "\<And>S. data = chunk S (unat index) (length data) \<Longrightarrow> vn = chunk S (unat kn) (length vn) \<Longrightarrow>
       s = chunk S (unat index) (length s)"
    using merge_string_ok [where i = index and j = kn and a = data and b = vn] o kn bound by metis
  show thesis
  proof (rule that [of s index])
    show "StreamReassembler_merge r data index =
        Inr (r\<lparr>ra_buf := omap_insert index s (xs @ ys),
          ra_unassembled_bytes := ra_unassembled_bytes r - (of_nat (seg_total del) - size64 s)\<rparr>)"
      using merge_after_loop [OF merge_loop_joined [OF site del(1), unfolded if_P [OF True]] _ _ _ _ _ site]
        s(1) del by (simp add: merge_locals_init_def)
  qed (use True s mem in \<open>auto simp: word_less_nat_alt excerpts_def\<close>)
next
  case False
  have mem: "(kn, vn) \<in> set del" using del by (metis last_in_set list.distinct(1))
  note kn = merge_site_mem [OF site mem]
  have mem1: "(k1, v1) \<in> set del" using del by simp
  note k1 = merge_site_mem [OF site mem1]
  have bound: "unat index + length data < 18446744073709551616" using site by (simp add: merge_site_def)
  have le: "unat k1 \<le> unat index" using False by (simp add: word_less_nat_alt)
  obtain s1 where s1: "merge_string v1 k1 data index = Inr s1"
    "unat k1 + length s1 = max (unat k1 + length v1) (unat index + length data)"
    "\<And>S. v1 = chunk S (unat k1) (length v1) \<Longrightarrow> data = chunk S (unat index) (length data) \<Longrightarrow>
       s1 = chunk S (unat k1) (length s1)"
    using merge_string_ok [where i = k1 and j = index and a = v1 and b = data] le k1 bound by metis
  have "length v1 \<le> length s1" using s1(2) by simp
  then have s1b: "unat kn \<le> unat k1 + length s1" "unat k1 + length s1 < 18446744073709551616" "s1 \<noteq> []"
    using s1(2) kn k1 bound by auto
  obtain s where s: "merge_string s1 k1 vn kn = Inr s"
    "unat k1 + length s = max (unat k1 + length s1) (unat kn + length vn)"
    "\<And>S. s1 = chunk S (unat k1) (length s1) \<Longrightarrow> vn = chunk S (unat kn) (length vn) \<Longrightarrow>
       s = chunk S (unat k1) (length s)"
    using merge_string_ok [where i = k1 and j = kn and a = s1 and b = vn] order s1b kn by metis
  show thesis
  proof (rule that [of s k1])
    show "StreamReassembler_merge r data index =
        Inr (r\<lparr>ra_buf := omap_insert k1 s (xs @ ys),
          ra_unassembled_bytes := ra_unassembled_bytes r - (of_nat (seg_total del) - size64 s)\<rparr>)"
      using merge_after_loop [OF merge_loop_joined [OF site del(1), unfolded if_not_P [OF False] s1(1) rbind.simps]
          _ _ _ _ _ site] s(1) s1b(3) del by (simp add: merge_locals_init_def)
    show "unat k1 + length s = max (unat index + length data) (unat kn + length vn)"
      using s(2) s1(2) order by simp
    show "s = chunk S (unat k1) (length s)"
      if "excerpts S del" "data = chunk S (unat index) (length data)" for S
      by (rule s(3) [OF s1(3) [OF excerpts_mem [OF that(1) mem1] that(2)] excerpts_mem [OF that(1) mem]])
  qed (use le in simp)
qed

text \<open>The joined substring covers what the touching ones and the new one cover.\<close>

lemma covered_joined:
  assumes "segs_ok lo hi del" and "del = (k1, v1) # del'" and "last del = (kn, vn)"
    and "i \<le> unat k1 + length v1" and "unat kn \<le> j" and "i \<le> j"
  shows "{min i (unat k1) ..< max j (unat kn + length vn)} = covered del \<union> {i ..< j}"
proof -
  have "covered del \<subseteq> {unat k1 ..< unat kn + length vn}"
  proof
    fix x assume "x \<in> covered del"
    then obtain k v where kv: "(k, v) \<in> set del" "unat k \<le> x" "x < unat k + length v"
      by (auto simp: covered_def seg_span_def)
    obtain front where front: "del = front @ [(kn, vn)]"
      using assms(2,3) by (metis append_butlast_last_id list.distinct(1))
    have "unat k + length v \<le> unat kn + length vn"
    proof (cases "(k, v) \<in> set front")
      case True
      then obtain as bs where "del = as @ (k, v) # bs @ [(kn, vn)]"
        using front by (metis append.assoc append_Cons split_list)
      then have "segs_ok (Suc (unat k + length v)) hi (bs @ [(kn, vn)])"
        using assms(1) by (simp add: segs_ok_append split: if_splits)
      from segs_ok_mem [OF this, of kn vn] show ?thesis by simp
    next
      case False
      with kv front show ?thesis by auto
    qed
    moreover have "unat k1 \<le> unat k"
    proof -
      have "segs_ok (unat k1) hi del" using assms(1,2) by simp
      from segs_ok_mem [OF this kv(1)] show ?thesis by simp
    qed
    ultimately show "x \<in> {unat k1 ..< unat kn + length vn}" using kv by simp
  qed
  moreover have "seg_span (k1, v1) \<subseteq> covered del" "seg_span (kn, vn) \<subseteq> covered del"
    using assms(2,3) by (metis last_in_set list.distinct(1) list.set_intros(1) seg_span_covered)+
  ultimately have inner: "\<And>x. x \<in> covered del \<Longrightarrow> unat k1 \<le> x \<and> x < unat kn + length vn"
    and first: "\<And>x. unat k1 \<le> x \<Longrightarrow> x < unat k1 + length v1 \<Longrightarrow> x \<in> covered del"
    and final: "\<And>x. unat kn \<le> x \<Longrightarrow> x < unat kn + length vn \<Longrightarrow> x \<in> covered del"
    by (auto simp: seg_span_def)
  show ?thesis
  proof (intro equalityI subsetI)
    fix x assume "x \<in> {min i (unat k1) ..< max j (unat kn + length vn)}"
    then consider "i \<le> x" "x < j" | "x < i" "unat k1 \<le> x" | "j \<le> x" "x < unat kn + length vn"
      by (fastforce simp: min_def max_def not_le split: if_splits)
    then show "x \<in> covered del \<union> {i ..< j}"
      using assms(4,5) first [of x] final [of x] by cases simp_all
  next
    fix x assume "x \<in> covered del \<union> {i ..< j}"
    then show "x \<in> {min i (unat k1) ..< max j (unat kn + length vn)}"
      using inner [of x] by auto
  qed
qed

lemma segs_ok_apart:
  "segs_ok lo hi (xs @ ys) \<Longrightarrow> (k, v) \<in> set xs \<Longrightarrow> (k', v') \<in> set ys \<Longrightarrow> unat k + length v < unat k'"
proof (induction xs arbitrary: lo)
  case (Cons e xs)
  obtain a b where e: "e = (a, b)" by (cases e)
  then have rest: "segs_ok (Suc (unat a + length b)) hi (xs @ ys)" using Cons.prems(1) by simp
  show ?case
  proof (cases "(k, v) = e")
    case True
    with segs_ok_mem [OF rest, of k' v'] e Cons.prems(3) show ?thesis by auto
  next
    case False
    with Cons.IH [OF rest] Cons.prems show ?thesis by auto
  qed
qed simp

lemma segs_ok_suffix: "segs_ok lo hi (del @ ys) \<Longrightarrow> segs_ok lo hi ys"
proof (induction del arbitrary: lo)
  case (Cons e del)
  obtain a b where e: "e = (a, b)" by (cases e)
  with Cons.prems have "segs_ok (Suc (unat a + length b)) hi (del @ ys)" "lo \<le> unat a" by auto
  from segs_ok_mono [OF Cons.IH [OF this(1)], of lo hi] this(2) show ?case by simp
qed simp

lemma segs_ok_insert:
  assumes "segs_ok lo hi (xs @ del @ ys)" "\<forall>(k, v) \<in> set xs. unat k + length v < unat i"
    "\<forall>(k, v) \<in> set ys. unat i + length s < unat k" "lo \<le> unat i" "unat i + length s \<le> hi" "s \<noteq> []"
  shows "segs_ok lo hi (xs @ (i, s) # ys)"
  using assms(1,2,4)
proof (induction xs arbitrary: lo)
  case Nil
  from Nil(1) have "segs_ok lo hi ys" by (simp add: segs_ok_suffix)
  with assms(3) have "segs_ok (Suc (unat i + length s)) hi ys"
    by (cases ys) auto
  with assms Nil show ?case by simp
next
  case (Cons e xs)
  obtain a b where e: "e = (a, b)" by (cases e)
  with Cons show ?case by auto
qed

lemma merge_insert:
  assumes segs: "segs_ok lo hi (xs @ del @ ys)" and ne: "s \<noteq> []"
    and xs: "\<forall>(k, v) \<in> set xs. unat k + length v < unat i"
    and ys: "\<forall>(k, v) \<in> set ys. unat i + length s < unat k"
    and range: "lo \<le> unat i" "unat i + length s \<le> hi"
  shows "omap_insert i s (xs @ ys) = xs @ (i, s) # ys" "segs_ok lo hi (xs @ (i, s) # ys)"
proof -
  show "omap_insert i s (xs @ ys) = xs @ (i, s) # ys"
  proof (rule omap_insert_between)
    show "\<forall>p \<in> set xs. fst p < i" using xs by (fastforce simp: word_less_nat_alt)
    show "\<forall>p \<in> set ys. i < fst p" using ys by (fastforce simp: word_less_nat_alt)
  qed
  show "segs_ok lo hi (xs @ (i, s) # ys)" by (rule segs_ok_insert [OF segs xs ys range ne])
qed

lemma merge_touching:
  assumes segs: "segs_ok lo hi (xs @ del @ ys)" and site: "merge_site (ra_buf r) data index xs del ys"
    and ne: "del \<noteq> []" and range: "lo \<le> unat index" "unat index + length data \<le> hi"
  obtains idx s where "StreamReassembler_merge r data index =
       Inr (r\<lparr>ra_buf := xs @ (idx, s) # ys,
         ra_unassembled_bytes := ra_unassembled_bytes r - (of_nat (seg_total del) - size64 s)\<rparr>)"
    "segs_ok lo hi (xs @ (idx, s) # ys)"
    "seg_span (idx, s) = covered del \<union> {unat index ..< unat index + length data}"
    "\<And>S. excerpts S del \<Longrightarrow> data = chunk S (unat index) (length data) \<Longrightarrow> s = chunk S (unat idx) (length s)"
proof -
  obtain k1 v1 del' where del: "del = (k1, v1) # del'" using ne by (metis list.exhaust surj_pair)
  obtain kn vn where last: "last del = (kn, vn)" by (cases "last del")
  have in1: "(k1, v1) \<in> set del" and inn: "(kn, vn) \<in> set del"
    using del last ne last_in_set [OF ne] by simp_all
  note touch = merge_site_mem [OF site in1] merge_site_mem [OF site inn]
  have segs_del: "segs_ok (unat k1) hi del"
    using segs_ok_suffix [OF segs] by (simp add: segs_ok_append del)
  have spans: "{min (unat index) (unat k1) ..< max (unat index + length data) (unat kn + length vn)} =
      covered del \<union> {unat index ..< unat index + length data}"
    using covered_joined [OF segs_del del last, of "unat index" "unat index + length data"] touch by simp
  have order: "unat k1 + length v1 \<le> unat kn + length vn" "unat k1 \<le> unat kn"
    using segs_ok_apart [of "unat k1" hi "[(k1, v1)]" del' k1 v1 kn vn] segs_del del last inn by auto
  obtain idx s where m: "StreamReassembler_merge r data index =
       Inr (r\<lparr>ra_buf := omap_insert idx s (xs @ ys),
         ra_unassembled_bytes := ra_unassembled_bytes r - (of_nat (seg_total del) - size64 s)\<rparr>)"
    "unat idx = min (unat index) (unat k1)"
    "unat idx + length s = max (unat index + length data) (unat kn + length vn)"
    "\<And>S. excerpts S del \<Longrightarrow> data = chunk S (unat index) (length data) \<Longrightarrow> s = chunk S (unat idx) (length s)"
    using merge_joined [OF site del last order] by metis
  have "\<forall>(k, v) \<in> set xs. unat k + length v < unat idx"
    using site segs_ok_apart [OF segs, of _ _ k1 v1] del m(2) by (fastforce simp: merge_site_def)
  moreover have "\<forall>(k, v) \<in> set ys. unat idx + length s < unat k"
    using site segs_ok_apart [of lo hi "xs @ del" ys kn vn] segs inn m(3) by (fastforce simp: merge_site_def)
  moreover have "0 < length data" using site by (simp add: merge_site_def)
  then have "0 < length s" using m(2,3) by linarith
  then have "s \<noteq> []" by simp
  moreover have "lo \<le> unat idx" "unat idx + length s \<le> hi"
    using segs_ok_mem [OF segs, of k1 v1] segs_ok_mem [OF segs, of kn vn] in1 inn range m(2,3) by auto
  ultimately show thesis
    using merge_insert [OF segs, of s idx] m spans
    by (intro that [of s idx]) (auto simp: seg_span_def)
qed

text \<open>
  The effect of \<^verbatim>\<open>merge\<close>: the pending substrings stay apart, the indices of the new one are
  added to those pending, and the counter follows.
\<close>

lemma merge_ok:
  assumes segs: "segs_ok lo hi (ra_buf r)" and ne: "data \<noteq> []"
    and range: "lo \<le> unat index" "unat index + length data \<le> hi" "hi < 18446744073709551616"
  obtains buf where "StreamReassembler_merge r data index =
       Inr (r\<lparr>ra_buf := buf, ra_unassembled_bytes :=
         ra_unassembled_bytes r + of_nat (seg_total buf) - of_nat (seg_total (ra_buf r))\<rparr>)"
    "segs_ok lo hi buf"
    "covered buf = covered (ra_buf r) \<union> {unat index ..< unat index + length data}"
    "\<And>S. excerpts S (ra_buf r) \<Longrightarrow> data = chunk S (unat index) (length data) \<Longrightarrow> excerpts S buf"
proof -
  obtain xs del ys where split: "ra_buf r = xs @ del @ ys"
    and xs: "\<forall>(k, v) \<in> set xs. unat k + length v < unat index"
    and del: "\<forall>(k, v) \<in> set del. unat index \<le> unat k + length v \<and> unat k \<le> unat index + length data"
    and ys: "\<forall>(k, v) \<in> set ys. unat index + length data < unat k"
    using segs_split [OF segs, of "unat index" "unat index + length data"] by auto
  note segs' = segs [unfolded split]
  have mem: "unat k + length v < 18446744073709551616 \<and> v \<noteq> []" if "(k, v) \<in> set del" for k v
    using segs_ok_mem [OF segs', of k v] that range(3) by auto
  have site: "merge_site (ra_buf r) data index xs del ys"
    using split segs_ok_omap_ok [OF segs] ne range xs del ys mem by (force simp: merge_site_def)
  show thesis
  proof (cases del)
    case Nil
    have bound: "unat index + length data < 18446744073709551616" using range by simp
    have "merge_loop data index (ra_buf r) merge_locals_init =
        Inr (merge_locals_init\<lparr>ml_prev := if xs = [] then None else Some (last xs)\<rparr>)"
      using merge_loop_before [OF xs bound, of ys merge_locals_init] merge_loop_after [OF ys bound]
      by (simp add: split Nil merge_locals_init_def)
    then have "StreamReassembler_merge r data index =
        Inr (r\<lparr>ra_buf := omap_insert index data (xs @ ys),
               ra_unassembled_bytes := ra_unassembled_bytes r + size64 data\<rparr>)"
      by (simp add: StreamReassembler_merge_def merge_locals_init_def split Nil)
    with merge_insert [OF segs' ne xs ys range(1,2)] show thesis
      by (intro that [of "xs @ (index, data) # ys"])
        (auto simp: split Nil seg_span_def size64_def)
  next
    case Cons
    then have "del \<noteq> []" by simp
    from merge_touching [OF segs' site this range(1,2)] obtain idx s where
      "StreamReassembler_merge r data index = Inr (r\<lparr>ra_buf := xs @ (idx, s) # ys,
         ra_unassembled_bytes := ra_unassembled_bytes r - (of_nat (seg_total del) - size64 s)\<rparr>)"
      "segs_ok lo hi (xs @ (idx, s) # ys)"
      "seg_span (idx, s) = covered del \<union> {unat index ..< unat index + length data}"
      "\<And>S. excerpts S del \<Longrightarrow> data = chunk S (unat index) (length data) \<Longrightarrow> s = chunk S (unat idx) (length s)"
      by metis
    then show thesis
      by (intro that [of "xs @ (idx, s) # ys"]) (auto simp: split size64_def algebra_simps)
  qed
qed

end
