(* ===== verification/Reassembly.thy ===== *)
theory Reassembly
  imports Stream_Reassembler
begin

text \<open>
  What \<^verbatim>\<open>StreamReassembler::push_substring\<close> does to the abstract view of a reassembler: the
  next index to be written and the set of the pending indices. The invariant, the lemmas
  for \<^verbatim>\<open>validate\<close>, \<^verbatim>\<open>reorder_buffer\<close> and \<^verbatim>\<open>push_substring\<close>, and the properties of runs in which
  substrings of one stream arrive in any order while the output is read.
\<close>

subsection \<open>Invariant and abstract view\<close>

definition ra_next :: "reassembler \<Rightarrow> nat" where
  "ra_next r = unat (ra_expected_index r)"

definition ra_limit :: "reassembler \<Rightarrow> nat" where
  "ra_limit r = unat (ra_expected_index r) + bs_free (ra_output r)"

definition reassembler_ok :: "reassembler \<Rightarrow> bool" where
  "reassembler_ok r \<longleftrightarrow>
     byte_stream_ok (ra_output r) \<and> bs_cap (ra_output r) = ra_capacity r \<and>
     bs_total_written_bytes (ra_output r) = ra_expected_index r \<and>
     segs_ok (Suc (ra_next r)) (ra_limit r) (ra_buf r) \<and>
     ra_unassembled_bytes r = of_nat (seg_total (ra_buf r))"

text \<open>
  The contract of a push of the indices from \<open>i\<close> to \<open>j\<close> in the view \<open>(n, U)\<close>: the indices in
  the window from \<open>n\<close> to \<open>u\<close> join the pending ones, and those that are now contiguous with \<open>n\<close>
  leave it.
\<close>

definition push_spec :: "nat \<times> nat set \<Rightarrow> nat \<Rightarrow> nat \<Rightarrow> nat \<Rightarrow> nat \<times> nat set \<Rightarrow> bool" where
  "push_spec = (\<lambda>(n, U) u i j (n', U').
     let V = U \<union> ({i ..< j} \<inter> {n ..< u}) in
     n \<le> n' \<and> {n ..< n'} \<subseteq> V \<and> n' \<notin> V \<and> U' = V - {..< n'})"

definition ra_view :: "reassembler \<Rightarrow> nat \<times> nat set" where
  "ra_view r = (ra_next r, covered (ra_buf r))"

lemma ByteStream_new_simps [simp]:
  "bs_cap (ByteStream_new c) = c" "bs_total_written_bytes (ByteStream_new c) = 0"
  "bs_free (ByteStream_new c) = unat c" "\<not> bs_input_ended (ByteStream_new c)"
  using bs_contents_new [of c] by (simp_all add: ByteStream_new_def bs_free_def)

lemma reassembler_ok_new [simp]: "reassembler_ok (StreamReassembler_new c)"
  by (simp add: reassembler_ok_def StreamReassembler_new_def)

lemma StreamReassembler_new_simps [simp]:
  "ra_limit (StreamReassembler_new c) = unat c" "ra_next (StreamReassembler_new c) = 0"
  "ra_buf (StreamReassembler_new c) = []" "\<not> ra_input_ended (StreamReassembler_new c)"
  "ra_output (StreamReassembler_new c) = ByteStream_new c" "ra_capacity (StreamReassembler_new c) = c"
  by (simp_all add: StreamReassembler_new_def ra_limit_def ra_next_def)

lemma ra_limit_bound: "reassembler_ok r \<Longrightarrow> seg_total (ra_buf r) \<le> bs_free (ra_output r)"
proof -
  assume ok: "reassembler_ok r"
  then have segs: "segs_ok (Suc (ra_next r)) (ra_limit r) (ra_buf r)" by (simp add: reassembler_ok_def)
  have "card (covered (ra_buf r)) \<le> card {Suc (ra_next r) ..< ra_limit r}"
    by (rule card_mono [OF _ segs_ok_bound [OF segs]]) simp
  then show ?thesis using card_covered [OF segs] by (simp add: ra_limit_def ra_next_def)
qed

lemma unassembled_bytes_card:
  assumes "reassembler_ok r"
  shows "unat (ra_unassembled_bytes r) = card (covered (ra_buf r))"
proof -
  have "card (covered (ra_buf r)) = seg_total (ra_buf r)"
    using assms card_covered by (auto simp: reassembler_ok_def)
  moreover have "bs_free (ra_output r) < 18446744073709551616"
    unfolding bs_free_def using unat64_lt [of "bs_cap (ra_output r)"] by linarith
  ultimately show ?thesis
    using assms ra_limit_bound [OF assms] by (simp add: reassembler_ok_def unat_of_nat)
qed

subsection \<open>validate\<close>

lemma validate_eq:
  fixes index :: u64
  assumes ok: "reassembler_ok r" and bound: "ra_limit r + length data < 18446744073709551616"
  defines "i \<equiv> unat index" and "n \<equiv> ra_next r" and "u \<equiv> ra_limit r"
  shows "StreamReassembler_validate r data index eof =
    (if u = n \<or> data = [] then Inr ([], 0, eof, True)
     else if u \<le> i \<or> i + length data \<le> n then Inr ([], 0, False, False)
     else Inr (chunk data (max i n - i) (min (i + length data) u - max i n), of_nat (max i n),
               eof \<and> i + length data \<le> u, True))"
proof -
  define R where "R = ByteStream_remaining_capacity (ra_output r)"
  define E where "E = ra_expected_index r"
  have R: "unat R = u - n" and E: "unat E = n" and nu: "n \<le> u"
    using ok unat_remaining_capacity [of "ra_output r"]
    by (auto simp: R_def E_def u_def n_def ra_limit_def ra_next_def reassembler_ok_def)
  have UB: "unat (E + R) = u"
    using R E nu bound by (subst unat_add_nowrap) (simp_all add: u_def)
  have len: "unat (size64 data) = length data" using bound by simp
  have zero: "R = 0 \<longleftrightarrow> u = n" using R nu by (simp add: unat_eq_iff)
  have empty: "size64 data = 0 \<longleftrightarrow> data = []" using bound by (simp add: size64_eq_0_iff)
  have over: "E + R \<le> index \<longleftrightarrow> u \<le> i" using UB by (simp add: word_le_nat_alt i_def)
  note defs = StreamReassembler_validate_def Let_def R_def [symmetric] E_def [symmetric] zero empty over
  consider "u = n \<or> data = []" | "u \<le> i" "u \<noteq> n" "data \<noteq> []" | "i < u" "u \<noteq> n" "data \<noteq> []" by linarith
  then show ?thesis
  proof cases
    case 3
    have J: "unat (index + size64 data) = i + length data"
      using 3 bound len by (subst unat_add_nowrap) (simp_all add: i_def u_def)
    have old: "index + size64 data \<le> E \<longleftrightarrow> i + length data \<le> n"
      and low: "index \<le> E \<longleftrightarrow> i \<le> n"
      and high: "E + R < index + size64 data \<longleftrightarrow> u < i + length data"
      using J E UB by (simp_all add: word_le_nat_alt word_less_nat_alt i_def)
    have sub1: "unat (E + R - E) = u - n" using R by simp
    have sub2: "unat (E - index) = n - i" if "i \<le> n"
      using that E by (subst unat_sub_nowrap) (simp_all add: word_le_nat_alt i_def)
    have sub3: "unat (size64 data + index - E) = i + length data - n" if "\<not> i + length data \<le> n"
      using that J E by (subst unat_sub_nowrap) (simp_all add: word_le_nat_alt add.commute)
    have sub4: "unat (E + R - index) = u - i"
      using 3 UB by (subst unat_sub_nowrap) (simp_all add: word_le_nat_alt i_def)
    have idx: "of_nat i = index" "of_nat n = E" using E by (simp_all add: i_def flip: E)
    have pos: "\<not> size64 data < E - index" if "i \<le> n" "\<not> i + length data \<le> n"
      using that sub2 len by (simp add: word_less_nat_alt)
    show ?thesis
      using 3 pos sub1 sub2 sub3 sub4 nu
      by (cases "i \<le> n"; cases "u < i + length data")
        (simp_all add: defs old low high substr_def chunk_def len idx max_def min_def)
  qed (auto simp: defs)
qed

subsection \<open>reorder_buffer\<close>

text \<open>The invariant between \<^verbatim>\<open>merge\<close> and \<^verbatim>\<open>reorder_buffer\<close>: a substring may begin at the next index.\<close>

definition reassembler_mid :: "reassembler \<Rightarrow> bool" where
  "reassembler_mid r \<longleftrightarrow>
     byte_stream_ok (ra_output r) \<and> bs_cap (ra_output r) = ra_capacity r \<and>
     bs_total_written_bytes (ra_output r) = ra_expected_index r \<and>
     segs_ok (ra_next r) (ra_limit r) (ra_buf r) \<and> ra_limit r < 18446744073709551616 \<and>
     ra_unassembled_bytes r = of_nat (seg_total (ra_buf r))"

text \<open>
  The relation of a state to the one after: the bytes written are those of the indices from
  the old next index to the new one, which is the first index not pending.
\<close>

definition advances :: "reassembler \<Rightarrow> nat set \<Rightarrow> reassembler \<Rightarrow> bool" where
  "advances r V r' \<longleftrightarrow>
     ra_next r \<le> ra_next r' \<and> {ra_next r ..< ra_next r'} \<subseteq> V \<and> ra_next r' \<notin> V \<and>
     covered (ra_buf r') = V - {..< ra_next r'} \<and> ra_limit r' = ra_limit r \<and>
     ra_capacity r' = ra_capacity r \<and>
     bs_total_read_bytes (ra_output r') = bs_total_read_bytes (ra_output r)"

definition carries :: "bytes \<Rightarrow> reassembler \<Rightarrow> reassembler \<Rightarrow> bool" where
  "carries S r r' \<longleftrightarrow> excerpts S (ra_buf r') \<and>
     bs_contents (ra_output r') = bs_contents (ra_output r) @ chunk S (ra_next r) (ra_next r' - ra_next r)"

lemma segs_ok_tail:
  assumes "segs_ok lo hi ((k, v) # es)"
  shows "unat k + length v \<notin> covered ((k, v) # es)" "covered es = covered ((k, v) # es) - {..< unat k + length v}"
proof -
  have "covered es \<subseteq> {Suc (unat k + length v) ..< hi}" using assms by (auto dest: segs_ok_bound)
  then show "unat k + length v \<notin> covered ((k, v) # es)" "covered es = covered ((k, v) # es) - {..< unat k + length v}"
    by (auto simp: seg_span_def)
qed

lemma omap_erase_head: "omap_ok ((k, v) # es) \<Longrightarrow> omap_erase k ((k, v) # es) = es"
  by (auto simp: omap_erase_def omap_ok_Cons intro!: filter_True)

lemma reorder_first:
  assumes mid: "reassembler_mid r" and buf: "ra_buf r = (k, v) # es" and k: "unat k = ra_next r"
  obtains r' where "StreamReassembler_reorder_buffer r = Inr r'" "reassembler_ok r'"
    "advances r (covered (ra_buf r)) r'" "\<And>S. excerpts S (ra_buf r) \<Longrightarrow> carries S r r'"
    "ra_input_ended r' = ra_input_ended r" "bs_input_ended (ra_output r') = bs_input_ended (ra_output r)"
proof -
  define r' where "r' = r\<lparr>ra_output := fst (ByteStream_write (ra_output r) v),
    ra_unassembled_bytes := ra_unassembled_bytes r - size64 v,
    ra_expected_index := ra_expected_index r + size64 v, ra_buf := es\<rparr>"
  have segs: "segs_ok (ra_next r) (ra_limit r) ((k, v) # es)" and ok: "byte_stream_ok (ra_output r)"
    and lim: "ra_limit r < 18446744073709551616"
    using mid buf by (simp_all add: reassembler_mid_def)
  then have v: "v \<noteq> []" "length v \<le> bs_free (ra_output r)" "str_ok v"
    using k by (auto simp: ra_limit_def ra_next_def)
  note w = ByteStream_write_ok [OF ok v(3)]
  have pos: "0 < bs_free (ra_output r)" using v(1,2) by (cases v) auto
  have k_eq: "k = ra_expected_index r" using k by (simp add: ra_next_def unat_eq_iff)
  have rem: "unat (ByteStream_remaining_capacity (ra_output r)) = bs_free (ra_output r)"
    by (rule unat_remaining_capacity [OF ok])
  then have "\<not> ByteStream_remaining_capacity (ra_output r) < size64 v" "0 < ByteStream_remaining_capacity (ra_output r)"
    using v(2,3) pos by (auto simp: word_less_nat_alt)
  then have eq: "StreamReassembler_reorder_buffer r = Inr r'"
    using omap_erase_head [OF segs_ok_omap_ok [OF segs]]
    by (simp add: StreamReassembler_reorder_buffer_def buf k_eq r'_def)
  have next': "ra_next r' = ra_next r + length v"
    using v(2,3) lim unfolding r'_def ra_next_def ra_limit_def
    by (simp add: unat_add_nowrap)
  have lim': "ra_limit r' = ra_limit r"
    using next' w v(2) ok by (auto simp: r'_def ra_limit_def ra_next_def bs_free_def byte_stream_ok_def)
  have buf': "ra_buf r' = es" by (simp add: r'_def)
  have "reassembler_ok r'"
    using mid w v next' lim' segs buf k
    by (simp add: reassembler_ok_def reassembler_mid_def) (simp add: r'_def size64_def)
  moreover have "advances r (covered (ra_buf r)) r'"
    unfolding advances_def buf next' lim'
  proof (intro conjI)
    show "{ra_next r ..< ra_next r + length v} \<subseteq> covered ((k, v) # es)" by (simp add: seg_span_def k le_supI1)
    show "ra_next r + length v \<notin> covered ((k, v) # es)" using segs_ok_tail(1) [OF segs] k by metis
    show "covered (ra_buf r') = covered ((k, v) # es) - {..< ra_next r + length v}"
      unfolding buf' by (rule segs_ok_tail(2) [OF segs, unfolded k])
  qed (simp_all add: r'_def)
  moreover have "carries S r r'" if "excerpts S (ra_buf r)" for S
  proof -
    have "v = chunk S (ra_next r) (length v)" "excerpts S es" using that k by (simp_all add: buf)
    moreover have "bs_contents (ra_output r') = bs_contents (ra_output r) @ v"
      using w v(2) by (simp add: r'_def)
    ultimately show ?thesis by (simp add: carries_def next' buf')
  qed
  ultimately show thesis
    using eq by (intro that [of r']) (simp_all add: r'_def)
qed

lemma advances_refl:
  assumes "reassembler_ok r"
  shows "advances r (covered (ra_buf r)) r"
proof -
  have "covered (ra_buf r) \<subseteq> {Suc (ra_next r) ..< ra_limit r}"
    using assms segs_ok_bound by (auto simp: reassembler_ok_def)
  then show ?thesis by (auto simp: advances_def)
qed

lemma carries_refl: "excerpts S (ra_buf r) \<Longrightarrow> carries S r r"
  by (simp add: carries_def chunk_def)

lemma reorder_ok:
  assumes mid: "reassembler_mid r"
  obtains r' where "StreamReassembler_reorder_buffer r = Inr r'" "reassembler_ok r'"
    "advances r (covered (ra_buf r)) r'" "\<And>S. excerpts S (ra_buf r) \<Longrightarrow> carries S r r'"
    "ra_input_ended r' = ra_input_ended r" "bs_input_ended (ra_output r') = bs_input_ended (ra_output r)"
proof (cases "\<exists>k v es. ra_buf r = (k, v) # es \<and> unat k = ra_next r")
  case True
  then obtain k v es where "ra_buf r = (k, v) # es" "unat k = ra_next r" by blast
  from reorder_first [OF mid this] that show thesis by metis
next
  case False
  then have "StreamReassembler_reorder_buffer r = Inr r"
    by (auto simp: StreamReassembler_reorder_buffer_def ra_next_def Let_def split: list.splits)
  moreover have "segs_ok (Suc (ra_next r)) (ra_limit r) (ra_buf r)"
  proof (cases "ra_buf r")
    case (Cons e es)
    obtain k v where e: "e = (k, v)" by (cases e)
    with Cons False have "unat k \<noteq> ra_next r" by blast
    moreover have "segs_ok (ra_next r) (ra_limit r) ((k, v) # es)"
      using mid Cons e by (simp add: reassembler_mid_def)
    ultimately show ?thesis using Cons e by simp
  qed simp
  then have "reassembler_ok r" using mid by (simp add: reassembler_ok_def reassembler_mid_def)
  ultimately show thesis using advances_refl carries_refl by (intro that [of r]) simp_all
qed

subsection \<open>push_substring\<close>

text \<open>
  \<^verbatim>\<open>validate\<close> accepts a push, and lets its end-of-file flag through: in a full output stream,
  and with no data, whatever the index.
\<close>

definition push_accepted :: "reassembler \<Rightarrow> bytes \<Rightarrow> u64 \<Rightarrow> bool" where
  "push_accepted r data index \<longleftrightarrow> ra_limit r = ra_next r \<or> data = [] \<or>
     unat index < ra_limit r \<and> ra_next r < unat index + length data"

definition push_closes :: "reassembler \<Rightarrow> bytes \<Rightarrow> u64 \<Rightarrow> bool" where
  "push_closes r data index \<longleftrightarrow> ra_limit r = ra_next r \<or> data = [] \<or>
     ra_next r < unat index + length data \<and> unat index + length data \<le> ra_limit r"

definition arriving :: "reassembler \<Rightarrow> bytes \<Rightarrow> u64 \<Rightarrow> nat set" where
  "arriving r data index = {unat index ..< unat index + length data} \<inter> {ra_next r ..< ra_limit r}"

lemma merge_reorder_ok:
  assumes ok: "reassembler_ok r" and bound: "ra_limit r < 18446744073709551616"
    and d: "d \<noteq> []" and range: "ra_next r \<le> unat m" "unat m + length d \<le> ra_limit r"
  obtains r' where "rbind (StreamReassembler_merge r d m) StreamReassembler_reorder_buffer = Inr r'"
    "reassembler_ok r'" "advances r (covered (ra_buf r) \<union> {unat m ..< unat m + length d}) r'"
    "\<And>S. excerpts S (ra_buf r) \<Longrightarrow> d = chunk S (unat m) (length d) \<Longrightarrow> carries S r r'"
    "ra_input_ended r' = ra_input_ended r" "bs_input_ended (ra_output r') = bs_input_ended (ra_output r)"
proof -
  have "segs_ok (Suc (ra_next r)) (ra_limit r) (ra_buf r)" using ok by (simp add: reassembler_ok_def)
  then have segs: "segs_ok (ra_next r) (ra_limit r) (ra_buf r)" by (rule segs_ok_mono) simp_all
  obtain buf where m: "StreamReassembler_merge r d m =
       Inr (r\<lparr>ra_buf := buf, ra_unassembled_bytes :=
         ra_unassembled_bytes r + of_nat (seg_total buf) - of_nat (seg_total (ra_buf r))\<rparr>)"
    "segs_ok (ra_next r) (ra_limit r) buf"
    "covered buf = covered (ra_buf r) \<union> {unat m ..< unat m + length d}"
    "\<And>S. excerpts S (ra_buf r) \<Longrightarrow> d = chunk S (unat m) (length d) \<Longrightarrow> excerpts S buf"
    using merge_ok [OF segs d range bound] by metis
  define r1 where "r1 = r\<lparr>ra_buf := buf, ra_unassembled_bytes :=
         ra_unassembled_bytes r + of_nat (seg_total buf) - of_nat (seg_total (ra_buf r))\<rparr>"
  have same: "ra_next r1 = ra_next r" "ra_limit r1 = ra_limit r" "ra_output r1 = ra_output r"
    "ra_buf r1 = buf" "ra_input_ended r1 = ra_input_ended r" "ra_capacity r1 = ra_capacity r"
    by (simp_all add: r1_def ra_next_def ra_limit_def)
  have "reassembler_mid r1"
    unfolding reassembler_mid_def same using ok m(2) bound
    by (simp add: r1_def reassembler_ok_def)
  from reorder_ok [OF this, unfolded same] obtain r' where
    r': "StreamReassembler_reorder_buffer r1 = Inr r'" "reassembler_ok r'" "advances r1 (covered buf) r'"
      "\<And>S. excerpts S buf \<Longrightarrow> carries S r1 r'" "ra_input_ended r' = ra_input_ended r"
      "bs_input_ended (ra_output r') = bs_input_ended (ra_output r)" by metis
  show thesis
    using r' m(4) by (intro that [of r'])
      (simp_all add: m(1,3) r1_def [symmetric] advances_def carries_def same)
qed

text \<open>The end of \<^verbatim>\<open>push_substring\<close>, after the data are in.\<close>

definition push_finish :: "bool \<Rightarrow> reassembler \<Rightarrow> reassembler" where
  "push_finish eof r =
     (let r = (if eof then r\<lparr>ra_input_ended := True\<rparr> else r) in
      if ra_input_ended r \<and> StreamReassembler_empty r
      then r\<lparr>ra_output := ByteStream_end_input (ra_output r)\<rparr> else r)"

lemma push_finish_simps [simp]:
  "ra_buf (push_finish eof r) = ra_buf r"
  "ra_next (push_finish eof r) = ra_next r"
  "ra_limit (push_finish eof r) = ra_limit r"
  "ra_capacity (push_finish eof r) = ra_capacity r"
  "bs_contents (ra_output (push_finish eof r)) = bs_contents (ra_output r)"
  "bs_total_read_bytes (ra_output (push_finish eof r)) = bs_total_read_bytes (ra_output r)"
  "reassembler_ok (push_finish eof r) = reassembler_ok r"
  "advances r0 V (push_finish eof r) = advances r0 V r"
  "carries S r0 (push_finish eof r) = carries S r0 r"
  by (simp_all add: push_finish_def Let_def ra_next_def ra_limit_def reassembler_ok_def advances_def carries_def)

lemma push_finish_ended:
  assumes "reassembler_ok r"
  shows "ra_input_ended (push_finish eof r) \<longleftrightarrow> ra_input_ended r \<or> eof"
    "bs_input_ended (ra_output (push_finish eof r)) \<longleftrightarrow>
       bs_input_ended (ra_output r) \<or> ra_input_ended (push_finish eof r) \<and> covered (ra_buf r) = {}"
proof -
  have "StreamReassembler_empty r \<longleftrightarrow> covered (ra_buf r) = {}"
    using unassembled_bytes_card [OF assms]
    by (simp add: StreamReassembler_empty_def unat_eq_iff)
  then show "ra_input_ended (push_finish eof r) \<longleftrightarrow> ra_input_ended r \<or> eof"
    "bs_input_ended (ra_output (push_finish eof r)) \<longleftrightarrow>
       bs_input_ended (ra_output r) \<or> ra_input_ended (push_finish eof r) \<and> covered (ra_buf r) = {}"
    by (auto simp: push_finish_def Let_def StreamReassembler_empty_def)
qed

definition push_effect :: "reassembler \<Rightarrow> bytes \<Rightarrow> u64 \<Rightarrow> bool \<Rightarrow> reassembler \<Rightarrow> bool" where
  "push_effect r data index eof r' \<longleftrightarrow>
     reassembler_ok r' \<and> advances r (covered (ra_buf r) \<union> arriving r data index) r' \<and>
     (ra_input_ended r' \<longleftrightarrow> ra_input_ended r \<or> eof \<and> push_closes r data index) \<and>
     (bs_input_ended (ra_output r') \<longleftrightarrow> bs_input_ended (ra_output r) \<or>
        push_accepted r data index \<and> ra_input_ended r' \<and> covered (ra_buf r') = {})"

lemma push_data:
  assumes ok: "reassembler_ok r" and bound: "ra_limit r + length data < 18446744073709551616"
    and acc: "ra_limit r \<noteq> ra_next r" "data \<noteq> []" "unat index < ra_limit r" "ra_next r < unat index + length data"
  obtains r' where "StreamReassembler_push_substring r data index eof = Inr r'"
    "push_effect r data index eof r'"
    "\<And>S. excerpts S (ra_buf r) \<Longrightarrow> data = chunk S (unat index) (length data) \<Longrightarrow> carries S r r'"
proof -
  let ?i = "unat index" and ?n = "ra_next r" and ?u = "ra_limit r"
  define d where "d = chunk data (max ?i ?n - ?i) (min (?i + length data) ?u - max ?i ?n)"
  define m :: u64 where "m = of_nat (max ?i ?n)"
  have m: "unat m = max ?i ?n"
    by (cases "?i \<le> ?n") (simp_all add: m_def ra_next_def)
  have v: "StreamReassembler_validate r data index eof = Inr (d, m, eof \<and> ?i + length data \<le> ?u, True)"
    using acc by (subst validate_eq [OF ok bound]) (simp add: d_def m_def)
  have len: "length d = min (?i + length data) ?u - max ?i ?n"
    using acc by (auto simp: d_def chunk_def)
  have pos: "0 < length d" "?n \<le> unat m" "unat m + length d \<le> ?u"
    using len m acc nle_le ra_limit_def ra_next_def by auto
  have span: "{unat m ..< unat m + length d} = arriving r data index"
    using len m acc by (auto simp: arriving_def)
  from pos(1) have "d \<noteq> []" by simp
  from merge_reorder_ok [OF ok _ this pos(2,3)] bound span obtain r1 where
    r1: "rbind (StreamReassembler_merge r d m) StreamReassembler_reorder_buffer = Inr r1"
    "reassembler_ok r1" "advances r (covered (ra_buf r) \<union> arriving r data index) r1"
    "\<And>S. excerpts S (ra_buf r) \<Longrightarrow> d = chunk S (unat m) (length d) \<Longrightarrow> carries S r r1"
    "ra_input_ended r1 = ra_input_ended r" "bs_input_ended (ra_output r1) = bs_input_ended (ra_output r)"
    by (metis add_lessD1)
  let ?r' = "push_finish (eof \<and> ?i + length data \<le> ?u) r1"
  show thesis
  proof (rule that [of ?r'])
    show "StreamReassembler_push_substring r data index eof = Inr ?r'"
      using v r1(1) \<open>d \<noteq> []\<close> by (simp add: StreamReassembler_push_substring_def push_finish_def Let_def)
    show "push_effect r data index eof ?r'"
      using r1 acc push_finish_ended [OF r1(2)] by (auto simp: push_effect_def push_accepted_def push_closes_def)
    show "carries S r ?r'" if "excerpts S (ra_buf r)" "data = chunk S ?i (length data)" for S
    proof -
      have "d = chunk S (unat m) (length d)"
      proof -
        have "min (length d) (length data - (max ?i ?n - ?i)) = length d" "?i + (max ?i ?n - ?i) = unat m"
          using len m by auto
        moreover have "d = chunk data (max ?i ?n - ?i) (length d)" by (simp add: d_def len [unfolded d_def])
        ultimately show ?thesis
          using chunk_chunk [of S ?i "length data" "max ?i ?n - ?i" "length d"] that(2) by metis
      qed
      with r1(4) that show ?thesis by simp
    qed
  qed
qed

text \<open>The effect of \<^verbatim>\<open>push_substring\<close> on every branch; none of them throws.\<close>

lemma push_ok:
  assumes ok: "reassembler_ok r" and bound: "ra_limit r + length data < 18446744073709551616"
  obtains r' where "StreamReassembler_push_substring r data index eof = Inr r'"
    "push_effect r data index eof r'"
    "\<And>S. excerpts S (ra_buf r) \<Longrightarrow> data = chunk S (unat index) (length data) \<Longrightarrow> carries S r r'"
proof -
  consider (idle) "ra_limit r = ra_next r \<or> data = []"
    | (outside) "ra_limit r \<noteq> ra_next r" "data \<noteq> []" "ra_limit r \<le> unat index \<or> unat index + length data \<le> ra_next r"
    | (inside) "ra_limit r \<noteq> ra_next r" "data \<noteq> []" "unat index < ra_limit r" "ra_next r < unat index + length data"
    by linarith
  then show thesis
  proof cases
    case idle
    then have none: "arriving r data index = {}" by (auto simp: arriving_def)
    have "StreamReassembler_validate r data index eof = Inr ([], 0, eof, True)"
      by (rule trans [OF validate_eq [OF ok bound] if_P [OF idle]])
    then have eq: "StreamReassembler_push_substring r data index eof = Inr (push_finish eof r)"
      by (simp add: StreamReassembler_push_substring_def push_finish_def Let_def)
    have "push_effect r data index eof (push_finish eof r)"
      using idle ok none advances_refl [OF ok] push_finish_ended [OF ok]
      by (auto simp: push_effect_def push_accepted_def push_closes_def)
    then show thesis by (intro that [OF eq]) (auto intro: carries_refl)
  next
    case outside
    then have none: "arriving r data index = {}" by (auto simp: arriving_def)
    have "StreamReassembler_validate r data index eof = Inr ([], 0, False, False)"
      using outside by (subst validate_eq [OF ok bound]) simp
    then have eq: "StreamReassembler_push_substring r data index eof = Inr r"
      by (simp add: StreamReassembler_push_substring_def)
    have "0 < length data" using outside by simp
    then have "\<not> (ra_next r < unat index + length data \<and> unat index + length data \<le> ra_limit r)"
      using outside(3) by linarith
    then have "push_effect r data index eof r"
      using outside ok none advances_refl [OF ok]
      by (auto simp: push_effect_def push_accepted_def push_closes_def)
    then show thesis by (intro that [OF eq]) (auto intro: carries_refl)
  next
    case inside
    from push_data [OF ok bound inside] that show thesis by metis
  qed
qed

text \<open>
  C3. \<^verbatim>\<open>StreamReassembler::push_substring\<close> implements its contract: as long as the indices do not
  leave 64 bits it never throws and never reaches the read after erase in
  \<^verbatim>\<open>reorder_buffer\<close>; the indices that fit in the window become pending, whatever the overlaps
  with the substrings already there, and exactly those contiguous with the output are
  written to it; the invariant is kept and \<^verbatim>\<open>unassembled_bytes()\<close> counts the pending indices,
  each once.
\<close>

theorem push_refines:
  assumes "reassembler_ok r" and "ra_limit r + length data < 18446744073709551616"
  shows "\<exists>r'. StreamReassembler_push_substring r data index eof = Inr r' \<and> reassembler_ok r' \<and>
     push_spec (ra_view r) (ra_limit r) (unat index) (unat index + length data) (ra_view r') \<and>
     unat (ra_unassembled_bytes r') = card (snd (ra_view r'))"
proof -
  obtain r' where "StreamReassembler_push_substring r data index eof = Inr r'"
    "push_effect r data index eof r'" using push_ok [OF assms] by metis
  then show ?thesis
    using unassembled_bytes_card [of r']
    by (auto simp: push_effect_def advances_def push_spec_def ra_view_def arriving_def Let_def)
qed

theorem push_refines_witness:
  "\<exists>r'. StreamReassembler_push_substring (StreamReassembler_new 8) [1, 2] 3 True = Inr r' \<and> reassembler_ok r' \<and>
     push_spec (ra_view (StreamReassembler_new 8)) (ra_limit (StreamReassembler_new 8)) 3 5 (ra_view r') \<and>
     unat (ra_unassembled_bytes r') = card (snd (ra_view r'))"
  using push_refines [of "StreamReassembler_new 8" "[1, 2]" 3 True] by simp

subsection \<open>Runs\<close>

text \<open>
  A run over the stream \<open>S\<close>: excerpts of \<open>S\<close> are pushed in any order, with any overlaps and
  repetitions, between reads of the output. A state is the reassembler and the bytes read.
  An end-of-file flag comes only with an excerpt that ends at the end of \<open>S\<close>; since
  \<^verbatim>\<open>validate\<close> lets it through without data and in a full output, it comes there only when all
  of \<open>S\<close> has been written.
\<close>

inductive ra_step :: "bytes \<Rightarrow> reassembler \<times> bytes \<Rightarrow> reassembler \<times> bytes \<Rightarrow> bool" for S where
  push: "StreamReassembler_push_substring r (chunk S (unat index) len) index eof = Inr r' \<Longrightarrow>
    unat index + len \<le> length S \<Longrightarrow>
    (eof \<Longrightarrow> unat index + len = length S \<and> (ra_next r = length S \<or> 0 < len \<and> ra_next r < ra_limit r)) \<Longrightarrow>
    ra_step S (r, out) (r', out)"
| read: "ByteStream_read (ra_output r) n = Inr (xs, s) \<Longrightarrow>
    ra_step S (r, out) (r\<lparr>ra_output := s\<rparr>, out @ xs)"

definition ra_data :: "u64 \<Rightarrow> bytes \<Rightarrow> reassembler \<times> bytes \<Rightarrow> bool" where
  "ra_data c S = (\<lambda>(r, out). reassembler_ok r \<and> ra_capacity r = c \<and> excerpts S (ra_buf r) \<and>
     out @ bs_contents (ra_output r) = take (ra_next r) S \<and> ra_next r \<le> length S \<and>
     covered (ra_buf r) \<subseteq> {..< length S})"

definition ra_run_inv :: "u64 \<Rightarrow> bytes \<Rightarrow> reassembler \<times> bytes \<Rightarrow> bool" where
  "ra_run_inv c S = (\<lambda>(r, out). ra_data c S (r, out) \<and>
     (ra_input_ended r \<longrightarrow> length S \<in> Suc ` covered (ra_buf r) \<or> ra_next r = length S) \<and>
     (bs_input_ended (ra_output r) \<longrightarrow> ra_next r = length S))"

lemma bs_free_le: "bs_free s \<le> unat (bs_cap s)"
  by (simp add: bs_free_def)

lemma ra_limit_le: "reassembler_ok r \<Longrightarrow> ra_limit r \<le> ra_next r + unat (ra_capacity r)"
  using bs_free_le [of "ra_output r"] by (simp add: ra_limit_def ra_next_def reassembler_ok_def)

lemma ra_data_read:
  assumes inv: "ra_data c S (r, out)" and read: "ByteStream_read (ra_output r) n = Inr (xs, s)"
  shows "ra_data c S (r\<lparr>ra_output := s\<rparr>, out @ xs)" "bs_input_ended s = bs_input_ended (ra_output r)"
proof -
  have ok: "reassembler_ok r" using inv by (simp add: ra_data_def)
  then have bok: "byte_stream_ok (ra_output r)" by (simp add: reassembler_ok_def)
  from ByteStream_read_ok [OF bok, of n] read have
    s: "xs = take (unat n) (bs_contents (ra_output r))" "byte_stream_ok s"
      "bs_contents s = drop (unat n) (bs_contents (ra_output r))" "bs_cap s = bs_cap (ra_output r)"
      "bs_input_ended s = bs_input_ended (ra_output r)"
      "bs_total_written_bytes s = bs_total_written_bytes (ra_output r)" by auto
  have "bs_free (ra_output r) \<le> bs_free s" using s(3,4) by (simp add: bs_free_def)
  then have "segs_ok (Suc (ra_next r)) (ra_limit (r\<lparr>ra_output := s\<rparr>)) (ra_buf r)"
    using ok by (auto simp: reassembler_ok_def ra_limit_def intro: segs_ok_mono)
  then have "reassembler_ok (r\<lparr>ra_output := s\<rparr>)"
    using ok s by (simp add: reassembler_ok_def ra_next_def)
  with inv s show "ra_data c S (r\<lparr>ra_output := s\<rparr>, out @ xs)" by (simp add: ra_data_def ra_next_def)
  show "bs_input_ended s = bs_input_ended (ra_output r)" by (rule s(5))
qed

lemma ra_data_push:
  assumes inv: "ra_data c S (r, out)" and bound: "2 * length S + unat c < 18446744073709551616"
    and len: "len = 0 \<or> unat index + len \<le> length S"
  obtains r' where "StreamReassembler_push_substring r (chunk S (unat index) len) index eof = Inr r'"
    "push_effect r (chunk S (unat index) len) index eof r'" "ra_data c S (r', out)"
proof -
  let ?d = "chunk S (unat index) len" and ?L = "length S"
  have ok: "reassembler_ok r" and cap: "ra_capacity r = c" and n: "ra_next r \<le> ?L"
    and out: "out @ bs_contents (ra_output r) = take (ra_next r) S" and ex: "excerpts S (ra_buf r)"
    and cov: "covered (ra_buf r) \<subseteq> {..< ?L}"
    using inv by (simp_all add: ra_data_def)
  have ld: "length ?d = len" using len by (auto simp: length_chunk) (simp add: chunk_def)
  have b: "ra_limit r + length ?d < 18446744073709551616"
    using ra_limit_le [OF ok, unfolded cap] n bound len ld by linarith
  obtain r' where r': "StreamReassembler_push_substring r ?d index eof = Inr r'" "push_effect r ?d index eof r'"
    "\<And>T. excerpts T (ra_buf r) \<Longrightarrow> ?d = chunk T (unat index) (length ?d) \<Longrightarrow> carries T r r'"
    using push_ok [OF ok b, of index eof] by metis
  define V where "V = covered (ra_buf r) \<union> arriving r ?d index"
  have eff: "reassembler_ok r'" "advances r V r'"
    using r'(2) unfolding push_effect_def V_def by blast+
  have car: "carries S r r'" using r'(3) [OF ex] ld by simp
  have V: "V \<subseteq> {..< ?L}" using cov len ld by (auto simp: V_def arriving_def)
  have mono: "ra_next r \<le> ra_next r'" "{ra_next r ..< ra_next r'} \<subseteq> V"
    and cov': "covered (ra_buf r') = V - {..< ra_next r'}" and cap': "ra_capacity r' = c"
    using eff(2) cap by (simp_all add: advances_def)
  have n': "ra_next r' \<le> ?L"
  proof (cases "ra_next r' = ra_next r")
    case False
    with mono have "ra_next r' - 1 \<in> V" by (auto simp: subset_iff)
    with V show ?thesis by auto
  qed (use n in simp)
  have "out @ bs_contents (ra_output r') = take (ra_next r + (ra_next r' - ra_next r)) S"
    using car out take_append_chunk [of "ra_next r" S "ra_next r' - ra_next r"]
    by (simp add: carries_def flip: append_assoc)
  then have "ra_data c S (r', out)"
    using eff(1) cap' car n' V cov' mono(1) by (auto simp: ra_data_def carries_def)
  with r' that show thesis by blast
qed

text \<open>What remains of \<open>V\<close> once the output has advanced holds the last index, or all is written.\<close>

lemma advance_last:
  assumes "ra_next r' \<le> L" "L = Suc m" "m \<in> V" "covered (ra_buf r') = V - {..< ra_next r'}"
  shows "L \<in> Suc ` covered (ra_buf r') \<or> ra_next r' = L"
proof (cases "m < ra_next r'")
  case False
  with assms show ?thesis by auto
qed (use assms in auto)

lemma push_end_reached:
  assumes old: "ra_input_ended r \<Longrightarrow> L \<in> Suc ` covered (ra_buf r) \<or> ra_next r = L"
    and now: "ra_input_ended r \<or> eof \<and> push_closes r d index"
    and eof: "eof \<Longrightarrow> unat index + length d = L \<and> (ra_next r = L \<or> d \<noteq> [] \<and> ra_next r < ra_limit r)"
  shows "ra_next r = L \<or> L \<in> Suc ` (covered (ra_buf r) \<union> arriving r d index)"
proof (cases "ra_input_ended r \<or> ra_next r = L")
  case True
  with old show ?thesis by auto
next
  case False
  with now eof have e: "unat index + length d = L" "d \<noteq> []" "ra_next r < ra_limit r" "push_closes r d index" by auto
  then have "ra_next r < L" "L \<le> ra_limit r" "0 < length d" by (auto simp: push_closes_def)
  then have "unat index \<le> L - 1" "L - 1 < unat index + length d" "ra_next r \<le> L - 1" "L - 1 < ra_limit r"
    using e(1) by linarith+
  then have "L - 1 \<in> arriving r d index" by (simp add: arriving_def)
  then have "L \<in> Suc ` (covered (ra_buf r) \<union> arriving r d index)"
    using \<open>ra_next r < L\<close> by (intro image_eqI [of _ _ "L - 1"]) auto
  then show ?thesis ..
qed

lemma ra_run_inv_push:
  assumes inv: "ra_run_inv c S (r, out)" and bound: "2 * length S + unat c < 18446744073709551616"
    and push: "StreamReassembler_push_substring r (chunk S (unat index) len) index eof = Inr r'"
    and len: "unat index + len \<le> length S"
    and eof: "eof \<Longrightarrow> unat index + len = length S \<and> (ra_next r = length S \<or> 0 < len \<and> ra_next r < ra_limit r)"
  shows "ra_run_inv c S (r', out)"
proof -
  let ?d = "chunk S (unat index) len" and ?L = "length S"
  have data: "ra_data c S (r, out)" using inv by (simp add: ra_run_inv_def)
  have ld: "length ?d = len" by (rule length_chunk [OF len])
  from ra_data_push [OF data bound disjI2 [OF len], of eof] push have
    data': "ra_data c S (r', out)" and effect: "push_effect r ?d index eof r'" by (metis sum.inject(2))+
  define V where "V = covered (ra_buf r) \<union> arriving r ?d index"
  have eff: "advances r V r'" "ra_input_ended r' \<longleftrightarrow> ra_input_ended r \<or> eof \<and> push_closes r ?d index"
    "bs_input_ended (ra_output r') \<longleftrightarrow> bs_input_ended (ra_output r) \<or>
       push_accepted r ?d index \<and> ra_input_ended r' \<and> covered (ra_buf r') = {}"
    using effect unfolding push_effect_def V_def by blast+
  have n': "ra_next r' \<le> ?L" using data' by (simp add: ra_data_def)
  have mono: "ra_next r \<le> ra_next r'" and cov': "covered (ra_buf r') = V - {..< ra_next r'}"
    using eff(1) by (simp_all add: advances_def)
  have ended: "?L \<in> Suc ` covered (ra_buf r') \<or> ra_next r' = ?L" if "ra_input_ended r'"
  proof -
    have "ra_next r = ?L \<or> ?L \<in> Suc ` V"
      unfolding V_def using inv eff(2) that eof ld
      by (intro push_end_reached [where eof = eof]) (auto simp: ra_run_inv_def)
    then show ?thesis using mono n' advance_last [OF n' _ _ cov'] by auto
  qed
  have "ra_next r' = ?L" if "bs_input_ended (ra_output r')"
  proof (cases "bs_input_ended (ra_output r)")
    case True
    with inv have "ra_next r = ?L" by (simp add: ra_run_inv_def)
    with mono n' show ?thesis by simp
  next
    case False
    with that eff(3) ended show ?thesis by auto
  qed
  with data' ended show ?thesis by (simp add: ra_run_inv_def)
qed

lemma ra_run_inv_read:
  assumes "ra_run_inv c S (r, out)" and "ByteStream_read (ra_output r) n = Inr (xs, s)"
  shows "ra_run_inv c S (r\<lparr>ra_output := s\<rparr>, out @ xs)"
proof -
  have "ra_data c S (r, out)" using assms(1) by (simp add: ra_run_inv_def)
  from ra_data_read [OF this assms(2)] assms(1) show ?thesis by (simp add: ra_run_inv_def ra_next_def)
qed

lemmas ra_run_simps = ra_run_inv_def ra_data_def

definition ra_init :: "u64 \<Rightarrow> bytes \<Rightarrow> reassembler \<times> bytes \<Rightarrow> bool" where
  "ra_init c S = (\<lambda>s. s = (StreamReassembler_new c, []) \<and> 2 * length S + unat c < 18446744073709551616)"

interpretation ra: invariant_system "ra_init c S" "ra_step S"
  "\<lambda>s. 2 * length S + unat c < 18446744073709551616 \<and> ra_run_inv c S s" for c S
proof
  fix s assume "ra_init c S s"
  then show "2 * length S + unat c < 18446744073709551616 \<and> ra_run_inv c S s"
    by (simp add: ra_init_def ra_run_simps)
next
  fix s t assume "2 * length S + unat c < 18446744073709551616 \<and> ra_run_inv c S s" and "ra_step S s t"
  then show "2 * length S + unat c < 18446744073709551616 \<and> ra_run_inv c S t"
    by (auto elim!: ra_step.cases intro: ra_run_inv_push ra_run_inv_read)
qed


lemma ra_demo_push1:
  "StreamReassembler_push_substring (StreamReassembler_new 4) [2, 3] 1 True =
     Inr ((StreamReassembler_new 4)\<lparr>ra_buf := [(1, [2, 3])], ra_unassembled_bytes := 2, ra_input_ended := True\<rparr>)"
  by code_simp

lemma ra_demo_push2:
  "\<exists>r. StreamReassembler_push_substring ((StreamReassembler_new 4)\<lparr>ra_buf := [(1, [2, 3])],
       ra_unassembled_bytes := 2, ra_input_ended := True\<rparr>) [1] 0 False = Inr r \<and>
     bs_input_ended (ra_output r) \<and> ra_expected_index r = 3"
proof -
  have "case StreamReassembler_push_substring ((StreamReassembler_new 4)\<lparr>ra_buf := [(1, [2, 3])],
       ra_unassembled_bytes := 2, ra_input_ended := True\<rparr>) [1] 0 False of Inl _ \<Rightarrow> False
     | Inr r \<Rightarrow> bs_input_ended (ra_output r) \<and> ra_expected_index r = 3"
    by code_simp
  then show ?thesis by (auto split: sum.splits)
qed


subsection \<open>Complete delivery\<close>

text \<open>The pieces of \<open>S\<close> given by their first index and length are pushed in the order of the list.\<close>

fun ra_pushes :: "bytes \<Rightarrow> reassembler \<Rightarrow> (nat \<times> nat) list \<Rightarrow> reassembler res" where
  "ra_pushes S r [] = Inr r"
| "ra_pushes S r ((i, len) # ps) =
     rbind (StreamReassembler_push_substring r (chunk S i len) (of_nat i) (i + len = length S)) (\<lambda>r'.
     ra_pushes S r' ps)"

definition pieces :: "(nat \<times> nat) list \<Rightarrow> nat set" where
  "pieces ps = (\<Union>(i, len) \<in> set ps. {i ..< i + len})"

definition ra_pushed :: "u64 \<Rightarrow> bytes \<Rightarrow> nat set \<Rightarrow> reassembler \<Rightarrow> bool" where
  "ra_pushed c S P r \<longleftrightarrow> ra_run_inv c S (r, []) \<and> ra_limit r = unat c \<and>
     {..< ra_next r} \<union> covered (ra_buf r) = P \<and>
     (length S \<in> Suc ` P \<longrightarrow> ra_input_ended r) \<and>
     (ra_input_ended r \<and> covered (ra_buf r) = {} \<longrightarrow> bs_input_ended (ra_output r))"

lemma advances_union:
  assumes "advances r V r'"
  shows "{..< ra_next r'} \<union> covered (ra_buf r') = {..< ra_next r} \<union> V"
proof -
  have "{..< ra_next r'} = {..< ra_next r} \<union> {ra_next r ..< ra_next r'}"
    using assms by (auto simp: advances_def)
  with assms show ?thesis by (auto simp: advances_def)
qed

lemma push_ended_empty:
  assumes ok: "reassembler_ok r" and eff: "push_effect r d index eof r'"
    and old: "ra_input_ended r \<Longrightarrow> covered (ra_buf r) = {} \<Longrightarrow> bs_input_ended (ra_output r)"
    and ended: "ra_input_ended r'" "covered (ra_buf r') = {}"
  shows "bs_input_ended (ra_output r')"
proof (cases "push_accepted r d index")
  case True
  with eff ended show ?thesis by (simp add: push_effect_def)
next
  case False
  then have "0 < length d" "ra_limit r \<le> unat index \<or> unat index + length d \<le> ra_next r"
    "\<not> (ra_limit r = ra_next r \<or> d = [])" by (auto simp: push_accepted_def)
  then have "\<not> push_closes r d index" "arriving r d index = {}"
    unfolding push_closes_def arriving_def by (linarith, auto)
  with eff ended have adv: "advances r (covered (ra_buf r)) r'" and "ra_input_ended r"
    by (auto simp: push_effect_def)
  moreover have "covered (ra_buf r) = {}"
  proof -
    have gap: "ra_next r \<notin> covered (ra_buf r)"
      using advances_refl [OF ok] by (simp add: advances_def)
    have "ra_next r' = ra_next r"
    proof (rule ccontr)
      assume "ra_next r' \<noteq> ra_next r"
      with adv have "ra_next r \<in> covered (ra_buf r)" by (auto simp: advances_def)
      with gap show False ..
    qed
    then have "covered (ra_buf r') = covered (ra_buf r)"
      using adv advances_refl [OF ok] by (simp add: advances_def)
    with ended show ?thesis by simp
  qed
  ultimately show ?thesis using old eff by (auto simp: push_effect_def)
qed

lemma ra_pushed_step:
  assumes inv: "ra_pushed c S P r" and bound: "2 * length S + unat c < 18446744073709551616"
    and fits: "length S \<le> unat c" and len: "0 < len" "i + len \<le> length S"
  obtains r' where
    "StreamReassembler_push_substring r (chunk S i len) (of_nat i) (i + len = length S) = Inr r'"
    "ra_pushed c S (P \<union> {i ..< i + len}) r'"
proof -
  let ?d = "chunk S i len" and ?e = "i + len = length S" and ?L = "length S"
  have run: "ra_run_inv c S (r, [])" and lim: "ra_limit r = unat c"
    and P: "{..< ra_next r} \<union> covered (ra_buf r) = P" and last: "?L \<in> Suc ` P \<Longrightarrow> ra_input_ended r"
    and fin: "ra_input_ended r \<Longrightarrow> covered (ra_buf r) = {} \<Longrightarrow> bs_input_ended (ra_output r)"
    using inv by (auto simp: ra_pushed_def)
  then have ok: "reassembler_ok r" and n: "ra_next r \<le> ?L" by (simp_all add: ra_run_simps)
  have i: "unat (of_nat i :: u64) = i" using len bound by (simp add: unat_of_nat)
  have ld: "length ?d = len" by (rule length_chunk [OF len(2)])
  have b: "ra_limit r + length ?d < 18446744073709551616" using lim len ld bound by linarith
  obtain r' where r': "StreamReassembler_push_substring r ?d (of_nat i) ?e = Inr r'"
    "push_effect r ?d (of_nat i) ?e r'" using push_ok [OF ok b] by metis
  have "ra_next r = ?L \<or> 0 < len \<and> ra_next r < ra_limit r" using lim fits n len by linarith
  then have run': "ra_run_inv c S (r', [])"
    using ra_run_inv_push [OF run bound, of "of_nat i" len ?e r'] r'(1) i len by simp
  have arr: "arriving r ?d (of_nat i) = {i ..< i + len} \<inter> {ra_next r ..}"
    using len fits by (auto simp: arriving_def i ld lim)
  have eff: "advances r (covered (ra_buf r) \<union> arriving r ?d (of_nat i)) r'"
    "ra_input_ended r' \<longleftrightarrow> ra_input_ended r \<or> ?e \<and> push_closes r ?d (of_nat i)"
    "bs_input_ended (ra_output r') \<longleftrightarrow> bs_input_ended (ra_output r) \<or>
       push_accepted r ?d (of_nat i) \<and> ra_input_ended r' \<and> covered (ra_buf r') = {}"
    using r'(2) by (simp_all add: push_effect_def)
  have P': "{..< ra_next r'} \<union> covered (ra_buf r') = P \<union> {i ..< i + len}"
  proof -
    have "{..< ra_next r'} \<union> covered (ra_buf r') =
        {..< ra_next r} \<union> (covered (ra_buf r) \<union> {i ..< i + len} \<inter> {ra_next r ..})"
      using advances_union [OF eff(1)] by (simp only: arr)
    also have "\<dots> = ({..< ra_next r} \<union> covered (ra_buf r)) \<union> {i ..< i + len}" by auto
    finally show ?thesis by (simp only: P)
  qed
  have last': "ra_input_ended r'" if "?L \<in> Suc ` (P \<union> {i ..< i + len})"
  proof (cases "?L \<in> Suc ` P")
    case False
    with that len have e: "?e" by auto
    have "ra_next r < ?L"
    proof (rule ccontr)
      assume "\<not> ra_next r < ?L"
      with len have "?L - 1 \<in> P" "?L = Suc (?L - 1)" by (auto simp flip: P)
      with False show False by blast
    qed
    with e lim fits len eff(2) show ?thesis by (simp add: push_closes_def i ld)
  qed (use last eff(2) in simp)
  have "ra_limit r' = unat c" using eff(1) lim by (simp add: advances_def)
  then show thesis
    using run' P' last' push_ended_empty [OF ok r'(2) fin]
    by (intro that [OF r'(1)]) (simp add: ra_pushed_def)
qed

lemma ra_pushes_ok:
  assumes "ra_pushed c S P r" and "2 * length S + unat c < 18446744073709551616" and "length S \<le> unat c"
    and "\<forall>(i, len) \<in> set ps. 0 < len \<and> i + len \<le> length S"
  shows "\<exists>r'. ra_pushes S r ps = Inr r' \<and> ra_pushed c S (P \<union> pieces ps) r'"
  using assms(1,4)
proof (induction ps arbitrary: r P)
  case (Cons p ps)
  obtain i len where p: "p = (i, len)" by (cases p)
  with Cons.prems(2) have "0 < len" "i + len \<le> length S" by auto
  from ra_pushed_step [OF Cons.prems(1) assms(2,3) this] obtain r1 where
    r1: "StreamReassembler_push_substring r (chunk S i len) (of_nat i) (i + len = length S) = Inr r1"
      "ra_pushed c S (P \<union> {i ..< i + len}) r1" by metis
  have "P \<union> {i ..< i + len} \<union> pieces ps = P \<union> pieces (p # ps)" by (auto simp: pieces_def p)
  with Cons.IH [OF r1(2)] Cons.prems(2) r1(1) show ?case by (simp add: p)
qed (simp add: pieces_def)

text \<open>
  C4. Nothing that fits is lost. In a reassembler with room for all of \<open>S\<close>, once the pieces
  pushed cover \<open>S\<close>, in whatever order and however they overlap, the output holds \<open>S\<close>, is
  marked as ended, and no byte is left unassembled.
\<close>

theorem reassembler_complete:
  assumes "2 * length S + unat c < 18446744073709551616" and "length S \<le> unat c" and "S \<noteq> []"
    and "\<forall>(i, len) \<in> set ps. 0 < len \<and> i + len \<le> length S" and "{..< length S} \<subseteq> pieces ps"
  shows "\<exists>r. ra_pushes S (StreamReassembler_new c) ps = Inr r \<and> bs_contents (ra_output r) = S \<and>
     bs_input_ended (ra_output r) \<and> ra_unassembled_bytes r = 0"
proof -
  have "ra_pushed c S {} (StreamReassembler_new c)"
    by (simp add: ra_pushed_def ra_run_simps)
  from ra_pushes_ok [OF this assms(1,2,4)] obtain r where
    r: "ra_pushes S (StreamReassembler_new c) ps = Inr r" "ra_pushed c S (pieces ps) r" by auto
  then have run: "ra_run_inv c S (r, [])" and P: "{..< ra_next r} \<union> covered (ra_buf r) = pieces ps"
    by (simp_all add: ra_pushed_def)
  then have ok: "reassembler_ok r" and n: "ra_next r \<le> length S"
    and cov: "covered (ra_buf r) \<subseteq> {..< length S}" by (simp_all add: ra_run_simps)
  have "ra_next r = length S"
  proof (rule ccontr)
    assume "ra_next r \<noteq> length S"
    with n assms(5) have "ra_next r \<in> {..< ra_next r} \<union> covered (ra_buf r)" unfolding P by auto
    then show False using advances_refl [OF ok] by (simp add: advances_def)
  qed
  moreover from this have none: "covered (ra_buf r) = {}"
    using cov advances_refl [OF ok] by (auto simp: advances_def)
  moreover have "length S \<in> Suc ` pieces ps"
    using assms(3,5) by (intro image_eqI [of _ _ "length S - 1"]) auto
  then have "bs_input_ended (ra_output r)" using r(2) none by (simp add: ra_pushed_def)
  ultimately show ?thesis
    using r(1) run unassembled_bytes_card [OF ok] by (auto simp: ra_run_simps unat_eq_iff)
qed

theorem reassembler_complete_witness:
  "\<exists>r. ra_pushes [1, 2, 3, 4] (StreamReassembler_new 4) [(2, 2), (1, 2), (0, 1)] = Inr r \<and>
     bs_contents (ra_output r) = [1, 2, 3, 4] \<and> bs_input_ended (ra_output r) \<and> ra_unassembled_bytes r = 0"
proof -
  have "{..< length [1 :: u8, 2, 3, 4]} \<subseteq> pieces [(2, 2), (1, 2), (0, 1)]"
    by (auto simp: pieces_def)
  then show ?thesis by (intro reassembler_complete) simp_all
qed

text \<open>
  A finding about the end of the stream. \<^verbatim>\<open>validate\<close> lets the end-of-file flag through for an
  empty substring at any index. The reassembler that has nothing pending then ends its
  output at once, whatever lies before that index, and what arrives for those indices
  afterwards is written to a stream that has already ended.
\<close>

theorem empty_eof_ends_early:
  assumes "reassembler_ok r" and "covered (ra_buf r) = {}" and "ra_limit r < 18446744073709551616"
  shows "\<exists>r'. StreamReassembler_push_substring r [] index True = Inr r' \<and> bs_input_ended (ra_output r') \<and>
     ra_expected_index r' = ra_expected_index r"
proof -
  have "ra_limit r + length [] < 18446744073709551616" using assms(3) by simp
  from push_ok [OF assms(1) this, of index True] obtain r' where
    r': "StreamReassembler_push_substring r [] index True = Inr r'" "push_effect r [] index True r'" by metis
  then have adv: "advances r {} r'" and "ra_input_ended r'" and "covered (ra_buf r') = {}"
    using assms(2) by (auto simp: push_effect_def push_closes_def arriving_def advances_def)
  then have "bs_input_ended (ra_output r')" "ra_next r' = ra_next r"
    using r'(2) by (auto simp: push_effect_def push_accepted_def advances_def)
  with r'(1) show ?thesis by (auto simp: ra_next_def unat_eq_iff)
qed

theorem empty_eof_ends_early_witness:
  "\<exists>r'. StreamReassembler_push_substring (StreamReassembler_new 8) [] 5 True = Inr r' \<and>
     bs_input_ended (ra_output r') \<and> ra_expected_index r' = ra_expected_index (StreamReassembler_new 8)"
  by (rule empty_eof_ends_early) simp_all

end
