(* ===== verification/Net_Parser.thy ===== *)
theory Net_Parser
  imports Buffers
begin

text \<open>
  \<^verbatim>\<open>libsponge/util/parser.hh\<close> and \<^verbatim>\<open>parser.cc\<close>: \<^verbatim>\<open>NetParser\<close> reads integers in network byte order
  from a buffer and remembers the first shortage as an error; \<^verbatim>\<open>NetUnparser\<close> appends them to a
  string. The two templates \<^verbatim>\<open>_parse_int\<close> and \<^verbatim>\<open>_unparse_int\<close> are polymorphic in the width of the
  word, and the locale \<open>net_codec\<close> is the contract between them.
\<close>

subsection \<open>Operations\<close>

datatype ParseResult = NoError | BadChecksum | PacketTooShort | WrongIPVersion | HeaderTooShort | TruncatedPacket | Unsupported

text \<open>The table of names has six entries and is indexed by the seven values.\<close>

definition as_string :: "ParseResult \<Rightarrow> string res" where
  "as_string r =
     (let names = [''NoError'', ''BadChecksum'', ''PacketTooShort'', ''WrongIPVersion'', ''HeaderTooShort'', ''TruncatedPacket''];
          i = (case r of NoError \<Rightarrow> 0 | BadChecksum \<Rightarrow> 1 | PacketTooShort \<Rightarrow> 2 | WrongIPVersion \<Rightarrow> 3
                 | HeaderTooShort \<Rightarrow> 4 | TruncatedPacket \<Rightarrow> 5 | Unsupported \<Rightarrow> 6)
      in if i < length names then Inr (names ! i) else Inl (Undefined_behaviour ''as_string: _names''))"

record netparser =
  np_buffer :: buffer
  np_error :: ParseResult

definition NetParser_new :: "buffer \<Rightarrow> netparser" where
  "NetParser_new b = \<lparr>np_buffer = b, np_error = NoError\<rparr>"

definition NetParser_set_error :: "ParseResult \<Rightarrow> netparser \<Rightarrow> netparser" where
  "NetParser_set_error res p = p\<lparr>np_error := res\<rparr>"

definition NetParser_check_size :: "u64 \<Rightarrow> netparser \<Rightarrow> netparser" where
  "NetParser_check_size n p =
     (if Buffer_size (np_buffer p) < n then NetParser_set_error PacketTooShort p else p)"

fun parse_int_loop :: "buffer \<Rightarrow> nat list \<Rightarrow> 'a::len word \<Rightarrow> 'a word res" where
  "parse_int_loop b [] ret = Inr ret"
| "parse_int_loop b (i # is) ret =
     rbind (Buffer_at b (of_nat i)) (\<lambda>x. parse_int_loop b is (push_bit 8 ret + ucast x))"

definition NetParser_parse_int :: "netparser \<Rightarrow> ('a::len word \<times> netparser) res" where
  "NetParser_parse_int p =
     (let n = LENGTH('a) div 8; p = NetParser_check_size (of_nat n) p in
      if np_error p \<noteq> NoError then Inr (0, p)
      else rbind (parse_int_loop (np_buffer p) [0 ..< n] 0) (\<lambda>ret.
           rbind (Buffer_remove_prefix (np_buffer p) (of_nat n)) (\<lambda>b. Inr (ret, p\<lparr>np_buffer := b\<rparr>))))"

definition NetParser_u32 :: "netparser \<Rightarrow> (u32 \<times> netparser) res" where
  "NetParser_u32 p = NetParser_parse_int p"

definition NetParser_u16 :: "netparser \<Rightarrow> (u16 \<times> netparser) res" where
  "NetParser_u16 p = NetParser_parse_int p"

definition NetParser_u8 :: "netparser \<Rightarrow> (u8 \<times> netparser) res" where
  "NetParser_u8 p = NetParser_parse_int p"

definition NetParser_remove_prefix :: "u64 \<Rightarrow> netparser \<Rightarrow> netparser res" where
  "NetParser_remove_prefix n p =
     (let p = NetParser_check_size n p in
      if np_error p \<noteq> NoError then Inr p
      else rbind (Buffer_remove_prefix (np_buffer p) n) (\<lambda>b. Inr (p\<lparr>np_buffer := b\<rparr>)))"

definition NetUnparser_unparse_int :: "'a::len word \<Rightarrow> bytes" where
  "NetUnparser_unparse_int val =
     (let n = LENGTH('a) div 8 in
      map (\<lambda>i. ucast (drop_bit ((n - i - 1) * 8) val AND 0xff)) [0 ..< n])"

definition NetUnparser_u32 :: "bytes \<Rightarrow> u32 \<Rightarrow> bytes" where
  "NetUnparser_u32 s val = s @ NetUnparser_unparse_int val"

definition NetUnparser_u16 :: "bytes \<Rightarrow> u16 \<Rightarrow> bytes" where
  "NetUnparser_u16 s val = s @ NetUnparser_unparse_int val"

definition NetUnparser_u8 :: "bytes \<Rightarrow> u8 \<Rightarrow> bytes" where
  "NetUnparser_u8 s val = s @ NetUnparser_unparse_int val"

subsection \<open>Network byte order\<close>

definition be_bytes :: "nat \<Rightarrow> 'a::len word \<Rightarrow> bytes" where
  "be_bytes k w = map (\<lambda>i. ucast (drop_bit ((k - i - 1) * 8) w)) [0 ..< k]"

definition be_word :: "bytes \<Rightarrow> 'a::len word \<Rightarrow> 'a word" where
  "be_word xs r = fold (\<lambda>x r. push_bit 8 r + ucast x) xs r"

lemma ucast_and_ff: "(ucast (w AND 0xff) :: u8) = ucast (w :: 'a::len word)"
proof -
  have ff: "(0xff :: 'a word) = mask 8" by (simp add: mask_eq_exp_minus_1)
  show ?thesis unfolding ff by (rule bit_word_eqI) (auto simp: bit_simps dest: bit_imp_le_length)
qed

lemma unparse_int_eq: "NetUnparser_unparse_int w = be_bytes (LENGTH('a) div 8) (w :: 'a::len word)"
  by (simp add: NetUnparser_unparse_int_def be_bytes_def Let_def ucast_and_ff)

lemma length_be_bytes [simp]: "length (be_bytes k w) = k"
  by (simp add: be_bytes_def)

lemma be_bytes_Suc: "be_bytes (Suc k) w = ucast (drop_bit (8 * k) w) # be_bytes k w"
proof -
  have "[0 ..< Suc k] = 0 # map Suc [0 ..< k]"
    by (simp add: map_Suc_upt upt_conv_Cons del: upt_Suc)
  then show ?thesis by (simp add: be_bytes_def mult.commute del: upt_Suc)
qed

lemma take_bit_split:
  "push_bit m (take_bit n (drop_bit m w)) + take_bit m w = take_bit (m + n) (w :: 'a::len word)"
proof -
  have "push_bit m (take_bit n (drop_bit m w)) + take_bit m w =
      push_bit m (take_bit n (drop_bit m w)) OR take_bit m w"
    by (rule disjunctive_add) (auto simp: bit_simps)
  also have "\<dots> = take_bit (m + n) w"
    by (rule bit_word_eqI) (auto simp: bit_simps)
  finally show ?thesis .
qed

lemma be_word_bytes: "be_word (be_bytes k w) r = push_bit (8 * k) r + take_bit (8 * k) w"
proof (induction k arbitrary: r)
  case (Suc k)
  have "(ucast (ucast (drop_bit (8 * k) w) :: u8) :: 'a word) = take_bit 8 (drop_bit (8 * k) w)"
    by (rule bit_word_eqI) (auto simp: bit_simps)
  then have "be_word (be_bytes (Suc k) w) r =
      push_bit (8 * k) (push_bit 8 r + take_bit 8 (drop_bit (8 * k) w)) + take_bit (8 * k) w"
    using Suc by (simp add: be_bytes_Suc be_word_def)
  also have "\<dots> = push_bit (8 * k + 8) r + take_bit (8 * k + 8) w"
    by (simp add: push_bit_add add.assoc take_bit_split)
  finally show ?case by (simp add: add.commute)
qed (simp add: be_bytes_def be_word_def)

subsection \<open>The parser on a string\<close>

definition np_ok :: "netparser \<Rightarrow> bool" where
  "np_ok p \<longleftrightarrow> buffer_ok (np_buffer p)"

definition np_str :: "netparser \<Rightarrow> bytes" where
  "np_str p = Buffer_str (np_buffer p)"

text \<open>No error so far, and \<open>s\<close> is left to parse.\<close>

definition np_at :: "netparser \<Rightarrow> bytes \<Rightarrow> bool" where
  "np_at p s \<longleftrightarrow> np_ok p \<and> np_error p = NoError \<and> np_str p = s"

lemma np_at_new: "buffer_ok b \<Longrightarrow> np_at (NetParser_new b) (Buffer_str b)"
  by (simp add: np_at_def np_ok_def np_str_def NetParser_new_def)

lemma np_at_length: "np_at p s \<Longrightarrow> str_ok s"
  by (auto simp: np_at_def np_ok_def np_str_def str_ok_Buffer_str)

lemma parse_int_loop_eq:
  assumes "buffer_ok b" and "\<forall>i \<in> set is. i < length (Buffer_str b)"
  shows "parse_int_loop b is r = Inr (be_word (map ((!) (Buffer_str b)) is) r)"
  using assms(2)
proof (induction "is" arbitrary: r)
  case (Cons i "is")
  then have i: "i < length (Buffer_str b)" by simp
  then have "unat (of_nat i :: u64) = i"
    using str_ok_Buffer_str [OF assms(1)] by (simp add: unat_of_nat)
  then have "Buffer_at b (of_nat i) = Inr (Buffer_str b ! i)"
    using i str_ok_Buffer_str [OF assms(1)] by (simp add: Buffer_at_def word_less_nat_alt)
  with Cons show ?case by (simp add: be_word_def)
qed (simp add: be_word_def)

lemma check_size_at:
  assumes "np_ok p" and "n < 18446744073709551616"
  shows "NetParser_check_size (of_nat n) p =
     (if length (np_str p) < n then NetParser_set_error PacketTooShort p else p)"
proof -
  have "unat (of_nat n :: u64) = n" using assms(2) by (simp add: unat_of_nat)
  then show ?thesis
    using assms str_ok_Buffer_str [of "np_buffer p"]
    by (simp add: NetParser_check_size_def Buffer_size_def np_str_def np_ok_def word_less_nat_alt)
qed

lemma parse_int_enough:
  fixes p :: netparser
  assumes at: "np_at p s" and n: "LENGTH('a) div 8 \<le> length s"
  obtains p' where
    "NetParser_parse_int p = Inr (be_word (take (LENGTH('a) div 8) s) 0 :: 'a::len word, p')"
    "np_at p' (drop (LENGTH('a) div 8) s)"
proof -
  let ?n = "LENGTH('a) div 8"
  have ok: "np_ok p" and err: "np_error p = NoError" and str: "np_str p = s"
    using at by (simp_all add: np_at_def)
  have small: "?n < 18446744073709551616" using n np_at_length [OF at] by linarith
  then have un: "unat (of_nat ?n :: u64) = ?n" by (simp add: unat_of_nat)
  have chk: "NetParser_check_size (of_nat ?n) p = p"
    using check_size_at [OF ok small] n str by simp
  have bok: "buffer_ok (np_buffer p)" and bs: "Buffer_str (np_buffer p) = s"
    using ok str by (simp_all add: np_ok_def np_str_def)
  have "map ((!) s) [0 ..< ?n] = take ?n s" using n by (intro nth_equalityI) simp_all
  then have loop: "parse_int_loop (np_buffer p) [0 ..< ?n] 0 = Inr (be_word (take ?n s) 0 :: 'a word)"
    using parse_int_loop_eq [OF bok, of "[0 ..< ?n]" 0] n bs by simp
  obtain b where b: "Buffer_remove_prefix (np_buffer p) (of_nat ?n) = Inr b" "buffer_ok b"
    "Buffer_str b = drop ?n s"
    using Buffer_remove_prefix_ok [OF bok, of "of_nat ?n"] n un bs by auto
  show thesis
  proof (rule that [of "p\<lparr>np_buffer := b\<rparr>"])
    show "NetParser_parse_int p = Inr (be_word (take ?n s) 0 :: 'a word, p\<lparr>np_buffer := b\<rparr>)"
      using chk err loop b(1) by (simp add: NetParser_parse_int_def Let_def)
    show "np_at (p\<lparr>np_buffer := b\<rparr>) (drop ?n s)"
      using b err by (simp add: np_at_def np_ok_def np_str_def)
  qed
qed

lemma parse_int_short:
  assumes "np_ok p" and "length (np_str p) < LENGTH('a) div 8" and "LENGTH('a) < 18446744073709551616"
  shows "NetParser_parse_int p = Inr (0 :: 'a::len word, NetParser_set_error PacketTooShort p)"
proof -
  have "LENGTH('a) div 8 < 18446744073709551616" using assms(3) by linarith
  then show ?thesis
    using check_size_at [OF assms(1), of "LENGTH('a) div 8"] assms(2)
    by (simp add: NetParser_parse_int_def Let_def NetParser_set_error_def)
qed

lemma parse_int_stuck:
  assumes "np_error p \<noteq> NoError"
  obtains e where "NetParser_parse_int p = Inr (0 :: 'a::len word, p\<lparr>np_error := e\<rparr>)" "e \<noteq> NoError"
proof (cases "Buffer_size (np_buffer p) < of_nat (LENGTH('a) div 8)")
  case True
  then show thesis
    by (intro that [of PacketTooShort])
      (simp_all add: NetParser_parse_int_def Let_def NetParser_check_size_def NetParser_set_error_def)
next
  case False
  then show thesis
    using assms by (intro that [of "np_error p"])
      (simp_all add: NetParser_parse_int_def Let_def NetParser_check_size_def)
qed

lemma remove_prefix_at:
  assumes at: "np_at p s" and n: "unat n \<le> length s"
  obtains p' where "NetParser_remove_prefix n p = Inr p'" "np_at p' (drop (unat n) s)"
proof -
  have ok: "np_ok p" and bok: "buffer_ok (np_buffer p)" and bs: "Buffer_str (np_buffer p) = s"
    and err: "np_error p = NoError"
    using at by (simp_all add: np_at_def np_ok_def np_str_def)
  have chk: "NetParser_check_size n p = p"
    using check_size_at [OF ok, of "unat n"] at n by (simp add: np_at_def)
  obtain b where "Buffer_remove_prefix (np_buffer p) n = Inr b" "buffer_ok b" "Buffer_str b = drop (unat n) s"
    using Buffer_remove_prefix_ok [OF bok, of n] n bs by auto
  with chk err show thesis
    by (intro that [of "p\<lparr>np_buffer := b\<rparr>"])
      (simp_all add: NetParser_remove_prefix_def Let_def np_at_def np_ok_def np_str_def)
qed

lemma remove_prefix_short:
  "np_ok p \<Longrightarrow> length (np_str p) < unat n \<Longrightarrow> NetParser_remove_prefix n p = Inr (NetParser_set_error PacketTooShort p)"
  using check_size_at [of p "unat n"] by (simp add: NetParser_remove_prefix_def Let_def NetParser_set_error_def)

lemma remove_prefix_total:
  assumes "np_ok p"
  obtains p' where "NetParser_remove_prefix n p = Inr p'" "np_ok p'" "np_error p \<noteq> NoError \<Longrightarrow> np_error p' \<noteq> NoError"
proof (cases "np_error p = NoError \<and> unat n \<le> length (np_str p)")
  case True
  then have "np_at p (np_str p)" "unat n \<le> length (np_str p)" using assms by (simp_all add: np_at_def)
  from remove_prefix_at [OF this] True that show thesis by (metis np_at_def)
next
  case False
  show thesis
  proof (cases "length (np_str p) < unat n")
    case True
    from assms show thesis
      by (intro that [OF remove_prefix_short [OF assms True]]) (simp_all add: np_ok_def NetParser_set_error_def)
  next
    case n: False
    have chk: "NetParser_check_size n p = p"
      using check_size_at [OF assms, of "unat n"] n by simp
    with False n assms show thesis
      by (intro that [of p]) (simp_all add: NetParser_remove_prefix_def Let_def)
  qed
qed

subsection \<open>The contract of a field\<close>

text \<open>
  A field of fixed width \<open>k\<close>: parsing what was unparsed gives it back and leaves the rest; a
  shortage is recorded as an error, which stays; no call throws.
\<close>

locale net_codec =
  fixes enc :: "'a \<Rightarrow> bytes"
    and dec :: "netparser \<Rightarrow> ('a \<times> netparser) res"
    and k :: nat
  assumes enc_length: "length (enc w) = k"
    and dec_enc: "np_at p (enc w @ s) \<Longrightarrow> \<exists>p'. dec p = Inr (w, p') \<and> np_at p' s"
    and dec_short: "np_ok p \<Longrightarrow> length (np_str p) < k \<Longrightarrow>
          \<exists>w. dec p = Inr (w, NetParser_set_error PacketTooShort p)"
    and dec_total: "np_ok p \<Longrightarrow> \<exists>w p'. dec p = Inr (w, p') \<and> np_ok p' \<and>
          (np_error p \<noteq> NoError \<longrightarrow> np_error p' \<noteq> NoError)"
begin

lemma dec_run:
  assumes "np_at p (enc w @ s)" and "\<And>p'. np_at p' s \<Longrightarrow> P (f (w, p'))"
  shows "P (rbind (dec p) f)"
  using dec_enc [OF assms(1)] assms(2) by fastforce

lemma dec_run_total:
  assumes "np_ok p" and "\<And>w p'. np_ok p' \<Longrightarrow> P (f (w, p'))"
  shows "P (rbind (dec p) f)"
  using dec_total [OF assms(1)] assms(2) by fastforce

lemma enc_append_inject:
  assumes "enc w @ s = enc w' @ s'" and "str_ok (enc w @ s)"
  shows "w = w' \<and> s = s'"
proof -
  let ?p = "NetParser_new (Buffer_of (enc w @ s))"
  have at: "np_at ?p (enc w @ s)" using np_at_new [of "Buffer_of (enc w @ s)"] assms(2) by simp
  then have at': "np_at ?p (enc w' @ s')" using assms(1) by simp
  show ?thesis using dec_enc [OF at] dec_enc [OF at'] by (auto simp: np_at_def)
qed

end

subsection \<open>The three widths\<close>

lemma parse_int_codec:
  assumes bytes: "8 * (LENGTH('a) div 8) = LENGTH('a)" and small: "LENGTH('a) < 18446744073709551616"
  shows "net_codec NetUnparser_unparse_int (NetParser_parse_int :: netparser \<Rightarrow> ('a::len word \<times> netparser) res)
     (LENGTH('a) div 8)"
proof
  let ?n = "LENGTH('a) div 8"
  fix w :: "'a word" and p s
  show "length (NetUnparser_unparse_int w) = ?n" by (simp add: unparse_int_eq)
  assume at: "np_at p (NetUnparser_unparse_int w @ s)"
  have "be_word (be_bytes ?n w) 0 = w" using bytes by (simp add: be_word_bytes)
  with parse_int_enough [where 'a = 'a, OF at] show "\<exists>p'. NetParser_parse_int p = Inr (w, p') \<and> np_at p' s"
    by (auto simp: unparse_int_eq)
next
  fix p :: netparser assume "np_ok p" and "length (np_str p) < LENGTH('a) div 8"
  from parse_int_short [OF this small]
  show "\<exists>w :: 'a word. NetParser_parse_int p = Inr (w, NetParser_set_error PacketTooShort p)" by blast
next
  fix p :: netparser assume ok: "np_ok p"
  consider "np_error p = NoError" "LENGTH('a) div 8 \<le> length (np_str p)"
    | "length (np_str p) < LENGTH('a) div 8" | "np_error p \<noteq> NoError" by linarith
  then show "\<exists>(w :: 'a word) p'. NetParser_parse_int p = Inr (w, p') \<and> np_ok p' \<and>
      (np_error p \<noteq> NoError \<longrightarrow> np_error p' \<noteq> NoError)"
  proof cases
    case 1
    with ok have "np_at p (np_str p)" by (simp add: np_at_def)
    from parse_int_enough [where 'a = 'a, OF this 1(2)] 1(1) show ?thesis by (metis np_at_def)
  next
    case 2
    from parse_int_short [OF ok 2 small] ok show ?thesis by (auto simp: np_ok_def NetParser_set_error_def)
  next
    case 3
    from parse_int_stuck [where 'a = 'a, OF 3] ok show ?thesis
      by (metis np_ok_def netparser.select_convs netparser.surjective netparser.update_convs(2))
  qed
qed

interpretation n32: net_codec NetUnparser_unparse_int NetParser_u32 4
  using parse_int_codec [where 'a = 32] by (simp add: NetParser_u32_def [abs_def])

interpretation n16: net_codec NetUnparser_unparse_int NetParser_u16 2
  using parse_int_codec [where 'a = 16] by (simp add: NetParser_u16_def [abs_def])

interpretation n8: net_codec NetUnparser_unparse_int NetParser_u8 1
  using parse_int_codec [where 'a = 8] by (simp add: NetParser_u8_def [abs_def])

lemmas unparse_append = NetUnparser_u32_def NetUnparser_u16_def NetUnparser_u8_def

end
