(* ===== verification/Internet_Checksum.thy ===== *)
theory Internet_Checksum
  imports Net_Parser
begin

text \<open>
  \<^verbatim>\<open>InternetChecksum\<close> of \<^verbatim>\<open>libsponge/util/util.hh\<close> and \<^verbatim>\<open>util.cc\<close>: a 32-bit sum of the 16-bit words of
  the data, added byte by byte with a parity bit, and the end-around fold of \<^verbatim>\<open>value\<close>. The sum
  is read as a natural number modulo 65535; the checksum that \<^verbatim>\<open>value\<close> returns makes the data
  it is put in verify, and is the one's complement sum of RFC 1071.
\<close>

subsection \<open>Operations\<close>

record checksum =
  ck_sum :: u32
  ck_parity :: bool

definition InternetChecksum_new :: "u32 \<Rightarrow> checksum" where
  "InternetChecksum_new initial_sum = \<lparr>ck_sum = initial_sum, ck_parity = False\<rparr>"

definition InternetChecksum_add :: "checksum \<Rightarrow> bytes \<Rightarrow> checksum" where
  "InternetChecksum_add c data =
     fold (\<lambda>b c.
       let val = ucast b :: u16;
           val = (if \<not> ck_parity c then push_bit 8 val else val)
       in c\<lparr>ck_sum := ck_sum c + ucast val, ck_parity := \<not> ck_parity c\<rparr>) data c"

lemma unat32_add: "unat (a :: u32) + unat b < 4294967296 \<Longrightarrow> unat (a + b) = unat a + unat b"
  by (simp add: unat_word_ariths)

lemma unat_fold_step:
  "unat (drop_bit 16 r + (r AND 0xffff)) = unat r div 65536 + unat (r :: u32) mod 65536"
proof -
  have m: "(0xffff :: u32) = mask 16" by (simp add: mask_eq_exp_minus_1)
  have lo: "unat (r AND 0xffff) = unat r mod 65536"
    unfolding m take_bit_eq_mask [symmetric] by (simp add: take_bit_eq_mod unat_mod)
  have hi: "unat (drop_bit 16 r) = unat r div 65536"
    by (simp add: drop_bit_eq_div unat_div)
  have "unat r div 65536 < 65536" using unat32_lt [of r] by (simp only: less_mult_imp_div_less)
  moreover have "unat r mod 65536 < 65536" by simp
  ultimately have "unat (drop_bit 16 r) + unat (r AND 0xffff) < 4294967296" using lo hi by linarith
  then show ?thesis using lo hi by (simp add: unat32_add)
qed

lemma end_around:
  fixes n :: nat
  defines "s \<equiv> n div 65536 + n mod 65536"
  shows "n = s + 65535 * (n div 65536)" and "65535 < n \<Longrightarrow> s < n" and "s = 0 \<longleftrightarrow> n = 0"
proof -
  have n: "n = 65536 * (n div 65536) + n mod 65536" by simp
  then show eq: "n = s + 65535 * (n div 65536)" unfolding s_def by linarith
  show "s = 0 \<longleftrightarrow> n = 0" using n unfolding s_def by linarith
  assume "65535 < n"
  then have "0 < n div 65536" by (simp add: div_greater_zero_iff)
  with eq show "s < n" by linarith
qed

lemma fold16_measure: "0xffff < (r :: u32) \<Longrightarrow> unat (drop_bit 16 r + (r AND 0xffff)) < unat r"
  unfolding unat_fold_step by (rule end_around(2)) (simp add: word_less_nat_alt)

function fold16 :: "u32 \<Rightarrow> u32" where
  "fold16 r = (if 0xffff < r then fold16 (drop_bit 16 r + (r AND 0xffff)) else r)"
  by auto
termination
  by (relation "measure unat") (simp_all only: wf_measure in_measure fold16_measure)

declare fold16.simps [simp del]

definition InternetChecksum_value :: "checksum \<Rightarrow> u16" where
  "InternetChecksum_value c = ucast (NOT (fold16 (ck_sum c)))"

subsection \<open>The sum as a number\<close>

lemma fold16_big: "0xffff < r \<Longrightarrow> fold16 r = fold16 (drop_bit 16 r + (r AND 0xffff))"
  and fold16_small: "\<not> 0xffff < r \<Longrightarrow> fold16 r = r"
  by (simp_all add: fold16.simps [of r])

text \<open>
  The fold keeps the residue modulo 65535 and the distinction of 0, and ends in 16 bits: that
  determines it.
\<close>

lemma fold16_spec:
  "unat (fold16 r) mod 65535 = unat r mod 65535 \<and> unat (fold16 r) \<le> 65535 \<and>
     (unat (fold16 r) = 0 \<longleftrightarrow> unat r = 0)"
proof (induction r rule: fold16.induct)
  case (1 r)
  show ?case
  proof (cases "0xffff < r")
    case True
    let ?s = "unat r div 65536 + unat r mod 65536"
    have "?s mod 65535 = unat r mod 65535"
      using end_around(1) [of "unat r"] by (metis mod_mult_self2)
    moreover have "?s = 0 \<longleftrightarrow> unat r = 0" by (rule end_around(3))
    ultimately show ?thesis using 1 [OF True] by (simp only: fold16_big [OF True] unat_fold_step)
  qed (simp add: fold16_small not_less word_le_nat_alt)
qed

lemma residue_unique:
  "a mod 65535 = b mod 65535 \<Longrightarrow> a \<le> 65535 \<Longrightarrow> b \<le> 65535 \<Longrightarrow> (a = 0 \<longleftrightarrow> b = 0) \<Longrightarrow> a = (b :: nat)"
  by (cases "a = 65535"; cases "b = 65535") auto

lemma value_fold16: "unat (InternetChecksum_value c) = 65535 - unat (fold16 (ck_sum c))"
proof -
  let ?f = "fold16 (ck_sum c)"
  have f: "unat ?f \<le> 65535" using fold16_spec by blast
  have "InternetChecksum_value c = NOT (ucast ?f)"
    by (rule bit_word_eqI) (simp add: InternetChecksum_value_def bit_simps)
  also have "\<dots> = - 1 - ucast ?f" by (simp add: not_eq_complement)
  finally have v: "InternetChecksum_value c = - 1 - ucast ?f" .
  have "unat (- 1 - ucast ?f :: u16) = unat (- 1 :: u16) - unat (ucast ?f :: u16)"
    by (rule unat_sub) simp
  moreover have "unat (ucast ?f :: u16) = unat ?f"
    using f by (simp add: unat_ucast)
  moreover have "unat (- 1 :: u16) = 65535"
    by (simp add: unsigned_minus_1_eq_mask mask_eq_exp_minus_1)
  ultimately show ?thesis unfolding v by simp
qed

text \<open>What \<^verbatim>\<open>add\<close> adds to the sum, starting in an odd (\<open>par\<close>) or an even position.\<close>

fun byte_sum :: "bool \<Rightarrow> bytes \<Rightarrow> nat" where
  "byte_sum par [] = 0"
| "byte_sum par (b # bs) = (if par then unat b else 256 * unat b) + byte_sum (\<not> par) bs"

lemma byte_sum_append:
  "byte_sum par (xs @ ys) = byte_sum par xs + byte_sum (if even (length xs) then par else \<not> par) ys"
  by (induction par xs rule: byte_sum.induct) auto

lemma byte_sum_bound: "byte_sum par bs \<le> 65280 * length bs"
proof (induction par bs rule: byte_sum.induct)
  case (2 par b bs)
  moreover have "unat b \<le> 255" using unat8_lt [of b] by linarith
  ultimately show ?case by auto
qed simp

lemma ucast_val:
  "(ucast (if \<not> par then push_bit 8 (ucast b :: u16) else ucast b) :: u32) =
     of_nat (if par then unat b else 256 * unat (b :: u8))"
proof (cases par)
  case True
  then show ?thesis using unat8_lt [of b] by (simp add: word_unat_eq_iff unat_ucast unat_of_nat)
next
  case False
  have "unat (ucast b :: u16) = unat b" by (simp add: unat_ucast)
  then have "unat (push_bit 8 (ucast b :: u16)) = 256 * unat b"
    by (simp add: push_bit_eq_mult unat_word_ariths)
  moreover have lt: "256 * unat b < 2 ^ LENGTH(32)"
  proof -
    have "256 * unat b < 65536" using unat8_lt [of b] by linarith
    also have "(65536 :: nat) < 2 ^ LENGTH(32)" by simp
    finally show ?thesis .
  qed
  moreover have "unat (of_nat (256 * unat b) :: u32) = 256 * unat b"
    unfolding unat_of_nat by (rule mod_less [OF lt])
  ultimately have "unat (ucast (push_bit 8 (ucast b :: u16)) :: u32) = unat (of_nat (256 * unat b) :: u32)"
    by (simp only: unat_ucast mod_less)
  with False show ?thesis by (simp only: word_unat_eq_iff if_True if_False not_False_eq_True)
qed

lemma checksum_add_eq:
  "InternetChecksum_add c bs =
     \<lparr>ck_sum = ck_sum c + of_nat (byte_sum (ck_parity c) bs),
      ck_parity = (if even (length bs) then ck_parity c else \<not> ck_parity c)\<rparr>"
proof (induction bs arbitrary: c)
  case (Cons b bs)
  have "InternetChecksum_add c (b # bs) = InternetChecksum_add
      (c\<lparr>ck_sum := ck_sum c + of_nat (if ck_parity c then unat b else 256 * unat b), ck_parity := \<not> ck_parity c\<rparr>) bs"
    unfolding ucast_val [symmetric] by (simp add: InternetChecksum_add_def Let_def)
  with Cons show ?case by (simp add: add.assoc)
qed (simp add: InternetChecksum_add_def)

lemma checksum_add_append:
  "InternetChecksum_add (InternetChecksum_add c xs) ys = InternetChecksum_add c (xs @ ys)"
  by (simp add: InternetChecksum_add_def)

lemma checksum_value_spec:
  assumes "unat s + byte_sum False bs < 4294967296"
  defines "f \<equiv> 65535 - unat (InternetChecksum_value (InternetChecksum_add (InternetChecksum_new s) bs))"
  shows "f mod 65535 = (unat s + byte_sum False bs) mod 65535" "f \<le> 65535"
    "f = 0 \<longleftrightarrow> unat s + byte_sum False bs = 0"
proof -
  let ?sum = "s + of_nat (byte_sum False bs)"
  have "unat (of_nat (byte_sum False bs) :: u32) = byte_sum False bs"
    using assms(1) by (simp add: unat_of_nat)
  then have sum: "unat ?sum = unat s + byte_sum False bs"
    using assms(1) by (simp add: unat32_add)
  have "f = unat (fold16 ?sum)"
    using fold16_spec [of ?sum] by (simp add: f_def value_fold16 checksum_add_eq InternetChecksum_new_def)
  then show "f mod 65535 = (unat s + byte_sum False bs) mod 65535" "f \<le> 65535"
    "f = 0 \<longleftrightarrow> unat s + byte_sum False bs = 0"
    using fold16_spec [of ?sum] by (simp_all add: sum)
qed

lemma value_le: "unat (InternetChecksum_value c) \<le> 65535"
  using unat16_lt [of "InternetChecksum_value c"] by linarith

text \<open>A message verifies exactly if its sum is a positive multiple of 65535.\<close>

lemma checksum_zero_iff:
  assumes "unat s + byte_sum False bs < 4294967296"
  shows "InternetChecksum_value (InternetChecksum_add (InternetChecksum_new s) bs) = 0 \<longleftrightarrow>
     0 < unat s + byte_sum False bs \<and> (unat s + byte_sum False bs) mod 65535 = 0"
proof -
  let ?v = "InternetChecksum_value (InternetChecksum_add (InternetChecksum_new s) bs)"
  define f where "f = 65535 - unat ?v"
  note spec = checksum_value_spec [OF assms, folded f_def]
  have "unat ?v \<le> 65535" by (rule value_le)
  then have "?v = 0 \<longleftrightarrow> f = 65535" unfolding f_def unat_eq_iff by auto
  also have "\<dots> \<longleftrightarrow> f mod 65535 = 0 \<and> f \<noteq> 0"
    using residue_unique [of f 65535] spec(2) by auto
  also have "\<dots> \<longleftrightarrow> 0 < unat s + byte_sum False bs \<and> (unat s + byte_sum False bs) mod 65535 = 0"
    unfolding spec(1,3) by (metis neq0_conv)
  finally show ?thesis .
qed

lemma byte_sum_u16: "byte_sum False (NetUnparser_unparse_int (w :: u16)) = unat w"
proof -
  have "be_bytes 2 w = [ucast (drop_bit 8 w), ucast w]"
    by (simp add: be_bytes_def upt_rec)
  moreover have "unat (ucast (drop_bit 8 w) :: u8) = unat w div 256"
  proof -
    have "unat w div 256 < 256" using unat16_lt [of w] by (simp only: less_mult_imp_div_less)
    then show ?thesis by (simp add: unat_ucast drop_bit_eq_div unat_div)
  qed
  moreover have "unat (ucast w :: u8) = unat w mod 256" by (simp add: unat_ucast)
  ultimately show ?thesis by (simp add: unparse_int_eq)
qed

lemma checksum_fills:
  assumes pre: "even (length pre)" and bound: "unat s + 65280 * (length pre + length post) + 65535 < 4294967296"
  defines "c \<equiv> InternetChecksum_value (InternetChecksum_add (InternetChecksum_new s) (pre @ [0, 0] @ post))"
  shows "InternetChecksum_value (InternetChecksum_add (InternetChecksum_new s)
     (pre @ NetUnparser_unparse_int c @ post)) = 0"
proof -
  define t where "t = unat s + byte_sum False pre + byte_sum False post"
  have le: "byte_sum False pre + byte_sum False post \<le> 65280 * (length pre + length post)"
    using byte_sum_bound [of False pre] byte_sum_bound [of False post] by (simp add: distrib_left add_mono)
  have zero: "unat s + byte_sum False (pre @ [0, 0] @ post) = t"
    using pre by (simp add: byte_sum_append t_def)
  have len: "length (NetUnparser_unparse_int c) = 2" by (rule n16.enc_length)
  have full: "unat s + byte_sum False (pre @ NetUnparser_unparse_int c @ post) = t + unat c"
    using pre by (simp add: byte_sum_append byte_sum_u16 len t_def)
  have t: "t < 4294967296" and tc: "t + unat c < 4294967296"
    using bound le unat16_lt [of c] unfolding t_def by linarith+
  define f where "f = 65535 - unat c"
  have spec: "f mod 65535 = t mod 65535" "f = 0 \<longleftrightarrow> t = 0"
    using checksum_value_spec [of s "pre @ [0, 0] @ post"] t unfolding zero f_def c_def by simp_all
  have c: "unat c + f = 65535" using unat16_lt [of c] unfolding f_def by linarith
  have "(t + unat c) mod 65535 = (f + unat c) mod 65535" using spec(1) by (metis mod_add_left_eq)
  also have "\<dots> = 0" using c by (simp add: add.commute)
  finally have "(t + unat c) mod 65535 = 0" .
  moreover have "0 < t + unat c" using spec(2) c by linarith
  ultimately show ?thesis
    using iffD2 [OF checksum_zero_iff [of s "pre @ NetUnparser_unparse_int c @ post"]] tc
    unfolding full by auto
qed

subsection \<open>Properties\<close>

text \<open>
  C36. The checksum fills in: computed by \<^verbatim>\<open>value\<close> over data in which the two bytes of the
  checksum field, at an even position, are zero, and put into the field in network byte
  order, it makes the data verify, i.e. evaluate to 0, for every pseudo-header sum the data
  is checked with.
\<close>

theorem checksum_verifies:
  assumes "even (length pre)" and "unat s + 65280 * (length pre + length post) + 65535 < 4294967296"
  shows "InternetChecksum_value (InternetChecksum_add (InternetChecksum_new s)
     (pre @ NetUnparser_unparse_int
        (InternetChecksum_value (InternetChecksum_add (InternetChecksum_new s) (pre @ [0, 0] @ post))) @ post)) = 0"
  by (rule checksum_fills [OF assms])

theorem checksum_verifies_witness:
  "InternetChecksum_value (InternetChecksum_add (InternetChecksum_new 7)
     ([1, 2] @ NetUnparser_unparse_int
        (InternetChecksum_value (InternetChecksum_add (InternetChecksum_new 7) ([1, 2] @ [0, 0] @ [3]))) @ [3])) = 0"
  by (rule checksum_verifies) simp_all

text \<open>The reference: the one's complement sum of the 16-bit words, an odd last byte padded with zero.\<close>

fun words16 :: "bytes \<Rightarrow> nat list" where
  "words16 [] = []"
| "words16 [a] = [256 * unat a]"
| "words16 (a # b # bs) = (256 * unat a + unat b) # words16 bs"

definition oc_add :: "nat \<Rightarrow> nat \<Rightarrow> nat" where
  "oc_add x y = (if 65535 < x + y then x + y - 65535 else x + y)"

definition oc_sum :: "nat list \<Rightarrow> nat" where
  "oc_sum ws = foldr oc_add ws 0"

lemma sum_words16: "sum_list (words16 bs) = byte_sum False bs"
  by (induction bs rule: words16.induct) simp_all

lemma words16_le: "w \<in> set (words16 bs) \<Longrightarrow> w \<le> 65535"
proof (induction bs rule: words16.induct)
  case (2 a)
  moreover have "256 * unat a \<le> 65535" using unat8_lt [of a] by linarith
  ultimately show ?case by auto
next
  case (3 a b bs)
  moreover have "256 * unat a + unat b \<le> 65535" using unat8_lt [of a] unat8_lt [of b] by linarith
  ultimately show ?case by auto
qed simp

lemma oc_sum_spec:
  "(\<forall>w \<in> set ws. w \<le> 65535) \<Longrightarrow> oc_sum ws mod 65535 = sum_list ws mod 65535 \<and> oc_sum ws \<le> 65535 \<and>
     (oc_sum ws = 0 \<longleftrightarrow> sum_list ws = 0)"
proof (induction ws)
  case (Cons w ws)
  then have IH: "oc_sum ws mod 65535 = sum_list ws mod 65535" "oc_sum ws \<le> 65535"
    "oc_sum ws = 0 \<longleftrightarrow> sum_list ws = 0" and w: "w \<le> 65535" by simp_all
  have step: "oc_sum (w # ws) = oc_add w (oc_sum ws)" by (simp add: oc_sum_def)
  have "oc_add w (oc_sum ws) mod 65535 = (w + oc_sum ws) mod 65535"
    unfolding oc_add_def by (simp add: le_mod_geq)
  also have "\<dots> = (w + sum_list ws) mod 65535" using IH(1) by (metis mod_add_right_eq)
  finally show ?case using w IH(2,3) unfolding step by (auto simp: oc_add_def)
qed (simp add: oc_sum_def)

text \<open>
  C37. The byte-wise 32-bit sum with its deferred carries computes the Internet checksum of
  RFC 1071: the complement of the one's complement sum of the 16-bit words.
\<close>

theorem checksum_rfc1071:
  assumes "length bs \<le> 65535"
  shows "unat (InternetChecksum_value (InternetChecksum_add (InternetChecksum_new 0) bs)) =
     65535 - oc_sum (words16 bs)"
proof -
  let ?v = "InternetChecksum_value (InternetChecksum_add (InternetChecksum_new 0) bs)"
  have "unat (0 :: u32) + byte_sum False bs < 4294967296"
    using byte_sum_bound [of False bs] assms by simp
  note spec = checksum_value_spec [OF this, simplified]
  have oc: "oc_sum (words16 bs) mod 65535 = byte_sum False bs mod 65535" "oc_sum (words16 bs) \<le> 65535"
    "oc_sum (words16 bs) = 0 \<longleftrightarrow> byte_sum False bs = 0"
    using oc_sum_spec [of "words16 bs"] words16_le by (auto simp: sum_words16)
  have "65535 - unat ?v = oc_sum (words16 bs)"
    by (rule residue_unique) (use spec oc in simp_all)
  then show ?thesis using value_le [of "InternetChecksum_add (InternetChecksum_new 0) bs"] by linarith
qed

theorem checksum_rfc1071_witness:
  "unat (InternetChecksum_value (InternetChecksum_add (InternetChecksum_new 0) [255, 255, 1])) =
     65535 - oc_sum (words16 [255, 255, 1])"
  by (rule checksum_rfc1071) simp

end
