(* ===== verification/Wrapping_Integers.thy ===== *)
theory Wrapping_Integers
  imports Prelude
begin

text \<open>
  \<^verbatim>\<open>libsponge/wrapping_integers.hh\<close> and \<^verbatim>\<open>wrapping_integers.cc\<close>: 32-bit sequence numbers relative
  to an initial sequence number and their translation from and to 64-bit absolute ones. The
  sender and the receiver rely on the contract \<open>sequence_space\<close>.
\<close>

datatype WrappingInt32 = WrappingInt32 (raw_value: u32)

definition wrap :: "u64 \<Rightarrow> WrappingInt32 \<Rightarrow> WrappingInt32" where
  "wrap n isn =
     (let isn_64t = ucast (raw_value isn) :: u64;
          sn_32t = ucast ((isn_64t + n) mod 4294967296) :: u32
      in WrappingInt32 sn_32t)"

definition unwrap :: "WrappingInt32 \<Rightarrow> WrappingInt32 \<Rightarrow> u64 \<Rightarrow> u64" where
  "unwrap n isn checkpoint =
     (let re_sq = ucast (ucast (raw_value n) - ucast (raw_value isn) :: u64) :: u32;
          re = ucast re_sq :: u64;
          MAX32_T = 4294967296; HALF_MAX32_T = 2147483648;
          k = checkpoint div MAX32_T
      in if checkpoint \<le> re then re
         else if checkpoint + HALF_MAX32_T < re + MAX32_T * k then re + MAX32_T * (k - 1)
         else if re + MAX32_T * k + HALF_MAX32_T < checkpoint then re + MAX32_T * (k + 1)
         else re + MAX32_T * k)"

definition WrappingInt32_diff :: "WrappingInt32 \<Rightarrow> WrappingInt32 \<Rightarrow> int" where
  "WrappingInt32_diff a b = sint (raw_value a - raw_value b)"

definition WrappingInt32_add :: "WrappingInt32 \<Rightarrow> u32 \<Rightarrow> WrappingInt32" where
  "WrappingInt32_add a b = WrappingInt32 (raw_value a + b)"

definition WrappingInt32_sub :: "WrappingInt32 \<Rightarrow> u32 \<Rightarrow> WrappingInt32" where
  "WrappingInt32_sub a b = WrappingInt32_add a (- b)"

subsection \<open>The translations on natural numbers\<close>

text \<open>The distance of a relative sequence number from the initial one.\<close>

definition seq_offset :: "WrappingInt32 \<Rightarrow> WrappingInt32 \<Rightarrow> nat" where
  "seq_offset n isn = unat (raw_value n - raw_value isn)"

lemma seq_offset_lt: "seq_offset n isn < 4294967296"
  by (simp add: seq_offset_def)

lemma wrap_eq: "wrap n isn = WrappingInt32 (raw_value isn + ucast n)"
  by (simp add: wrap_def Let_def unat_eq_iff unat_ucast unat_word_ariths unat_mod mod_add_left_eq
      mod_add_right_eq mod_mod_cancel)

lemma wrap_eq_iff: "wrap x isn = n \<longleftrightarrow> unat x mod 4294967296 = seq_offset n isn"
proof -
  have "wrap x isn = n \<longleftrightarrow> ucast x = raw_value n - raw_value isn"
    by (cases n) (auto simp: wrap_eq algebra_simps)
  also have "\<dots> \<longleftrightarrow> unat x mod 4294967296 = seq_offset n isn"
    by (simp add: unat_eq_iff unat_ucast seq_offset_def)
  finally show ?thesis .
qed

lemma ucast_diff_32: "(ucast (ucast a - ucast b :: u64) :: u32) = a - b" for a b :: u32
proof (cases "unat b \<le> unat a")
  case True
  then show ?thesis by (simp add: unat_eq_iff unat_ucast unat_sub_if' less_imp_diff_less)
next
  case False
  then have "unat a + 18446744073709551616 - unat b =
      (unat a + 4294967296 - unat b) + 4294967295 * 4294967296"
    using unat32_lt [of b] by linarith
  then have "(unat a + 18446744073709551616 - unat b) mod 4294967296 =
      (unat a + 4294967296 - unat b) mod 4294967296"
    by (simp only: mod_mult_self1)
  with False show ?thesis
    by (simp add: unat_eq_iff unat_ucast unat_sub_if')
qed

lemma unat_re_sq:
  "unat (ucast (ucast (ucast (raw_value n) - ucast (raw_value isn) :: u64) :: u32) :: u64) = seq_offset n isn"
  by (simp add: ucast_diff_32 seq_offset_def unat_ucast)

lemma div_mod_period:
  "4294967296 * (m div 4294967296) \<le> m \<and> m < 4294967296 * (m div 4294967296) + (4294967296 :: nat)"
  using mult_div_mod_eq [of 4294967296 m] mod_less_divisor [of 4294967296 m] by linarith

lemma unat_unwrap:
  fixes c :: u64 and n isn :: WrappingInt32
  assumes c: "unat c + 8589934592 \<le> 18446744073709551616"
  defines "C \<equiv> unat c" and "r \<equiv> seq_offset n isn"
  defines "a \<equiv> r + 4294967296 * (C div 4294967296)"
  shows "unat (unwrap n isn c) =
     (if C \<le> r then r else if C + 2147483648 < a then a - 4294967296
      else if a + 2147483648 < C then a + 4294967296 else a)"
proof -
  define re :: u64 where "re = ucast (ucast (ucast (raw_value n) - ucast (raw_value isn) :: u64) :: u32)"
  define k where "k = c div 4294967296"
  have re: "unat re = r" by (simp add: re_def r_def unat_re_sq)
  have r: "r < 4294967296" by (simp add: r_def seq_offset_lt)
  have k: "unat k = C div 4294967296" by (simp add: k_def C_def unat_div)
  have mk: "4294967296 * unat k \<le> C" "C < 4294967296 * unat k + 4294967296"
    using div_mod_period [of C] unfolding k by linarith+
  have prod: "unat (4294967296 * k) = 4294967296 * unat k"
    using mk c by (subst unat_word_ariths) (simp add: C_def)
  have sum: "unat (re + 4294967296 * k) = a"
    using mk c r re prod k by (simp add: word_simps C_def a_def)
  have half: "unat (c + 2147483648) = C + 2147483648"
    using c by (simp add: word_simps C_def)
  have ahalf: "unat (re + 4294967296 * k + 2147483648) = a + 2147483648"
    using mk c r k sum by (simp add: word_simps C_def a_def)
  have down: "unat (re + 4294967296 * (k - 1)) = a - 4294967296" if "\<not> C \<le> r" "C + 2147483648 < a"
  proof -
    have "unat k \<noteq> 0" using that k by (auto simp: a_def)
    then have le: "unat (4294967296 :: u64) \<le> unat (re + 4294967296 * k)"
      using sum k by (simp add: a_def)
    have "re + 4294967296 * (k - 1) = (re + 4294967296 * k) - 4294967296"
      by (simp add: algebra_simps)
    then have "unat (re + 4294967296 * (k - 1)) = unat (re + 4294967296 * k) - unat (4294967296 :: u64)"
      by (simp only: unat_sub_nowrap [OF le])
    then show ?thesis
      using sum by simp
  qed
  have up: "unat (re + 4294967296 * (k + 1)) = a + 4294967296" if "a + 2147483648 < C"
  proof -
    have lt: "unat (re + 4294967296 * k) + unat (4294967296 :: u64) < 18446744073709551616"
      using sum that c by (simp add: C_def)
    have "re + 4294967296 * (k + 1) = (re + 4294967296 * k) + 4294967296"
      by (simp add: algebra_simps)
    then have "unat (re + 4294967296 * (k + 1)) = unat (re + 4294967296 * k) + unat (4294967296 :: u64)"
      by (simp only: unat_add_nowrap [OF lt])
    then show ?thesis
      using sum by simp
  qed
  have conds: "c \<le> re \<longleftrightarrow> C \<le> r"
    "c + 2147483648 < re + 4294967296 * k \<longleftrightarrow> C + 2147483648 < a"
    "re + 4294967296 * k + 2147483648 < c \<longleftrightarrow> a + 2147483648 < C"
    by (simp_all only: word_nat_order re sum half ahalf C_def)
  show ?thesis
    unfolding unwrap_def Let_def re_def [symmetric] k_def [symmetric] conds
    using down up sum re by simp
qed

subsection \<open>Correctness\<close>

text \<open>Unwrapping inverts wrapping modulo \<open>2 ^ 32\<close>, whatever the checkpoint.\<close>

lemma unat_add_mod: "unat (x + y :: u64) mod 4294967296 = (unat x + unat y) mod 4294967296"
proof -
  have "(unat x + unat y) mod 18446744073709551616 mod 4294967296 = (unat x + unat y) mod 4294967296"
    by (rule mod_mod_cancel) simp
  then show ?thesis by (simp add: unat_word_ariths)
qed

lemma unat_period_mod: "unat (4294967296 * y :: u64) mod 4294967296 = 0"
proof -
  have "4294967296 * unat y mod 18446744073709551616 mod 4294967296 = 4294967296 * unat y mod 4294967296"
    by (rule mod_mod_cancel) simp
  then show ?thesis by (simp add: unat_word_ariths)
qed

lemma ucast_period: "(ucast (x + 4294967296 * y :: u64) :: u32) = ucast x"
proof -
  have "(unat x + unat (4294967296 * y)) mod 4294967296 = unat x mod 4294967296"
    using mod_add_right_eq [of "unat x" "unat (4294967296 * y)" 4294967296] unat_period_mod [of y]
    by simp
  then show ?thesis
    by (simp only: unat_eq_iff unat_ucast) (simp add: unat_add_mod)
qed

lemma ucast_ucast_32: "(ucast (ucast a :: u64) :: u32) = a" for a :: u32
  by (simp add: unat_eq_iff unat_ucast)

lemma wrap_unwrap: "wrap (unwrap n isn c) isn = n"
proof -
  have "(ucast (unwrap n isn c) :: u32) = raw_value n - raw_value isn"
    unfolding unwrap_def Let_def ucast_diff_32
    by (simp only: if_distrib [of "ucast :: u64 \<Rightarrow> u32"] ucast_period ucast_ucast_32 if_cancel)
  then show ?thesis by (cases n) (simp add: wrap_eq)
qed

text \<open>The unwrapped number is within half the space of the checkpoint, or in the first period above it.\<close>

lemma unwrap_near:
  assumes "unat c + 8589934592 \<le> 18446744073709551616"
  shows "(unat c \<le> unat (unwrap n isn c) \<and> unat (unwrap n isn c) < 4294967296) \<or>
     (unat c \<le> unat (unwrap n isn c) + 2147483648 \<and> unat (unwrap n isn c) \<le> unat c + 2147483648)"
proof -
  show ?thesis
    using seq_offset_lt [of n isn] div_mod_period [of "unat c"]
    unfolding unat_unwrap [OF assms] by (simp split: if_split) linarith
qed

lemma same_residue_far:
  fixes a b m :: nat
  assumes "a mod m = b mod m" and "a < b"
  shows "a + m \<le> b"
proof -
  have "m dvd b - a" using assms by (metis mod_eq_dvd_iff_nat less_imp_le)
  moreover have "b - a \<noteq> 0" using assms by simp
  ultimately have "m \<le> b - a" by (simp add: dvd_imp_le)
  then show ?thesis using assms by simp
qed

lemma unwrap_closest:
  assumes c: "unat c + 8589934592 \<le> 18446744073709551616" and x: "wrap x isn = n"
  shows "\<bar>int (unat (unwrap n isn c)) - int (unat c)\<bar> \<le> \<bar>int (unat x) - int (unat c)\<bar>"
proof -
  have "unat (unwrap n isn c) mod 4294967296 = unat x mod 4294967296"
    using x wrap_unwrap [of n isn c] by (simp add: wrap_eq_iff)
  then have "unat (unwrap n isn c) = unat x \<or>
      unat (unwrap n isn c) + 4294967296 \<le> unat x \<or> unat x + 4294967296 \<le> unat (unwrap n isn c)"
    using same_residue_far [of "unat (unwrap n isn c)" 4294967296 "unat x"]
      same_residue_far [of "unat x" 4294967296 "unat (unwrap n isn c)"]
    by (metis linorder_neqE_nat)
  with unwrap_near [OF c, of n isn] show ?thesis by linarith
qed

lemma unwrap_wrap:
  assumes c: "unat c + 8589934592 \<le> 18446744073709551616"
    and near: "\<bar>int (unat x) - int (unat c)\<bar> < 2147483648"
  shows "unwrap (wrap x isn) isn c = x"
proof -
  have "unat (unwrap (wrap x isn) isn c) mod 4294967296 = unat x mod 4294967296"
    using wrap_unwrap [of "wrap x isn" isn c] wrap_eq_iff [of x isn "wrap x isn"]
    by (simp add: wrap_eq_iff [of "unwrap (wrap x isn) isn c"])
  moreover have "\<bar>int (unat (unwrap (wrap x isn) isn c)) - int (unat c)\<bar> < 2147483648"
    using unwrap_closest [OF c refl, of x isn] near by linarith
  ultimately have "unat (unwrap (wrap x isn) isn c) = unat x"
    using near same_residue_far [of "unat (unwrap (wrap x isn) isn c)" 4294967296 "unat x"]
      same_residue_far [of "unat x" 4294967296 "unat (unwrap (wrap x isn) isn c)"]
    by linarith
  then show ?thesis by (simp add: unat_eq_iff)
qed

lemma wrap_add: "wrap (n + m) isn = WrappingInt32_add (wrap n isn) (ucast m)"
proof -
  have "unat (n + m) mod 4294967296 = (unat n mod 4294967296 + unat m mod 4294967296) mod 4294967296"
    by (simp add: unat_add_mod mod_add_eq)
  then have "(ucast (n + m) :: u32) = ucast n + ucast m"
    by (simp only: unat_eq_iff unat_ucast unat_word_ariths) simp
  then show ?thesis
    by (simp add: wrap_eq WrappingInt32_add_def add.assoc)
qed

subsection \<open>The contract of a sequence space\<close>

locale sequence_space =
  fixes wr :: "u64 \<Rightarrow> 'r \<Rightarrow> 'w"
    and un :: "'w \<Rightarrow> 'r \<Rightarrow> u64 \<Rightarrow> u64"
  assumes wr_un: "wr (un w isn c) isn = w"
    and un_wr: "unat c + 8589934592 \<le> 18446744073709551616 \<Longrightarrow>
          \<bar>int (unat x) - int (unat c)\<bar> < 2147483648 \<Longrightarrow> un (wr x isn) isn c = x"
begin

lemma un_wr_small: "unat x < 2147483648 \<Longrightarrow> unat c < 2147483648 \<Longrightarrow> un (wr x isn) isn c = x"
  by (rule un_wr) linarith+

text \<open>A relative number names at most one absolute number around a checkpoint.\<close>

lemma wr_inj_near:
  fixes c :: u64
  assumes "unat c + 8589934592 \<le> 18446744073709551616"
    and "\<bar>int (unat x) - int (unat c)\<bar> < 2147483648" and "\<bar>int (unat y) - int (unat c)\<bar> < 2147483648"
    and "wr x isn = wr y isn"
  shows "x = y"
proof -
  have "un (wr x isn) isn c = x" "un (wr y isn) isn c = y"
    by (rule un_wr [OF assms(1,2)], rule un_wr [OF assms(1,3)])
  with assms(4) show ?thesis by metis
qed

lemma un_inj: "un w isn c = un w' isn c \<Longrightarrow> w = w'"
  by (metis wr_un)

end

interpretation sq: sequence_space wrap unwrap
  by unfold_locales (fact wrap_unwrap, fact unwrap_wrap)

subsection \<open>Properties\<close>

text \<open>
  C6. \<^verbatim>\<open>unwrap\<close> returns the 64-bit sequence number that wraps to \<open>n\<close> and is closest to the
  checkpoint: it wraps to \<open>n\<close>, and no other number that wraps to \<open>n\<close> is nearer to the
  checkpoint. The checkpoint has to be \<open>2 ^ 33\<close> below the end of the 64-bit range, where
  the sums of the code do not wrap.
\<close>

theorem unwrap_is_closest:
  assumes "unat checkpoint + 8589934592 \<le> 18446744073709551616"
  shows "wrap (unwrap n isn checkpoint) isn = n \<and>
     (\<forall>x. wrap x isn = n \<longrightarrow>
       \<bar>int (unat (unwrap n isn checkpoint)) - int (unat checkpoint)\<bar> \<le> \<bar>int (unat x) - int (unat checkpoint)\<bar>)"
  by (intro conjI allI impI) (rule wrap_unwrap, erule unwrap_closest [OF assms])

theorem unwrap_is_closest_witness:
  "wrap 2 (WrappingInt32 15) = WrappingInt32 17 \<and>
     unwrap (WrappingInt32 17) (WrappingInt32 15) 4294967290 = 4294967298 \<and>
     \<bar>int (unat (unwrap (WrappingInt32 17) (WrappingInt32 15) 4294967290)) - int (unat (4294967290 :: u64))\<bar>
       \<le> \<bar>int (unat (2 :: u64)) - int (unat (4294967290 :: u64))\<bar>"
proof -
  have "unat (4294967290 :: u64) + 8589934592 \<le> 18446744073709551616" by simp
  moreover have "unwrap (WrappingInt32 17) (WrappingInt32 15) 4294967290 = 4294967298" by code_simp
  moreover have "wrap 2 (WrappingInt32 15) = WrappingInt32 17" by code_simp
  ultimately show ?thesis using unwrap_is_closest by blast
qed

text \<open>
  C7. Wrapping and unwrapping is the identity on every absolute sequence number within
  \<open>2 ^ 31\<close> of the checkpoint, for every initial sequence number.
\<close>

theorem unwrap_wrap_roundtrip:
  assumes "unat checkpoint + 8589934592 \<le> 18446744073709551616"
    and "\<bar>int (unat n) - int (unat checkpoint)\<bar> < 2147483648"
  shows "unwrap (wrap n isn) isn checkpoint = n"
  using assms by (rule sq.un_wr)

theorem unwrap_wrap_roundtrip_witness:
  "unwrap (wrap 10000000000 (WrappingInt32 4294967295)) (WrappingInt32 4294967295) 9000000000 = 10000000000"
  by (rule unwrap_wrap_roundtrip) simp_all

end
