(* ===== verification/TCP_Segment.thy ===== *)
theory TCP_Segment
  imports Internet_Checksum Wrapping_Integers
begin

text \<open>
  \<^verbatim>\<open>libsponge/tcp_helpers/tcp_header.hh\<close>, \<^verbatim>\<open>tcp_header.cc\<close>, \<^verbatim>\<open>tcp_segment.hh\<close> and \<^verbatim>\<open>tcp_segment.cc\<close>: the
  TCP header and segment, their parsers and serializers. A parser overwrites the fields of
  an existing object, so it takes the old value and returns the new one.
\<close>

subsection \<open>Header\<close>

record tcp_header =
  th_sport :: u16
  th_dport :: u16
  th_seqno :: WrappingInt32
  th_ackno :: WrappingInt32
  th_doff :: u8
  th_urg :: bool
  th_ack :: bool
  th_psh :: bool
  th_rst :: bool
  th_syn :: bool
  th_fin :: bool
  th_win :: u16
  th_cksum :: u16
  th_uptr :: u16

definition TCPHeader_LENGTH :: u64 where
  "TCPHeader_LENGTH = 20"

definition TCPHeader_new :: tcp_header where
  "TCPHeader_new = \<lparr>th_sport = 0, th_dport = 0, th_seqno = WrappingInt32 0, th_ackno = WrappingInt32 0,
     th_doff = 5, th_urg = False, th_ack = False, th_psh = False, th_rst = False, th_syn = False,
     th_fin = False, th_win = 0, th_cksum = 0, th_uptr = 0\<rparr>"

definition TCPHeader_parse :: "netparser \<Rightarrow> (ParseResult \<times> tcp_header \<times> netparser) res" where
  "TCPHeader_parse p =
     rbind (NetParser_u16 p) (\<lambda>(sport, p).
     rbind (NetParser_u16 p) (\<lambda>(dport, p).
     rbind (NetParser_u32 p) (\<lambda>(seqno, p).
     rbind (NetParser_u32 p) (\<lambda>(ackno, p).
     rbind (NetParser_u8 p) (\<lambda>(off_b, p).
     rbind (NetParser_u8 p) (\<lambda>(fl_b, p).
     rbind (NetParser_u16 p) (\<lambda>(win, p).
     rbind (NetParser_u16 p) (\<lambda>(cksum, p).
     rbind (NetParser_u16 p) (\<lambda>(uptr, p).
     let h = \<lparr>th_sport = sport, th_dport = dport, th_seqno = WrappingInt32 seqno,
               th_ackno = WrappingInt32 ackno, th_doff = drop_bit 4 off_b,
               th_urg = (fl_b AND 0x20 \<noteq> 0), th_ack = (fl_b AND 0x10 \<noteq> 0),
               th_psh = (fl_b AND 0x08 \<noteq> 0), th_rst = (fl_b AND 0x04 \<noteq> 0),
               th_syn = (fl_b AND 0x02 \<noteq> 0), th_fin = (fl_b AND 0x01 \<noteq> 0),
               th_win = win, th_cksum = cksum, th_uptr = uptr\<rparr>
     in if th_doff h < 5 then Inr (HeaderTooShort, h, p)
        else rbind (NetParser_remove_prefix (ucast (th_doff h) * 4 - TCPHeader_LENGTH) p) (\<lambda>p.
             if np_error p \<noteq> NoError then Inr (np_error p, h, p) else Inr (NoError, h, p)))))))))))"

text \<open>\<^verbatim>\<open>std::string::resize\<close>, which truncates or pads with zero bytes.\<close>

definition string_resize :: "bytes \<Rightarrow> nat \<Rightarrow> bytes" where
  "string_resize s n = take n s @ replicate (n - length s) 0"

definition TCPHeader_flags :: "tcp_header \<Rightarrow> u8" where
  "TCPHeader_flags h =
     ((if th_urg h then 0x20 else 0) OR (if th_ack h then 0x10 else 0) OR (if th_psh h then 0x08 else 0) OR
      (if th_rst h then 0x04 else 0) OR (if th_syn h then 0x02 else 0) OR (if th_fin h then 0x01 else 0))"

definition TCPHeader_serialize :: "tcp_header \<Rightarrow> bytes res" where
  "TCPHeader_serialize h =
     (if th_doff h < 5 then Inl (Runtime_error ''TCP header too short'')
      else
        let ret = [];
            ret = NetUnparser_u16 ret (th_sport h);
            ret = NetUnparser_u16 ret (th_dport h);
            ret = NetUnparser_u32 ret (raw_value (th_seqno h));
            ret = NetUnparser_u32 ret (raw_value (th_ackno h));
            ret = NetUnparser_u8 ret (push_bit 4 (th_doff h));
            ret = NetUnparser_u8 ret (TCPHeader_flags h);
            ret = NetUnparser_u16 ret (th_win h);
            ret = NetUnparser_u16 ret (th_cksum h);
            ret = NetUnparser_u16 ret (th_uptr h)
        in Inr (string_resize ret (4 * unat (th_doff h))))"

definition TCPHeader_eq :: "tcp_header \<Rightarrow> tcp_header \<Rightarrow> bool" where
  "TCPHeader_eq h other \<longleftrightarrow>
     th_seqno h = th_seqno other \<and> th_ackno h = th_ackno other \<and> th_doff h = th_doff other \<and>
     th_urg h = th_urg other \<and> th_ack h = th_ack other \<and> th_psh h = th_psh other \<and>
     th_rst h = th_rst other \<and> th_syn h = th_syn other \<and> th_fin h = th_fin other \<and>
     th_win h = th_win other \<and> th_uptr h = th_uptr other"

subsection \<open>Segment\<close>

record tcp_segment =
  ts_header :: tcp_header
  ts_payload :: buffer

definition TCPSegment_new :: tcp_segment where
  "TCPSegment_new = \<lparr>ts_header = TCPHeader_new, ts_payload = Buffer_default\<rparr>"

definition TCPSegment_parse :: "tcp_segment \<Rightarrow> buffer \<Rightarrow> u32 \<Rightarrow> (ParseResult \<times> tcp_segment) res" where
  "TCPSegment_parse seg buf datagram_layer_checksum =
     (let check = InternetChecksum_add (InternetChecksum_new datagram_layer_checksum) (Buffer_str buf) in
      if InternetChecksum_value check \<noteq> 0 then Inr (BadChecksum, seg)
      else rbind (TCPHeader_parse (NetParser_new buf)) (\<lambda>(_, h, p).
           Inr (np_error p, \<lparr>ts_header = h, ts_payload = np_buffer p\<rparr>)))"

definition TCPSegment_length_in_sequence_space :: "tcp_segment \<Rightarrow> u64" where
  "TCPSegment_length_in_sequence_space seg =
     size64 (Buffer_str (ts_payload seg)) + (if th_syn (ts_header seg) then 1 else 0) +
     (if th_fin (ts_header seg) then 1 else 0)"

definition TCPSegment_serialize :: "tcp_segment \<Rightarrow> u32 \<Rightarrow> buffer_list res" where
  "TCPSegment_serialize seg datagram_layer_checksum =
     (let header_out = (ts_header seg)\<lparr>th_cksum := 0\<rparr> in
      rbind (TCPHeader_serialize header_out) (\<lambda>header_zero.
      let check = InternetChecksum_add (InternetChecksum_new datagram_layer_checksum) header_zero;
          check = InternetChecksum_add check (Buffer_str (ts_payload seg));
          header_out = header_out\<lparr>th_cksum := InternetChecksum_value check\<rparr>
      in rbind (TCPHeader_serialize header_out) (\<lambda>header_ser.
         Inr (BufferList_append (BufferList_append [] [Buffer_of header_ser]) [ts_payload seg]))))"

subsection \<open>Round trip of the header\<close>

definition tcp_fields :: "tcp_header \<Rightarrow> bytes" where
  "tcp_fields h = NetUnparser_unparse_int (th_sport h) @ NetUnparser_unparse_int (th_dport h) @
     NetUnparser_unparse_int (raw_value (th_seqno h)) @ NetUnparser_unparse_int (raw_value (th_ackno h)) @
     NetUnparser_unparse_int (push_bit 4 (th_doff h)) @ NetUnparser_unparse_int (TCPHeader_flags h) @
     NetUnparser_unparse_int (th_win h) @ NetUnparser_unparse_int (th_cksum h) @ NetUnparser_unparse_int (th_uptr h)"

lemmas unparse_lengths [simp] = n8.enc_length n16.enc_length n32.enc_length

lemma length_tcp_fields [simp]: "length (tcp_fields h) = 20"
  by (simp add: tcp_fields_def)

lemma tcp_serialize_eq:
  "TCPHeader_serialize h =
     (if th_doff h < 5 then Inl (Runtime_error ''TCP header too short'')
      else Inr (tcp_fields h @ replicate (4 * unat (th_doff h) - 20) 0))"
proof -
  have "20 \<le> 4 * unat (th_doff h)" if "\<not> th_doff h < 5"
    using that by (simp add: not_less word_le_nat_alt)
  then have "string_resize (tcp_fields h) (4 * unat (th_doff h)) = tcp_fields h @ replicate (4 * unat (th_doff h) - 20) 0"
    if "\<not> th_doff h < 5" using that by (simp add: string_resize_def)
  then show ?thesis
    unfolding tcp_fields_def by (simp add: TCPHeader_serialize_def Let_def unparse_append)
qed

lemma tcp_flags_bits:
  "(TCPHeader_flags h AND 0x20 \<noteq> 0) = th_urg h" "(TCPHeader_flags h AND 0x10 \<noteq> 0) = th_ack h"
  "(TCPHeader_flags h AND 0x08 \<noteq> 0) = th_psh h" "(TCPHeader_flags h AND 0x04 \<noteq> 0) = th_rst h"
  "(TCPHeader_flags h AND 0x02 \<noteq> 0) = th_syn h" "(TCPHeader_flags h AND 0x01 \<noteq> 0) = th_fin h"
  unfolding TCPHeader_flags_def
  by (cases "th_urg h"; cases "th_ack h"; cases "th_psh h"; cases "th_rst h"; cases "th_syn h"; cases "th_fin h";
      simp)+

lemma drop_push_4: "unat (d :: u8) < 16 \<Longrightarrow> drop_bit 4 (push_bit 4 d) = d"
proof -
  assume d: "unat d < 16"
  have p: "unat (push_bit 4 d) = 16 * unat d" using d by (simp add: push_bit_eq_mult unat_word_ariths)
  have "unat (drop_bit 4 (push_bit 4 d)) = unat d" by (simp add: drop_bit_eq_div unat_div p)
  then show ?thesis by (simp add: word_unat_eq_iff)
qed

text \<open>Parsing the fields of a header, whatever follows them.\<close>

lemma tcp_parse_fields:
  assumes at: "np_at p (tcp_fields h @ s)" and doff: "unat (th_doff h) < 16"
  obtains p' where "np_at p' s"
    "TCPHeader_parse p =
       (if th_doff h < 5 then Inr (HeaderTooShort, h, p')
        else rbind (NetParser_remove_prefix (ucast (th_doff h) * 4 - TCPHeader_LENGTH) p') (\<lambda>p.
             if np_error p \<noteq> NoError then Inr (np_error p, h, p) else Inr (NoError, h, p)))"
proof -
  have h: "\<lparr>th_sport = th_sport h, th_dport = th_dport h, th_seqno = WrappingInt32 (raw_value (th_seqno h)),
      th_ackno = WrappingInt32 (raw_value (th_ackno h)), th_doff = drop_bit 4 (push_bit 4 (th_doff h)),
      th_urg = (TCPHeader_flags h AND 0x20 \<noteq> 0), th_ack = (TCPHeader_flags h AND 0x10 \<noteq> 0),
      th_psh = (TCPHeader_flags h AND 0x08 \<noteq> 0), th_rst = (TCPHeader_flags h AND 0x04 \<noteq> 0),
      th_syn = (TCPHeader_flags h AND 0x02 \<noteq> 0), th_fin = (TCPHeader_flags h AND 0x01 \<noteq> 0),
      th_win = th_win h, th_cksum = th_cksum h, th_uptr = th_uptr h\<rparr> = h"
    by (simp add: tcp_flags_bits drop_push_4 [OF doff])
  let ?k = "\<lambda>p'. if th_doff h < 5 then Inr (HeaderTooShort, h, p')
        else rbind (NetParser_remove_prefix (ucast (th_doff h) * 4 - TCPHeader_LENGTH) p') (\<lambda>p.
             if np_error p \<noteq> NoError then Inr (np_error p, h, p) else Inr (NoError, h, p))"
  let ?P = "\<lambda>x. \<exists>p'. np_at p' s \<and> x = ?k p'"
  have "?P (TCPHeader_parse p)"
    unfolding TCPHeader_parse_def using at unfolding tcp_fields_def append_assoc
    by - ((rule n16.dec_run [where P = ?P] n32.dec_run [where P = ?P] n8.dec_run [where P = ?P],
        assumption, unfold prod.case)+, unfold Let_def tcp_header.select_convs h, blast)
  with that show thesis by blast
qed

lemma doff_skip:
  assumes "\<not> (d :: u8) < 5"
  shows "unat (ucast d * 4 - TCPHeader_LENGTH) = 4 * unat d - 20"
proof -
  have d: "5 \<le> unat d" using assms by (simp add: not_less word_le_nat_alt)
  have u: "unat (ucast d :: u64) = unat d" by (simp add: unat_ucast)
  have four: "unat (4 :: u64) = 4" by simp
  have "unat (ucast d :: u64) * unat (4 :: u64) < 18446744073709551616"
    unfolding u four using unat8_lt [of d] by linarith
  then have "unat (ucast d * 4 :: u64) = 4 * unat d" by (simp add: unat_mult_nowrap u)
  then show ?thesis using d by (simp add: TCPHeader_LENGTH_def unat_sub_nowrap)
qed

lemma tcp_header_roundtrip:
  assumes "TCPHeader_serialize h = Inr hs" and "unat (th_doff h) < 16" and "np_at p (hs @ s)"
  obtains p' where "TCPHeader_parse p = Inr (NoError, h, p')" "np_at p' s"
proof -
  have d: "\<not> th_doff h < 5" and hs: "hs = tcp_fields h @ replicate (4 * unat (th_doff h) - 20) 0"
    using assms(1) by (simp_all add: tcp_serialize_eq split: if_splits)
  have "np_at p (tcp_fields h @ replicate (4 * unat (th_doff h) - 20) 0 @ s)" using assms(3) hs by simp
  from tcp_parse_fields [OF this assms(2)] d obtain p1 where
    p1: "np_at p1 (replicate (4 * unat (th_doff h) - 20) 0 @ s)"
    "TCPHeader_parse p = rbind (NetParser_remove_prefix (ucast (th_doff h) * 4 - TCPHeader_LENGTH) p1) (\<lambda>p.
             if np_error p \<noteq> NoError then Inr (np_error p, h, p) else Inr (NoError, h, p))" by auto
  obtain p' where p': "NetParser_remove_prefix (ucast (th_doff h) * 4 - TCPHeader_LENGTH) p1 = Inr p'" "np_at p' s"
    using remove_prefix_at [OF p1(1), of "ucast (th_doff h) * 4 - TCPHeader_LENGTH"] doff_skip [OF d] by auto
  then have "np_error p' = NoError" by (simp add: np_at_def)
  with p1(2) p' show thesis by (intro that [of p']) simp_all
qed

lemma tcp_header_parse_total:
  assumes "np_ok p"
  obtains r h p' where "TCPHeader_parse p = Inr (r, h, p')" "np_ok p'"
proof -
  let ?P = "\<lambda>x. \<exists>r h p'. x = Inr (r, h, p') \<and> np_ok p'"
  have last: "?P (if c then Inr (HeaderTooShort, h, p) else rbind (NetParser_remove_prefix n p)
      (\<lambda>p. if np_error p \<noteq> NoError then Inr (np_error p, h, p) else Inr (NoError, h, p)))"
    if ok: "np_ok p" for c h n p
  proof -
    obtain p' where "NetParser_remove_prefix n p = Inr p'" "np_ok p'" using remove_prefix_total [OF ok] by metis
    with ok show ?thesis by (cases c) auto
  qed
  have "?P (TCPHeader_parse p)"
    unfolding TCPHeader_parse_def using assms
    by - ((rule n16.dec_run_total [where P = ?P] n32.dec_run_total [where P = ?P] n8.dec_run_total [where P = ?P],
        assumption, unfold prod.case)+, unfold Let_def, rule last)
  with that show thesis by blast
qed

subsection \<open>Round trip of the segment\<close>

text \<open>A segment that the wire format can carry: 4 bits of data offset, 16 bits of length.\<close>

definition segment_ok :: "tcp_segment \<Rightarrow> bool" where
  "segment_ok seg \<longleftrightarrow> \<not> th_doff (ts_header seg) < 5 \<and> unat (th_doff (ts_header seg)) < 16 \<and>
     buffer_ok (ts_payload seg) \<and>
     4 * unat (th_doff (ts_header seg)) + length (Buffer_str (ts_payload seg)) \<le> 65535"

definition tcp_fields_pre :: "tcp_header \<Rightarrow> bytes" where
  "tcp_fields_pre h = NetUnparser_unparse_int (th_sport h) @ NetUnparser_unparse_int (th_dport h) @
     NetUnparser_unparse_int (raw_value (th_seqno h)) @ NetUnparser_unparse_int (raw_value (th_ackno h)) @
     NetUnparser_unparse_int (push_bit 4 (th_doff h)) @ NetUnparser_unparse_int (TCPHeader_flags h) @
     NetUnparser_unparse_int (th_win h)"

lemma tcp_fields_cksum:
  "tcp_fields (h\<lparr>th_cksum := c\<rparr>) = tcp_fields_pre h @ NetUnparser_unparse_int c @ NetUnparser_unparse_int (th_uptr h)"
  by (simp add: tcp_fields_def tcp_fields_pre_def TCPHeader_flags_def)

lemma length_tcp_fields_pre [simp]: "length (tcp_fields_pre h) = 16"
  by (simp add: tcp_fields_pre_def)

lemma unparse_zero16: "NetUnparser_unparse_int (0 :: u16) = [0, 0]"
  by (simp add: unparse_int_eq be_bytes_def upt_rec)

text \<open>The bytes of a serialized segment, with a checksum that verifies.\<close>

lemma segment_serialize_ok:
  assumes ok: "segment_ok seg" and s: "unat s < 1000000"
  obtains bl c hs where "TCPSegment_serialize seg s = Inr bl" "buffer_list_ok bl"
    "TCPHeader_serialize ((ts_header seg)\<lparr>th_cksum := c\<rparr>) = Inr hs"
    "BufferList_concatenate bl = hs @ Buffer_str (ts_payload seg)"
    "InternetChecksum_value (InternetChecksum_add (InternetChecksum_new s) (hs @ Buffer_str (ts_payload seg))) = 0"
    "length hs = 4 * unat (th_doff (ts_header seg))"
proof -
  let ?h = "ts_header seg" and ?pl = "Buffer_str (ts_payload seg)"
  let ?pad = "replicate (4 * unat (th_doff ?h) - 20) 0 :: bytes"
  let ?post = "NetUnparser_unparse_int (th_uptr ?h) @ ?pad @ ?pl"
  have d: "\<not> th_doff ?h < 5" and len: "4 * unat (th_doff ?h) + length ?pl \<le> 65535"
    using ok by (simp_all add: segment_ok_def)
  then have d5: "20 \<le> 4 * unat (th_doff ?h)" by (simp add: not_less word_le_nat_alt)
  have ser: "TCPHeader_serialize (?h\<lparr>th_cksum := c\<rparr>) =
      Inr (tcp_fields_pre ?h @ NetUnparser_unparse_int c @ NetUnparser_unparse_int (th_uptr ?h) @ ?pad)" for c
    using d by (simp add: tcp_serialize_eq tcp_fields_cksum)
  define c where "c = InternetChecksum_value (InternetChecksum_add (InternetChecksum_new s)
      (tcp_fields_pre ?h @ [0, 0] @ ?post))"
  define hs where "hs = tcp_fields_pre ?h @ NetUnparser_unparse_int c @ NetUnparser_unparse_int (th_uptr ?h) @ ?pad"
  have hs_len: "length hs = 4 * unat (th_doff ?h)" using d5 by (simp add: hs_def)
  have "TCPSegment_serialize seg s = Inr [Buffer_of hs, ts_payload seg]"
    by (simp add: TCPSegment_serialize_def ser checksum_add_append unparse_zero16 c_def hs_def)
  moreover have "buffer_list_ok [Buffer_of hs, ts_payload seg]"
    "BufferList_concatenate [Buffer_of hs, ts_payload seg] = hs @ ?pl"
    using ok len hs_len by (simp_all add: segment_ok_def BufferList_concatenate_eq)
  moreover have "InternetChecksum_value (InternetChecksum_add (InternetChecksum_new s)
      (tcp_fields_pre ?h @ NetUnparser_unparse_int c @ ?post)) = 0"
    unfolding c_def
  proof (rule checksum_fills)
    have small: "unat s + 65280 * m + 65535 < 4294967296" if "m \<le> 65533" for m using that s by linarith
    show "unat s + 65280 * (length (tcp_fields_pre ?h) + length ?post) + 65535 < 4294967296"
      by (rule small) (use d5 len in simp)
  qed simp
  ultimately show thesis
    using hs_len by (intro that [of "[Buffer_of hs, ts_payload seg]" c hs]) (simp_all add: ser hs_def)
qed

text \<open>The fields of a segment that parsing gives back, with the checksum \<open>c\<close>.\<close>

definition same_segment :: "tcp_segment \<Rightarrow> u16 \<Rightarrow> tcp_segment \<Rightarrow> bool" where
  "same_segment seg c seg' \<longleftrightarrow> ts_header seg' = (ts_header seg)\<lparr>th_cksum := c\<rparr> \<and>
     buffer_ok (ts_payload seg') \<and> Buffer_str (ts_payload seg') = Buffer_str (ts_payload seg)"

lemma segment_roundtrip:
  assumes ok: "segment_ok seg" and s: "unat s < 1000000"
  obtains bl c where "TCPSegment_serialize seg s = Inr bl" "buffer_list_ok bl"
    "length (BufferList_concatenate bl) = 4 * unat (th_doff (ts_header seg)) + length (Buffer_str (ts_payload seg))"
    "\<And>seg0 b. buffer_ok b \<Longrightarrow> Buffer_str b = BufferList_concatenate bl \<Longrightarrow>
       \<exists>seg'. TCPSegment_parse seg0 b s = Inr (NoError, seg') \<and> same_segment seg c seg'"
proof -
  obtain bl c hs where bl: "TCPSegment_serialize seg s = Inr bl" "buffer_list_ok bl"
    and hs: "TCPHeader_serialize ((ts_header seg)\<lparr>th_cksum := c\<rparr>) = Inr hs"
      "BufferList_concatenate bl = hs @ Buffer_str (ts_payload seg)"
      "InternetChecksum_value (InternetChecksum_add (InternetChecksum_new s) (hs @ Buffer_str (ts_payload seg))) = 0"
      "length hs = 4 * unat (th_doff (ts_header seg))"
    by (rule segment_serialize_ok [OF ok s])
  have "\<exists>seg'. TCPSegment_parse seg0 b s = Inr (NoError, seg') \<and> same_segment seg c seg'"
    if b: "buffer_ok b" "Buffer_str b = BufferList_concatenate bl" for seg0 b
  proof -
    have "np_at (NetParser_new b) (hs @ Buffer_str (ts_payload seg))"
      using np_at_new [OF b(1)] b(2) hs(2) by simp
    moreover have "unat (th_doff ((ts_header seg)\<lparr>th_cksum := c\<rparr>)) < 16" using ok by (simp add: segment_ok_def)
    ultimately obtain p' where
      p': "TCPHeader_parse (NetParser_new b) = Inr (NoError, (ts_header seg)\<lparr>th_cksum := c\<rparr>, p')"
        "np_at p' (Buffer_str (ts_payload seg))"
      using tcp_header_roundtrip [OF hs(1)] by blast
    then show ?thesis
      using b(2) hs(2,3) by (auto simp: TCPSegment_parse_def same_segment_def np_at_def np_ok_def np_str_def)
  qed
  then show thesis using bl hs(2,4) by (intro that [of bl c]) simp_all
qed

text \<open>
  C32. The round trip of a TCP segment: serializing a segment that the format can carry
  succeeds, and parsing the bytes with the same pseudo-header sum accepts them and gives back
  every field of the header, with the checksum filled in, and the payload, whatever segment
  object the parser writes into.
\<close>

theorem tcp_segment_roundtrip:
  assumes "segment_ok seg" and "unat s < 1000000"
  shows "\<exists>bl c. TCPSegment_serialize seg s = Inr bl \<and>
     (\<forall>seg0. \<exists>seg'. TCPSegment_parse seg0 (Buffer_of (BufferList_concatenate bl)) s = Inr (NoError, seg') \<and>
        same_segment seg c seg')"
proof -
  obtain bl c where bl: "TCPSegment_serialize seg s = Inr bl"
    "length (BufferList_concatenate bl) = 4 * unat (th_doff (ts_header seg)) + length (Buffer_str (ts_payload seg))"
    "\<And>seg0 b. buffer_ok b \<Longrightarrow> Buffer_str b = BufferList_concatenate bl \<Longrightarrow>
       \<exists>seg'. TCPSegment_parse seg0 b s = Inr (NoError, seg') \<and> same_segment seg c seg'"
    using segment_roundtrip [OF assms] by metis
  then have short: "str_ok (BufferList_concatenate bl)" using assms(1) by (simp add: segment_ok_def)
  have "\<exists>seg'. TCPSegment_parse seg0 (Buffer_of (BufferList_concatenate bl)) s = Inr (NoError, seg') \<and>
      same_segment seg c seg'" for seg0
    by (rule bl(3)) (simp_all add: short)
  with bl(1) show ?thesis by blast
qed

theorem tcp_segment_roundtrip_witness:
  "\<exists>bl c. TCPSegment_serialize (TCPSegment_new\<lparr>ts_payload := Buffer_of [104, 105]\<rparr>) 7 = Inr bl \<and>
     (\<forall>seg0. \<exists>seg'. TCPSegment_parse seg0 (Buffer_of (BufferList_concatenate bl)) 7 = Inr (NoError, seg') \<and>
        same_segment (TCPSegment_new\<lparr>ts_payload := Buffer_of [104, 105]\<rparr>) c seg')"
  by (rule tcp_segment_roundtrip) (simp_all add: segment_ok_def TCPSegment_new_def TCPHeader_new_def)

text \<open>
  A finding: \<^verbatim>\<open>TCPSegment::parse\<close> drops the result of \<^verbatim>\<open>TCPHeader::parse\<close>. A segment whose
  data offset is below the minimum of 5, which the header parser rejects as
  \<^verbatim>\<open>HeaderTooShort\<close>, is accepted with \<^verbatim>\<open>NoError\<close> as soon as its checksum verifies, and what follows
  the first 20 bytes is taken as its payload.
\<close>

theorem short_doff_accepted:
  assumes "unat (th_doff h) < 5" and "str_ok (tcp_fields h @ rest)"
    and "InternetChecksum_value (InternetChecksum_add (InternetChecksum_new s) (tcp_fields h @ rest)) = 0"
  shows "\<exists>seg' p. TCPHeader_parse (NetParser_new (Buffer_of (tcp_fields h @ rest))) = Inr (HeaderTooShort, h, p) \<and>
     TCPSegment_parse seg0 (Buffer_of (tcp_fields h @ rest)) s = Inr (NoError, seg') \<and>
     ts_header seg' = h \<and> Buffer_str (ts_payload seg') = rest"
proof -
  let ?b = "Buffer_of (tcp_fields h @ rest)"
  have at: "np_at (NetParser_new ?b) (tcp_fields h @ rest)"
    using np_at_new [of ?b] assms(2) by simp
  have "unat (th_doff h) < 16" "th_doff h < 5" using assms(1) by (simp_all add: word_less_nat_alt)
  with tcp_parse_fields [OF at] obtain p where
    "np_at p rest" "TCPHeader_parse (NetParser_new ?b) = Inr (HeaderTooShort, h, p)" by auto
  then show ?thesis
    using assms(2,3) by (auto simp: TCPSegment_parse_def np_at_def np_str_def)
qed

theorem short_doff_accepted_witness:
  "\<exists>seg' p. TCPHeader_parse (NetParser_new (Buffer_of (tcp_fields (TCPHeader_new\<lparr>th_doff := 0, th_cksum := 0xffff\<rparr>) @ []))) =
       Inr (HeaderTooShort, TCPHeader_new\<lparr>th_doff := 0, th_cksum := 0xffff\<rparr>, p) \<and>
     TCPSegment_parse TCPSegment_new (Buffer_of (tcp_fields (TCPHeader_new\<lparr>th_doff := 0, th_cksum := 0xffff\<rparr>) @ [])) 0 =
       Inr (NoError, seg') \<and>
     ts_header seg' = TCPHeader_new\<lparr>th_doff := 0, th_cksum := 0xffff\<rparr> \<and> Buffer_str (ts_payload seg') = []"
proof (rule short_doff_accepted)
  show "InternetChecksum_value (InternetChecksum_add (InternetChecksum_new 0)
      (tcp_fields (TCPHeader_new\<lparr>th_doff := 0, th_cksum := 0xffff\<rparr>) @ [])) = 0"
    by code_simp
qed simp_all

end
