(* ===== verification/TCP_Receiver.thy ===== *)
theory TCP_Receiver
  imports Reassembly TCP_Segment
begin

text \<open>
  \<^verbatim>\<open>libsponge/tcp_receiver.hh\<close> and \<^verbatim>\<open>tcp_receiver.cc\<close>: the receiver turns segments into substrings for
  the reassembler and computes the acknowledgment number and the window. A segment is
  \<open>genuine\<close> for a stream \<open>S\<close> when it carries the bytes of \<open>S\<close> that its sequence number says; the
  properties are about every run in which genuine segments arrive in any order.
\<close>

subsection \<open>State and operations\<close>

record tcp_receiver =
  rc_reassembler :: reassembler
  rc_capacity :: u64
  rc_ack :: WrappingInt32
  rc_isn :: WrappingInt32
  rc_exp_ack :: u64
  rc_checkpoint :: u64
  rc_syn :: bool
  rc_end :: bool

definition TCPReceiver_new :: "u64 \<Rightarrow> tcp_receiver" where
  "TCPReceiver_new capacity =
     \<lparr>rc_reassembler = StreamReassembler_new capacity, rc_capacity = capacity, rc_ack = WrappingInt32 0,
      rc_isn = WrappingInt32 0, rc_exp_ack = 0, rc_checkpoint = 0, rc_syn = False, rc_end = False\<rparr>"

definition TCPReceiver_segment_received :: "tcp_receiver \<Rightarrow> tcp_segment \<Rightarrow> tcp_receiver res" where
  "TCPReceiver_segment_received r seg =
     (let h = ts_header seg in
      if th_syn h \<and> rc_syn r then Inr r
      else
        let r = (if th_syn h then r\<lparr>rc_isn := th_seqno h, rc_syn := True\<rparr> else r) in
        if rc_syn r then
          let r = r\<lparr>rc_checkpoint := unwrap (th_seqno h) (rc_isn r) (rc_checkpoint r)\<rparr>;
              payload = Buffer_copy (ts_payload seg);
              r = (if th_fin h then r\<lparr>rc_end := True\<rparr> else r)
          in
          rbind (StreamReassembler_push_substring (rc_reassembler r) payload
                   (if th_syn h then 0 else rc_checkpoint r - 1) (rc_end r)) (\<lambda>ra.
          let r = r\<lparr>rc_reassembler := ra, rc_exp_ack := bs_total_written_bytes (ra_output ra) + 1\<rparr>;
              r = (if rc_end r \<and> StreamReassembler_empty ra then r\<lparr>rc_exp_ack := rc_exp_ack r + 1\<rparr> else r)
          in Inr (r\<lparr>rc_ack := wrap (rc_exp_ack r) (rc_isn r)\<rparr>))
        else Inr r)"

definition TCPReceiver_ackno :: "tcp_receiver \<Rightarrow> WrappingInt32 option" where
  "TCPReceiver_ackno r = (if rc_syn r then Some (rc_ack r) else None)"

definition TCPReceiver_window_size :: "tcp_receiver \<Rightarrow> u64" where
  "TCPReceiver_window_size r = rc_capacity r - ByteStream_buffer_size (ra_output (rc_reassembler r))"

definition TCPReceiver_unassembled_bytes :: "tcp_receiver \<Rightarrow> u64" where
  "TCPReceiver_unassembled_bytes r = ra_unassembled_bytes (rc_reassembler r)"

subsection \<open>Genuine segments\<close>

text \<open>
  The segment at the absolute sequence number \<open>q\<close> of a sender with initial sequence number \<open>isn\<close>
  and stream \<open>S\<close>: the SYN is number 0, byte \<open>i\<close> of \<open>S\<close> is number \<open>i + 1\<close>.
\<close>

definition genuine :: "WrappingInt32 \<Rightarrow> bytes \<Rightarrow> nat \<Rightarrow> tcp_segment \<Rightarrow> bool" where
  "genuine isn S q seg \<longleftrightarrow>
     th_seqno (ts_header seg) = wrap (of_nat q) isn \<and> buffer_ok (ts_payload seg) \<and>
     q \<le> length S + 2 \<and> (th_syn (ts_header seg) \<longrightarrow> q = 0) \<and>
     (let d = Buffer_str (ts_payload seg) in
      d = [] \<or> (q = 0 \<longrightarrow> th_syn (ts_header seg)) \<and> q - 1 + length d \<le> length S \<and> d = chunk S (q - 1) (length d))"

lemma genuine_data:
  assumes "genuine isn S q seg"
  defines "d \<equiv> Buffer_str (ts_payload seg)"
  shows "d = chunk S (q - 1) (length d)" "length d = 0 \<or> q - 1 + length d \<le> length S"
  using assms by (auto simp: genuine_def Let_def chunk_def)

text \<open>The expected acknowledgment: everything before the first byte not yet written, and the FIN.\<close>

definition rc_expected :: "tcp_receiver \<Rightarrow> nat" where
  "rc_expected r = ra_next (rc_reassembler r) + 1 +
     (if rc_end r \<and> StreamReassembler_empty (rc_reassembler r) then 1 else 0)"

definition rc_inv :: "u64 \<Rightarrow> WrappingInt32 \<Rightarrow> bytes \<Rightarrow> tcp_receiver \<times> bytes \<Rightarrow> bool" where
  "rc_inv c isn S = (\<lambda>(r, out). ra_data c S (rc_reassembler r, out) \<and> rc_capacity r = c \<and>
     unat (rc_checkpoint r) \<le> length S + 2 \<and>
     (rc_syn r \<longrightarrow> rc_isn r = isn \<and> rc_ack r = wrap (of_nat (rc_expected r)) isn))"

text \<open>The streams whose sequence numbers unwrap without ambiguity.\<close>

definition stream_fits :: "u64 \<Rightarrow> bytes \<Rightarrow> bool" where
  "stream_fits c S \<longleftrightarrow> length S < 2147483640 \<and> unat c < 9223372036854775808"

lemma stream_fits_bound: "stream_fits c S \<Longrightarrow> 2 * length S + unat c < 18446744073709551616"
  by (simp add: stream_fits_def)

lemma unwrap_genuine:
  assumes "q \<le> length S + 2" and "unat cp \<le> length S + 2" and "stream_fits c S"
  shows "unwrap (wrap (of_nat q) isn) isn cp = of_nat q" and "unat (of_nat q :: u64) = q"
proof -
  show q: "unat (of_nat q :: u64) = q" using assms by (simp add: stream_fits_def unat_of_nat)
  show "unwrap (wrap (of_nat q) isn) isn cp = of_nat q"
  proof (rule sq.un_wr)
    show "unat cp + 8589934592 \<le> 18446744073709551616" using assms by (simp add: stream_fits_def)
    show "\<bar>int (unat (of_nat q :: u64)) - int (unat cp)\<bar> < 2147483648"
      using assms unfolding q stream_fits_def by linarith
  qed
qed

lemma wrap_0: "wrap 0 isn = isn"
  by (cases isn) (simp add: wrap_eq)

text \<open>The push that a segment causes, once the connection has its initial sequence number.\<close>

definition rc_index :: "tcp_segment \<Rightarrow> u64 \<Rightarrow> u64" where
  "rc_index seg cp = (if th_syn (ts_header seg) then 0 else cp - 1)"

definition rc_after :: "tcp_receiver \<Rightarrow> bool \<Rightarrow> WrappingInt32 \<Rightarrow> u64 \<Rightarrow> reassembler \<Rightarrow> tcp_receiver" where
  "rc_after r ended isn cp ra =
     (let x = bs_total_written_bytes (ra_output ra) + 1 + (if ended \<and> StreamReassembler_empty ra then 1 else 0)
      in r\<lparr>rc_reassembler := ra, rc_ack := wrap x isn, rc_isn := isn, rc_exp_ack := x, rc_checkpoint := cp,
           rc_syn := True, rc_end := ended\<rparr>)"

lemma segment_received_push:
  assumes "\<not> (th_syn (ts_header seg) \<and> rc_syn r)" and "th_syn (ts_header seg) \<or> rc_syn r"
    and isn: "(if th_syn (ts_header seg) then th_seqno (ts_header seg) else rc_isn r) = isn"
    and cp: "unwrap (th_seqno (ts_header seg)) isn (rc_checkpoint r) = cp"
    and push: "StreamReassembler_push_substring (rc_reassembler r) (Buffer_str (ts_payload seg)) (rc_index seg cp)
           (rc_end r \<or> th_fin (ts_header seg)) = Inr ra"
  shows "TCPReceiver_segment_received r seg = Inr (rc_after r (rc_end r \<or> th_fin (ts_header seg)) isn cp ra)"
proof (cases "th_syn (ts_header seg)")
  case True
  then show ?thesis
    using assms by (cases "th_fin (ts_header seg)")
      (simp_all add: TCPReceiver_segment_received_def rc_index_def rc_after_def Buffer_copy_def Let_def)
next
  case False
  obtain a c b i x k y e where r: "r = \<lparr>rc_reassembler = a, rc_capacity = c, rc_ack = b, rc_isn = i, rc_exp_ack = x,
      rc_checkpoint = k, rc_syn = y, rc_end = e\<rparr>" by (cases r)
  show ?thesis
    using assms False unfolding r by (cases "th_fin (ts_header seg)")
      (simp_all add: TCPReceiver_segment_received_def rc_index_def rc_after_def Buffer_copy_def Let_def)
qed

lemma rc_after_expected:
  assumes "reassembler_ok ra"
  shows "rc_ack (rc_after r ended isn cp ra) = wrap (of_nat (rc_expected (rc_after r ended isn cp ra))) isn"
proof -
  have "bs_total_written_bytes (ra_output ra) = of_nat (ra_next ra)"
    using assms by (simp add: reassembler_ok_def ra_next_def)
  then show ?thesis by (simp add: rc_after_def rc_expected_def Let_def add.commute)
qed

lemma rc_inv_received:
  assumes inv: "rc_inv c isn S (r, out)" and fits: "stream_fits c S" and seg: "genuine isn S q seg"
  obtains r' where "TCPReceiver_segment_received r seg = Inr r'" "rc_inv c isn S (r', out)"
proof (cases "th_syn (ts_header seg) \<longleftrightarrow> rc_syn r")
  case True
  then have "TCPReceiver_segment_received r seg = Inr r"
    by (auto simp: TCPReceiver_segment_received_def Let_def)
  with inv that show thesis by blast
next
  case False
  let ?d = "Buffer_str (ts_payload seg)" and ?h = "ts_header seg"
  have q: "th_seqno ?h = wrap (of_nat q) isn" "th_syn ?h \<Longrightarrow> q = 0" "q \<le> length S + 2"
    and q0: "?d = [] \<or> (q = 0 \<longrightarrow> th_syn ?h)"
    using seg by (auto simp: genuine_def Let_def)
  have cp: "unat (rc_checkpoint r) \<le> length S + 2" and data: "ra_data c S (rc_reassembler r, out)"
    and cap: "rc_capacity r = c" and old: "rc_syn r \<Longrightarrow> rc_isn r = isn"
    using inv by (simp_all add: rc_inv_def)
  have isn: "(if th_syn ?h then th_seqno ?h else rc_isn r) = isn"
    using q False old by (auto simp: wrap_0)
  have un: "unwrap (th_seqno ?h) isn (rc_checkpoint r) = of_nat q"
    using unwrap_genuine [OF q(3) cp fits] q(1) by simp
  have index: "?d = [] \<or> unat (rc_index seg (of_nat q)) = q - 1"
    using unwrap_genuine(2) [OF q(3) cp fits] q(2) q0
    by (auto simp: rc_index_def unat_sub_nowrap Suc_le_eq)
  have d: "?d = chunk S (unat (rc_index seg (of_nat q))) (length ?d)"
    "length ?d = 0 \<or> unat (rc_index seg (of_nat q)) + length ?d \<le> length S"
    using genuine_data [OF seg] index by (auto simp: chunk_def)
  obtain ra where ra: "StreamReassembler_push_substring (rc_reassembler r) ?d (rc_index seg (of_nat q))
      (rc_end r \<or> th_fin ?h) = Inr ra" "ra_data c S (ra, out)"
    using ra_data_push [OF data stream_fits_bound [OF fits] d(2), folded d(1)] by metis
  then have rok: "reassembler_ok ra" by (simp add: ra_data_def)
  let ?r' = "rc_after r (rc_end r \<or> th_fin ?h) isn (of_nat q) ra"
  have "TCPReceiver_segment_received r seg = Inr ?r'"
    by (rule segment_received_push [OF _ _ isn un ra(1)]) (use False in auto)
  moreover have "rc_inv c isn S (?r', out)"
    using ra(2) cap q(3) unwrap_genuine(2) [OF q(3) cp fits] rc_after_expected [OF rok]
    by (simp add: rc_inv_def) (simp add: rc_after_def Let_def)
  ultimately show thesis by (rule that)
qed

subsection \<open>Runs\<close>

inductive rc_step :: "WrappingInt32 \<Rightarrow> bytes \<Rightarrow> tcp_receiver \<times> bytes \<Rightarrow> tcp_receiver \<times> bytes \<Rightarrow> bool" for isn S where
  receive: "genuine isn S q seg \<Longrightarrow> TCPReceiver_segment_received r seg = Inr r' \<Longrightarrow>
    rc_step isn S (r, out) (r', out)"
| read: "ByteStream_read (ra_output (rc_reassembler r)) n = Inr (xs, s) \<Longrightarrow>
    rc_step isn S (r, out) (r\<lparr>rc_reassembler := (rc_reassembler r)\<lparr>ra_output := s\<rparr>\<rparr>, out @ xs)"

definition rc_init :: "u64 \<Rightarrow> bytes \<Rightarrow> tcp_receiver \<times> bytes \<Rightarrow> bool" where
  "rc_init c S = (\<lambda>s. s = (TCPReceiver_new c, []) \<and> stream_fits c S)"

lemma rc_inv_read:
  assumes inv: "rc_inv c isn S (r, out)" and read: "ByteStream_read (ra_output (rc_reassembler r)) n = Inr (xs, s)"
  shows "rc_inv c isn S (r\<lparr>rc_reassembler := (rc_reassembler r)\<lparr>ra_output := s\<rparr>\<rparr>, out @ xs)"
proof -
  have "ra_data c S ((rc_reassembler r)\<lparr>ra_output := s\<rparr>, out @ xs)"
    using inv by (intro ra_data_read(1) [OF _ read]) (simp add: rc_inv_def)
  with inv show ?thesis
    by (simp add: rc_inv_def rc_expected_def ra_next_def StreamReassembler_empty_def)
qed

interpretation rc: invariant_system "rc_init c S" "rc_step isn S"
  "\<lambda>s. stream_fits c S \<and> rc_inv c isn S s" for c S isn
proof
  fix s assume "rc_init c S s"
  then show "stream_fits c S \<and> rc_inv c isn S s"
    by (simp add: rc_init_def rc_inv_def ra_data_def TCPReceiver_new_def)
next
  fix s t assume "stream_fits c S \<and> rc_inv c isn S s" and "rc_step isn S s t"
  then show "stream_fits c S \<and> rc_inv c isn S t"
    by (auto elim!: rc_step.cases intro: rc_inv_read elim: rc_inv_received)
qed


definition demo_syn :: tcp_segment where
  "demo_syn = TCPSegment_new\<lparr>ts_header := TCPHeader_new\<lparr>th_syn := True, th_seqno := WrappingInt32 9\<rparr>\<rparr>"


text \<open>
  C38. A finding: a FIN without data ends the stream wherever it lies. When nothing is
  pending, the receiver that gets such a segment ends its output and acknowledges the FIN,
  even if bytes before it are still missing: the acknowledgment number is the number of the
  next missing byte plus one, so that the sender takes that byte for delivered.
\<close>

theorem fin_overtakes_data:
  assumes "rc_syn r" and "reassembler_ok (rc_reassembler r)" and "covered (ra_buf (rc_reassembler r)) = {}"
    and "ra_limit (rc_reassembler r) < 18446744073709551616"
    and "\<not> th_syn (ts_header seg)" and "th_fin (ts_header seg)" and "Buffer_str (ts_payload seg) = []"
  shows "\<exists>r'. TCPReceiver_segment_received r seg = Inr r' \<and> bs_input_ended (ra_output (rc_reassembler r')) \<and>
     ra_next (rc_reassembler r') = ra_next (rc_reassembler r) \<and>
     TCPReceiver_ackno r' = Some (wrap (of_nat (ra_next (rc_reassembler r) + 2)) (rc_isn r))"
proof -
  let ?ra = "rc_reassembler r" and ?cp = "unwrap (th_seqno (ts_header seg)) (rc_isn r) (rc_checkpoint r)"
  have "ra_limit ?ra + length [] < 18446744073709551616" using assms(4) by simp
  from push_ok [OF assms(2) this, of "rc_index seg ?cp" True] obtain ra where
    ra: "StreamReassembler_push_substring ?ra [] (rc_index seg ?cp) True = Inr ra"
      "push_effect ?ra [] (rc_index seg ?cp) True ra" by metis
  then have adv: "advances ?ra {} ra" "ra_input_ended ra" "covered (ra_buf ra) = {}" "reassembler_ok ra"
    using assms(3) by (auto simp: push_effect_def push_closes_def arriving_def advances_def)
  then have n: "ra_next ra = ra_next ?ra" and e: "bs_input_ended (ra_output ra)"
    using ra(2) by (auto simp: push_effect_def push_accepted_def advances_def)
  have empty: "StreamReassembler_empty ra"
    using unassembled_bytes_card [OF adv(4)] adv(3) by (simp add: StreamReassembler_empty_def unat_eq_iff)
  have "TCPReceiver_segment_received r seg = Inr (rc_after r True (rc_isn r) ?cp ra)"
    using segment_received_push [of seg r "rc_isn r" ?cp ra] assms ra(1) by simp
  moreover have "rc_expected (rc_after r True (rc_isn r) ?cp ra) = ra_next ?ra + 2"
    using empty n by (simp add: rc_expected_def rc_after_def Let_def)
  ultimately show ?thesis
    using n e rc_after_expected [OF adv(4), of r True "rc_isn r" ?cp]
    by (simp add: TCPReceiver_ackno_def) (simp add: rc_after_def Let_def)
qed

theorem fin_overtakes_data_witness:
  "\<exists>r'. TCPReceiver_segment_received ((TCPReceiver_new 8)\<lparr>rc_syn := True\<rparr>)
        (TCPSegment_new\<lparr>ts_header := TCPHeader_new\<lparr>th_fin := True, th_seqno := WrappingInt32 5\<rparr>\<rparr>) = Inr r' \<and>
     bs_input_ended (ra_output (rc_reassembler r')) \<and>
     ra_next (rc_reassembler r') = ra_next (rc_reassembler ((TCPReceiver_new 8)\<lparr>rc_syn := True\<rparr>)) \<and>
     TCPReceiver_ackno r' = Some (wrap (of_nat (ra_next (rc_reassembler ((TCPReceiver_new 8)\<lparr>rc_syn := True\<rparr>)) + 2))
       (rc_isn ((TCPReceiver_new 8)\<lparr>rc_syn := True\<rparr>)))"
  by (rule fin_overtakes_data)
    (simp_all add: TCPReceiver_new_def TCPSegment_new_def TCPHeader_new_def)

end
