(* ===== verification/TCP_Sender.thy ===== *)
theory TCP_Sender
  imports TCP_Receiver
begin

text \<open>
  \<^verbatim>\<open>libsponge/tcp_sender.hh\<close> and \<^verbatim>\<open>tcp_sender.cc\<close>, with the constants of \<^verbatim>\<open>tcp_helpers/tcp_config.hh\<close>: the
  sender cuts the outgoing stream into segments within the receiver's window, keeps those
  not yet acknowledged in a map from the sequence number after their end, and retransmits
  the oldest one when its timer expires. The random initial sequence number is an argument of
  the constructor.
\<close>

subsection \<open>Configuration\<close>

definition DEFAULT_CAPACITY :: u64 where
  "DEFAULT_CAPACITY = 64000"

definition MAX_PAYLOAD_SIZE :: u64 where
  "MAX_PAYLOAD_SIZE = 1452"

definition TIMEOUT_DFLT :: u16 where
  "TIMEOUT_DFLT = 1000"

definition MAX_RETX_ATTEMPTS :: u32 where
  "MAX_RETX_ATTEMPTS = 8"

record tcp_config =
  cf_rt_timeout :: u16
  cf_recv_capacity :: u64
  cf_send_capacity :: u64
  cf_fixed_isn :: "WrappingInt32 option"

definition TCPConfig_new :: tcp_config where
  "TCPConfig_new = \<lparr>cf_rt_timeout = TIMEOUT_DFLT, cf_recv_capacity = DEFAULT_CAPACITY,
     cf_send_capacity = DEFAULT_CAPACITY, cf_fixed_isn = None\<rparr>"

subsection \<open>State and operations\<close>

record tcp_sender =
  sn_isn :: WrappingInt32
  sn_segments_out :: "tcp_segment list"
  sn_initial_retransmission_timeout :: u32
  sn_stream :: byte_stream
  sn_next_seqno :: u64
  sn_outstanding_segments :: "(u64 \<times> tcp_segment) list"
  sn_bytes_in_flight :: u64
  sn_syn :: bool
  sn_fin_sent :: bool
  sn_wdn_sz :: u16
  sn_abs_ackno :: u64
  sn_recv_wdn_sz :: u16
  sn_max_abs_seqno :: u64
  sn_rto :: u32
  sn_consecutive_retransmissions :: u32
  sn_elapsed_time :: u64
  sn_timer_on :: bool

definition TCPSender_new :: "u64 \<Rightarrow> u16 \<Rightarrow> WrappingInt32 option \<Rightarrow> u32 \<Rightarrow> tcp_sender" where
  "TCPSender_new capacity retx_timeout fixed_isn random =
     \<lparr>sn_isn = (case fixed_isn of Some isn \<Rightarrow> isn | None \<Rightarrow> WrappingInt32 random),
      sn_segments_out = [], sn_initial_retransmission_timeout = ucast retx_timeout,
      sn_stream = ByteStream_new capacity, sn_next_seqno = 0, sn_outstanding_segments = [],
      sn_bytes_in_flight = 0, sn_syn = False, sn_fin_sent = False, sn_wdn_sz = 1, sn_abs_ackno = 0,
      sn_recv_wdn_sz = 0, sn_max_abs_seqno = 0, sn_rto = 0, sn_consecutive_retransmissions = 0,
      sn_elapsed_time = 0, sn_timer_on = False\<rparr>"

definition TCPSender_next_seqno :: "tcp_sender \<Rightarrow> WrappingInt32" where
  "TCPSender_next_seqno s = wrap (sn_next_seqno s) (sn_isn s)"

definition TCPSender_send_segment :: "tcp_segment \<Rightarrow> tcp_sender \<Rightarrow> tcp_sender" where
  "TCPSender_send_segment segment s =
     (let segment = segment\<lparr>ts_header := (ts_header segment)\<lparr>th_seqno := TCPSender_next_seqno s\<rparr>\<rparr>;
          s = s\<lparr>sn_bytes_in_flight := sn_bytes_in_flight s + TCPSegment_length_in_sequence_space segment\<rparr>;
          s = s\<lparr>sn_next_seqno := sn_next_seqno s + TCPSegment_length_in_sequence_space segment\<rparr>;
          s = s\<lparr>sn_segments_out := sn_segments_out s @ [segment]\<rparr>;
          s = s\<lparr>sn_outstanding_segments := omap_insert (sn_next_seqno s) segment (sn_outstanding_segments s)\<rparr>
      in if \<not> sn_timer_on s
         then s\<lparr>sn_elapsed_time := 0, sn_rto := sn_initial_retransmission_timeout s, sn_timer_on := True\<rparr>
         else s)"

text \<open>One iteration of the loop of \<^verbatim>\<open>fill_window\<close>; \<^verbatim>\<open>segment\<close> is the local that all iterations share.\<close>

definition fill_body :: "tcp_segment \<Rightarrow> tcp_sender \<Rightarrow> (tcp_segment \<times> tcp_sender) res" where
  "fill_body segment s =
     rbind (ByteStream_read (sn_stream s)
              (if MAX_PAYLOAD_SIZE < ucast (sn_recv_wdn_sz s) then MAX_PAYLOAD_SIZE
               else ucast (sn_recv_wdn_sz s))) (\<lambda>(str, stream).
     let segment = segment\<lparr>ts_payload := Buffer_of str\<rparr>;
         s = s\<lparr>sn_stream := stream\<rparr>;
         s = s\<lparr>sn_recv_wdn_sz := sn_recv_wdn_sz s - ucast (TCPSegment_length_in_sequence_space segment)\<rparr>;
         (segment, s) =
           (if ByteStream_eof (sn_stream s) \<and> 0 < sn_recv_wdn_sz s
            then (segment\<lparr>ts_header := (ts_header segment)\<lparr>th_fin := True\<rparr>\<rparr>,
                  s\<lparr>sn_fin_sent := True, sn_recv_wdn_sz := sn_recv_wdn_sz s - 1\<rparr>)
            else (segment, s))
     in Inr (segment, if 0 < TCPSegment_length_in_sequence_space segment
                      then TCPSender_send_segment segment s else s))"

fun fill_loop :: "nat \<Rightarrow> tcp_segment \<Rightarrow> tcp_sender \<Rightarrow> (tcp_segment \<times> tcp_sender) res" where
  "fill_loop 0 segment s =
     (if 0 < ByteStream_buffer_size (sn_stream s) \<and> 0 < sn_recv_wdn_sz s
      then Inl (No_return ''fill_window'') else Inr (segment, s))"
| "fill_loop (Suc fuel) segment s =
     (if 0 < ByteStream_buffer_size (sn_stream s) \<and> 0 < sn_recv_wdn_sz s
      then rbind (fill_body segment s) (\<lambda>(segment, s). fill_loop fuel segment s)
      else Inr (segment, s))"

text \<open>
  Every iteration reads at least one of the bytes that the stream holds, so that as many
  iterations as it holds bytes are enough.
\<close>

definition TCPSender_fill_window :: "tcp_sender \<Rightarrow> tcp_sender res" where
  "TCPSender_fill_window s =
     (let segment = TCPSegment_new in
      if \<not> sn_syn s then
        let s = s\<lparr>sn_syn := True\<rparr>;
            segment = segment\<lparr>ts_header := (ts_header segment)\<lparr>th_syn := True\<rparr>\<rparr>
        in Inr (TCPSender_send_segment segment s)
      else
        rbind (fill_loop (unat (ByteStream_buffer_size (sn_stream s))) segment s) (\<lambda>(segment, s).
        if \<not> sn_fin_sent s \<and> ByteStream_eof (sn_stream s) \<and> 0 < sn_recv_wdn_sz s then
          let segment = segment\<lparr>ts_header := (ts_header segment)\<lparr>th_fin := True\<rparr>\<rparr>;
              s = s\<lparr>sn_recv_wdn_sz := sn_recv_wdn_sz s - 1\<rparr>;
              s = TCPSender_send_segment segment s
          in Inr (s\<lparr>sn_fin_sent := True\<rparr>)
        else Inr s))"

text \<open>The erasure of the segments up to the acknowledged one, with the bytes in flight.\<close>

definition ack_erase :: "u64 \<Rightarrow> tcp_sender \<Rightarrow> tcp_sender" where
  "ack_erase abs_ackno s =
     (case dropWhile (\<lambda>(k, _). k \<noteq> abs_ackno) (sn_outstanding_segments s) of
        [] \<Rightarrow> s
      | (_, seg) # rest \<Rightarrow>
          let before = takeWhile (\<lambda>(k, _). k \<noteq> abs_ackno) (sn_outstanding_segments s);
              in_flight = fold (\<lambda>(_, g) b. b - TCPSegment_length_in_sequence_space g) before (sn_bytes_in_flight s)
          in s\<lparr>sn_bytes_in_flight := in_flight - TCPSegment_length_in_sequence_space seg,
               sn_outstanding_segments := rest\<rparr>)"

definition TCPSender_ack_received :: "WrappingInt32 \<Rightarrow> u16 \<Rightarrow> tcp_sender \<Rightarrow> tcp_sender res" where
  "TCPSender_ack_received ackno window_size s =
     (let abs_ackno = unwrap ackno (sn_isn s) (sn_abs_ackno s) in
      if sn_next_seqno s < abs_ackno then Inr s
      else if abs_ackno + ucast window_size < sn_next_seqno s then Inr (s\<lparr>sn_recv_wdn_sz := 0\<rparr>)
      else
        let s = s\<lparr>sn_abs_ackno := abs_ackno, sn_wdn_sz := window_size\<rparr>;
            s = ack_erase abs_ackno s;
            s = s\<lparr>sn_recv_wdn_sz := ucast (abs_ackno + ucast window_size - sn_next_seqno s)\<rparr>;
            s = s\<lparr>sn_recv_wdn_sz := if sn_wdn_sz s = 0 then 1 else sn_recv_wdn_sz s\<rparr>;
            s = (if sn_max_abs_seqno s < sn_abs_ackno s
                 then let s = s\<lparr>sn_max_abs_seqno := sn_abs_ackno s,
                                sn_rto := sn_initial_retransmission_timeout s,
                                sn_consecutive_retransmissions := 0\<rparr>
                      in if sn_outstanding_segments s \<noteq> [] then s\<lparr>sn_elapsed_time := 0\<rparr> else s
                 else s);
            s = (if sn_outstanding_segments s = [] then s\<lparr>sn_timer_on := False\<rparr> else s)
        in TCPSender_fill_window s)"

definition TCPSender_tick :: "u64 \<Rightarrow> tcp_sender \<Rightarrow> tcp_sender" where
  "TCPSender_tick ms_since_last_tick s =
     (if sn_timer_on s then
        let s = (if sn_outstanding_segments s \<noteq> []
                 then s\<lparr>sn_elapsed_time := sn_elapsed_time s + ms_since_last_tick\<rparr>
                 else s\<lparr>sn_rto := sn_initial_retransmission_timeout s, sn_elapsed_time := 0\<rparr>)
        in
        if ucast (sn_rto s) \<le> sn_elapsed_time s then
          let s = (case sn_outstanding_segments s of
                     [] \<Rightarrow> s
                   | (_, seg) # _ \<Rightarrow> s\<lparr>sn_segments_out := sn_segments_out s @ [seg]\<rparr>);
              s = (if 0 < sn_wdn_sz s
                   then s\<lparr>sn_consecutive_retransmissions := sn_consecutive_retransmissions s + 1,
                          sn_rto := sn_rto s * 2\<rparr>
                   else s)
          in s\<lparr>sn_elapsed_time := 0\<rparr>
        else s
      else s)"

definition TCPSender_send_empty_segment :: "tcp_sender \<Rightarrow> tcp_sender" where
  "TCPSender_send_empty_segment s =
     (let segment = TCPSegment_new\<lparr>ts_header := TCPHeader_new\<lparr>th_ack := True\<rparr>\<rparr>;
          segment = segment\<lparr>ts_header := (ts_header segment)\<lparr>th_seqno := TCPSender_next_seqno s\<rparr>\<rparr>
      in s\<lparr>sn_segments_out := sn_segments_out s @ [segment]\<rparr>)"

end
