(* ===== verification/Sending.thy ===== *)
theory Sending
  imports TCP_Sender
begin

text \<open>
  The invariant of the sender. The ghost \<open>D\<close> is all that has been read from the outgoing stream:
  the segments outstanding are contiguous and end at the next sequence number, their
  lengths add up to the bytes in flight, and every segment handed out is genuine for \<open>D\<close>.
  Every operation keeps the invariant, and the loop of \<^verbatim>\<open>fill_window\<close> ends within its bound.
\<close>

subsection \<open>Segments in flight\<close>

definition seg_len :: "tcp_segment \<Rightarrow> nat" where
  "seg_len seg = length (Buffer_str (ts_payload seg)) + (if th_syn (ts_header seg) then 1 else 0) +
     (if th_fin (ts_header seg) then 1 else 0)"

lemma length_in_sequence_space_eq: "TCPSegment_length_in_sequence_space seg = of_nat (seg_len seg)"
  by (simp add: TCPSegment_length_in_sequence_space_def seg_len_def size64_def)

definition sent_at :: "WrappingInt32 \<Rightarrow> bytes \<Rightarrow> bool \<Rightarrow> nat \<Rightarrow> tcp_segment \<Rightarrow> bool" where
  "sent_at isn D fs q seg \<longleftrightarrow> genuine isn D q seg \<and>
     (th_syn (ts_header seg) \<longrightarrow> Buffer_str (ts_payload seg) = []) \<and>
     length (Buffer_str (ts_payload seg)) \<le> 1452 \<and>
     (th_fin (ts_header seg) \<longrightarrow> fs \<and> q + seg_len seg = length D + 2)"

fun seg_chain :: "WrappingInt32 \<Rightarrow> bytes \<Rightarrow> bool \<Rightarrow> nat \<Rightarrow> (u64 \<times> tcp_segment) list \<Rightarrow> nat \<Rightarrow> bool" where
  "seg_chain isn D fs a [] b \<longleftrightarrow> a = b"
| "seg_chain isn D fs a ((k, seg) # es) b \<longleftrightarrow>
     0 < seg_len seg \<and> unat k = a + seg_len seg \<and> sent_at isn D fs a seg \<and> seg_chain isn D fs (unat k) es b"

text \<open>What is sent stays genuine when the stream grows, and nothing is sent after the FIN.\<close>

definition extends :: "bytes \<Rightarrow> bool \<Rightarrow> bytes \<Rightarrow> bool \<Rightarrow> bool" where
  "extends D fs D' fs' \<longleftrightarrow> (\<exists>xs. D' = D @ xs) \<and> (fs \<longrightarrow> D' = D \<and> fs')"

lemma extends_refl [simp]: "extends D fs D fs"
  by (simp add: extends_def)

lemma chunk_prefix: "i + n \<le> length D \<Longrightarrow> chunk (D @ xs) i n = chunk D i n"
  by (simp add: chunk_def)

lemma genuine_mono:
  assumes "genuine isn D q seg"
  shows "genuine isn (D @ xs) q seg"
  using assms by (auto simp: genuine_def Let_def chunk_prefix)

lemma sent_at_mono: "sent_at isn D fs q seg \<Longrightarrow> extends D fs D' fs' \<Longrightarrow> sent_at isn D' fs' q seg"
  by (auto simp: sent_at_def extends_def intro: genuine_mono)

lemma seg_chain_mono: "seg_chain isn D fs a es b \<Longrightarrow> extends D fs D' fs' \<Longrightarrow> seg_chain isn D' fs' a es b"
  by (induction es arbitrary: a) (auto intro: sent_at_mono)

lemma seg_chain_le: "seg_chain isn D fs a es b \<Longrightarrow> a \<le> b"
  by (induction es arbitrary: a) force+

lemma seg_chain_keys: "seg_chain isn D fs a es b \<Longrightarrow> (k, seg) \<in> set es \<Longrightarrow> a < unat k \<and> unat k \<le> b"
proof (induction es arbitrary: a)
  case (Cons e es)
  obtain k' seg' where e: "e = (k', seg')" by (cases e)
  with Cons.prems(1) have c: "0 < seg_len seg'" "unat k' = a + seg_len seg'" "seg_chain isn D fs (unat k') es b" by auto
  show ?case
  proof (cases "(k, seg) = e")
    case True
    with e c seg_chain_le [OF c(3)] show ?thesis by auto
  next
    case False
    with Cons.prems(2) have "(k, seg) \<in> set es" by simp
    with Cons.IH [OF c(3)] c show ?thesis by fastforce
  qed
qed simp

lemma seg_chain_append:
  "seg_chain isn D fs a (es @ fs') c \<longleftrightarrow> (\<exists>b. seg_chain isn D fs a es b \<and> seg_chain isn D fs b fs' c)"
  by (induction es arbitrary: a) (auto, blast+)

lemma seg_chain_insert:
  assumes "seg_chain isn D fs a es b" and "b < unat k"
  shows "omap_insert k seg es = es @ [(k, seg)]"
proof -
  have "\<forall>p \<in> set es. fst p < k"
    using seg_chain_keys [OF assms(1)] assms(2) by (fastforce simp: word_less_nat_alt)
  from omap_insert_between [OF this, of "[]" seg] show ?thesis by simp
qed

lemma seg_chain_sum:
  "seg_chain isn D fs a es b \<Longrightarrow> b = a + sum_list (map (seg_len \<circ> snd) es)"
  by (induction es arbitrary: a) (auto, metis add.assoc)

text \<open>The part of the state about what is in flight.\<close>

definition flight_ok :: "bytes \<Rightarrow> bool \<Rightarrow> tcp_sender \<Rightarrow> bool" where
  "flight_ok D fs s \<longleftrightarrow>
     (\<exists>a. seg_chain (sn_isn s) D fs a (sn_outstanding_segments s) (unat (sn_next_seqno s)) \<and>
        a + unat (sn_bytes_in_flight s) = unat (sn_next_seqno s)) \<and>
     (sn_timer_on s \<longleftrightarrow> sn_outstanding_segments s \<noteq> []) \<and>
     (\<forall>seg \<in> set (sn_segments_out s). \<exists>q. sent_at (sn_isn s) D fs q seg)"

lemma flight_ok_mono: "flight_ok D fs s \<Longrightarrow> extends D fs D' fs' \<Longrightarrow> flight_ok D' fs' s"
  unfolding flight_ok_def by (meson seg_chain_mono sent_at_mono)

definition with_seqno :: "tcp_sender \<Rightarrow> tcp_segment \<Rightarrow> tcp_segment" where
  "with_seqno s seg = seg\<lparr>ts_header := (ts_header seg)\<lparr>th_seqno := TCPSender_next_seqno s\<rparr>\<rparr>"

lemma seg_len_with_seqno [simp]: "seg_len (with_seqno s seg) = seg_len seg"
  by (simp add: seg_len_def with_seqno_def)

lemma send_segment_ok:
  assumes ok: "flight_ok D fs s" and seg: "sent_at (sn_isn s) D fs (unat (sn_next_seqno s)) (with_seqno s seg)"
    and len: "0 < seg_len seg" "unat (sn_next_seqno s) + seg_len seg < 18446744073709551616"
  defines "s' \<equiv> TCPSender_send_segment seg s"
  shows "flight_ok D fs s'" "unat (sn_next_seqno s') = unat (sn_next_seqno s) + seg_len seg"
    "sn_segments_out s' = sn_segments_out s @ [with_seqno s seg]" "\<exists>new. sn_outstanding_segments s' = sn_outstanding_segments s @ new"
    "sn_isn s' = sn_isn s" "sn_stream s' = sn_stream s" "sn_syn s' = sn_syn s" "sn_fin_sent s' = sn_fin_sent s"
    "sn_recv_wdn_sz s' = sn_recv_wdn_sz s" "sn_abs_ackno s' = sn_abs_ackno s"
proof -
  let ?n = "sn_next_seqno s" and ?k = "sn_next_seqno s + of_nat (seg_len seg)"
  have lw: "unat (of_nat (seg_len seg) :: u64) = seg_len seg" using len by (simp add: unat_of_nat)
  have k: "unat ?k = unat ?n + seg_len seg" using len lw by (subst unat_add_nowrap) simp_all
  obtain a where a: "seg_chain (sn_isn s) D fs a (sn_outstanding_segments s) (unat ?n)"
    "a + unat (sn_bytes_in_flight s) = unat ?n" using ok by (auto simp: flight_ok_def)
  have s': "s' = s\<lparr>sn_bytes_in_flight := sn_bytes_in_flight s + of_nat (seg_len seg), sn_next_seqno := ?k,
      sn_segments_out := sn_segments_out s @ [with_seqno s seg],
      sn_outstanding_segments := sn_outstanding_segments s @ [(?k, with_seqno s seg)],
      sn_elapsed_time := if sn_timer_on s then sn_elapsed_time s else 0,
      sn_rto := if sn_timer_on s then sn_rto s else sn_initial_retransmission_timeout s, sn_timer_on := True\<rparr>"
    using seg_chain_insert [OF a(1), of ?k "with_seqno s seg"] k len(1)
    by (simp add: s'_def TCPSender_send_segment_def with_seqno_def [symmetric] length_in_sequence_space_eq Let_def)
  have "seg_chain (sn_isn s) D fs a (sn_outstanding_segments s @ [(?k, with_seqno s seg)]) (unat ?k)"
    using a(1) seg len(1) k by (auto simp: seg_chain_append)
  moreover have "unat (sn_bytes_in_flight s + of_nat (seg_len seg)) = unat (sn_bytes_in_flight s) + seg_len seg"
    using a(2) len lw by (subst unat_add_nowrap) simp_all
  ultimately show "flight_ok D fs s'"
    using ok a(2) seg k unfolding flight_ok_def s' by fastforce
  show "unat (sn_next_seqno s') = unat ?n + seg_len seg"
    "sn_segments_out s' = sn_segments_out s @ [with_seqno s seg]" "\<exists>new. sn_outstanding_segments s' = sn_outstanding_segments s @ new"
    "sn_isn s' = sn_isn s" "sn_stream s' = sn_stream s" "sn_syn s' = sn_syn s" "sn_fin_sent s' = sn_fin_sent s"
    "sn_recv_wdn_sz s' = sn_recv_wdn_sz s" "sn_abs_ackno s' = sn_abs_ackno s"
    by (simp_all add: s' k)
qed

subsection \<open>The invariant\<close>

definition sn_inv :: "bytes \<Rightarrow> tcp_sender \<Rightarrow> bool" where
  "sn_inv D s \<longleftrightarrow> byte_stream_ok (sn_stream s) \<and> bs_total_read_bytes (sn_stream s) = size64 D \<and>
     flight_ok D (sn_fin_sent s) s \<and>
     unat (sn_next_seqno s) = of_bool (sn_syn s) + length D + of_bool (sn_fin_sent s) \<and>
     (sn_fin_sent s \<longrightarrow> sn_syn s \<and> bs_input_ended (sn_stream s) \<and> bs_contents (sn_stream s) = []) \<and>
     (\<not> sn_syn s \<longrightarrow> D = [] \<and> sn_outstanding_segments s = []) \<and>
     unat (sn_abs_ackno s) \<le> unat (sn_next_seqno s) \<and>
     length D + length (bs_contents (sn_stream s)) < 9223372036854775808"

lemma flight_ok_frame [simp]:
  "flight_ok D fs (s\<lparr>sn_stream := st\<rparr>) = flight_ok D fs s"
  "flight_ok D fs (s\<lparr>sn_recv_wdn_sz := w\<rparr>) = flight_ok D fs s"
  "flight_ok D fs (s\<lparr>sn_fin_sent := f\<rparr>) = flight_ok D fs s"
  "flight_ok D fs (s\<lparr>sn_abs_ackno := a\<rparr>) = flight_ok D fs s"
  "flight_ok D fs (s\<lparr>sn_wdn_sz := w\<rparr>) = flight_ok D fs s"
  "flight_ok D fs (s\<lparr>sn_max_abs_seqno := a\<rparr>) = flight_ok D fs s"
  "flight_ok D fs (s\<lparr>sn_rto := r\<rparr>) = flight_ok D fs s"
  "flight_ok D fs (s\<lparr>sn_consecutive_retransmissions := r\<rparr>) = flight_ok D fs s"
  "flight_ok D fs (s\<lparr>sn_elapsed_time := e\<rparr>) = flight_ok D fs s"
  "flight_ok D fs (s\<lparr>sn_syn := f\<rparr>) = flight_ok D fs s"
  by (simp_all add: flight_ok_def)

definition clean :: "tcp_segment \<Rightarrow> bool" where
  "clean seg \<longleftrightarrow> \<not> th_syn (ts_header seg) \<and> \<not> th_fin (ts_header seg)"

lemma clean_new: "clean TCPSegment_new"
  by (simp add: clean_def TCPSegment_new_def TCPHeader_new_def)

lemma next_seqno_wrap: "TCPSender_next_seqno s = wrap (of_nat (unat (sn_next_seqno s))) (sn_isn s)"
  by (simp add: TCPSender_next_seqno_def)

text \<open>A segment with the next bytes of the stream, and perhaps the FIN behind them.\<close>

lemma sent_at_next:
  assumes "\<not> th_syn (ts_header seg)" and "Buffer_str (ts_payload seg) = xs" "buffer_ok (ts_payload seg)"
    and "unat (sn_next_seqno s) = 1 + length D" and "th_fin (ts_header seg) \<longleftrightarrow> fs" and "length xs \<le> 1452"
  shows "sent_at (sn_isn s) (D @ xs) fs (unat (sn_next_seqno s)) (with_seqno s seg)"
  using assms by (auto simp: sent_at_def genuine_def with_seqno_def seg_len_def Let_def chunk_def
      next_seqno_wrap simp del: of_nat_Suc)

text \<open>What filling the window does to the rest of the state.\<close>

definition filled :: "bytes \<Rightarrow> tcp_sender \<Rightarrow> bytes \<Rightarrow> tcp_sender \<Rightarrow> bool" where
  "filled D s xs s' \<longleftrightarrow> sn_inv (D @ xs) s' \<and> bs_contents (sn_stream s) = xs @ bs_contents (sn_stream s') \<and>
     unat (sn_next_seqno s') + unat (sn_recv_wdn_sz s') = unat (sn_next_seqno s) + unat (sn_recv_wdn_sz s) \<and>
     sn_isn s' = sn_isn s \<and> sn_syn s' \<and> sn_abs_ackno s' = sn_abs_ackno s \<and>
     bs_input_ended (sn_stream s') = bs_input_ended (sn_stream s) \<and>
     (\<exists>new. sn_segments_out s' = sn_segments_out s @ new) \<and>
     (\<exists>new. sn_outstanding_segments s' = sn_outstanding_segments s @ new)"

lemma filled_refl: "sn_inv D s \<Longrightarrow> sn_syn s \<Longrightarrow> filled D s [] s"
  by (simp add: filled_def)

lemma filled_trans: "filled D s xs t \<Longrightarrow> filled (D @ xs) t ys u \<Longrightarrow> filled D s (xs @ ys) u"
  by (auto simp: filled_def)

lemma unat_u16_sub: "unat b \<le> unat (a :: u16) \<Longrightarrow> unat (a - b) = unat a - unat b"
  by (simp add: unat_sub word_le_nat_alt)

lemma filled_send:
  assumes inv: "sn_inv D s" and syn: "sn_syn s" and fin: "\<not> sn_fin_sent s"
    and xs: "bs_contents (sn_stream s) = xs @ bs_contents st" "byte_stream_ok st"
    and ended: "bs_input_ended st = bs_input_ended (sn_stream s)"
      "bs_total_read_bytes st = bs_total_read_bytes (sn_stream s) + size64 xs"
    and seg: "\<not> th_syn (ts_header seg)" "Buffer_str (ts_payload seg) = xs" "buffer_ok (ts_payload seg)"
      "th_fin (ts_header seg) \<longleftrightarrow> fs" "0 < seg_len seg"
    and small: "length xs \<le> 1452" and fs: "fs \<Longrightarrow> bs_input_ended st \<and> bs_contents st = []"
    and w: "unat w + seg_len seg = unat (sn_recv_wdn_sz s)"
    and t: "t = s\<lparr>sn_stream := st, sn_recv_wdn_sz := w, sn_fin_sent := f\<rparr>"
    and u: "u = (TCPSender_send_segment seg t)\<lparr>sn_fin_sent := fs\<rparr>"
  shows "filled D s xs u" "sn_stream u = st" "sn_recv_wdn_sz u = w"
proof -
  have n: "unat (sn_next_seqno s) = 1 + length D" and len: "length D + length xs + length (bs_contents st) < 9223372036854775808"
    and fl: "flight_ok D False s" using inv syn fin xs by (auto simp: sn_inv_def)
  have sl: "seg_len seg = length xs + of_bool fs" using seg by (simp add: seg_len_def)
  have "flight_ok (D @ xs) fs t"
    using flight_ok_mono [OF fl, of "D @ xs" fs] by (simp add: extends_def t)
  moreover have "sent_at (sn_isn t) (D @ xs) fs (unat (sn_next_seqno t)) (with_seqno t seg)"
    using seg n small by (intro sent_at_next) (simp_all add: t)
  moreover have "unat (sn_next_seqno t) + seg_len seg < 18446744073709551616"
    using n len sl by (simp add: t)
  ultimately have send: "flight_ok (D @ xs) fs (TCPSender_send_segment seg t)"
    "unat (sn_next_seqno (TCPSender_send_segment seg t)) = unat (sn_next_seqno t) + seg_len seg"
    "sn_segments_out (TCPSender_send_segment seg t) = sn_segments_out t @ [with_seqno t seg]"
    "\<exists>new. sn_outstanding_segments (TCPSender_send_segment seg t) = sn_outstanding_segments t @ new"
    "sn_isn (TCPSender_send_segment seg t) = sn_isn t" "sn_stream (TCPSender_send_segment seg t) = sn_stream t"
    "sn_syn (TCPSender_send_segment seg t) = sn_syn t"
    "sn_recv_wdn_sz (TCPSender_send_segment seg t) = sn_recv_wdn_sz t"
    "sn_abs_ackno (TCPSender_send_segment seg t) = sn_abs_ackno t"
    using send_segment_ok [of "D @ xs" fs t seg] seg by auto
  have tf: "sn_stream t = st" "sn_recv_wdn_sz t = w" "sn_next_seqno t = sn_next_seqno s" "sn_isn t = sn_isn s"
    "sn_syn t = sn_syn s" "sn_abs_ackno t = sn_abs_ackno s" "sn_segments_out t = sn_segments_out s"
    "sn_outstanding_segments t = sn_outstanding_segments s"
    by (simp_all add: t)
  show u_st: "sn_stream u = st" "sn_recv_wdn_sz u = w" by (simp_all add: u send tf)
  have "flight_ok (D @ xs) fs u" using send(1) by (simp add: u)
  moreover have nu: "unat (sn_next_seqno u) = 1 + length D + seg_len seg" by (simp add: u send tf n)
  ultimately have "sn_inv (D @ xs) u"
    using inv xs fs len sl syn ended(2) unfolding sn_inv_def by (auto simp: u send tf)
  then show "filled D s xs u"
    using xs ended nu n w send(4) [unfolded tf] by (auto simp: filled_def u send tf syn)
qed

subsection \<open>The loop of fill\_window\<close>

lemma seg_len_clean:
  "\<not> th_syn (ts_header seg) \<Longrightarrow>
     seg_len seg = length (Buffer_str (ts_payload seg)) + of_bool (th_fin (ts_header seg))"
  by (simp add: seg_len_def)

lemma unat_ucast_64_16: "unat (ucast (x :: u64) :: u16) = unat x mod 65536"
  by (simp add: unat_ucast)

lemma unat_ucast_16_64 [simp]: "unat (ucast (x :: u16) :: u64) = unat x"
  by (simp add: unat_ucast)

lemma seq_space_pos:
  assumes "0 < seg_len seg" and "seg_len seg < 18446744073709551616"
  shows "0 < TCPSegment_length_in_sequence_space seg"
  using assms by (simp add: length_in_sequence_space_eq word_less_nat_alt unat_of_nat)

lemma window_less:
  assumes "seg_len seg \<le> unat (w :: u16)"
  shows "unat (w - ucast (TCPSegment_length_in_sequence_space seg)) + seg_len seg = unat w"
proof -
  have "seg_len seg < 65536" using assms unat16_lt [of w] by linarith
  then have "unat (ucast (of_nat (seg_len seg) :: u64) :: u16) = seg_len seg"
    by (simp add: unat_ucast_64_16 unat_of_nat)
  with assms show ?thesis unfolding length_in_sequence_space_eq by (simp add: unat_u16_sub)
qed

definition piece_size :: "tcp_sender \<Rightarrow> nat" where
  "piece_size s = min 1452 (unat (sn_recv_wdn_sz s))"

lemma read_piece:
  assumes "byte_stream_ok (sn_stream s)"
  obtains st where "ByteStream_read (sn_stream s)
      (if MAX_PAYLOAD_SIZE < ucast (sn_recv_wdn_sz s) then MAX_PAYLOAD_SIZE else ucast (sn_recv_wdn_sz s)) =
      Inr (take (piece_size s) (bs_contents (sn_stream s)), st)" "byte_stream_ok st"
    "bs_contents (sn_stream s) = take (piece_size s) (bs_contents (sn_stream s)) @ bs_contents st"
    "bs_input_ended st = bs_input_ended (sn_stream s)"
    "bs_total_read_bytes st = bs_total_read_bytes (sn_stream s) + size64 (take (piece_size s) (bs_contents (sn_stream s)))"
proof -
  let ?len = "if MAX_PAYLOAD_SIZE < ucast (sn_recv_wdn_sz s) then MAX_PAYLOAD_SIZE else ucast (sn_recv_wdn_sz s)"
  have "unat ?len = piece_size s"
    by (auto simp: piece_size_def MAX_PAYLOAD_SIZE_def word_less_nat_alt min_def)
  with ByteStream_read_ok [OF assms, of ?len] that show thesis by auto
qed

lemma fill_body_ok:
  assumes inv: "sn_inv D s" and syn: "sn_syn s" and seg: "clean seg"
    and some: "bs_contents (sn_stream s) \<noteq> []" "0 < sn_recv_wdn_sz s"
  defines "xs \<equiv> take (piece_size s) (bs_contents (sn_stream s))"
  obtains seg' s' where "fill_body seg s = Inr (seg', s')" "filled D s xs s'"
    "sn_fin_sent s' \<longleftrightarrow> ByteStream_eof (sn_stream s') \<and> length xs < unat (sn_recv_wdn_sz s)"
    "\<not> sn_fin_sent s' \<Longrightarrow> clean seg'" "xs \<noteq> []"
proof -
  let ?w = "sn_recv_wdn_sz s"
  have ok: "byte_stream_ok (sn_stream s)" and fin: "\<not> sn_fin_sent s" using inv some by (auto simp: sn_inv_def)
  obtain st where st: "ByteStream_read (sn_stream s)
      (if MAX_PAYLOAD_SIZE < ucast ?w then MAX_PAYLOAD_SIZE else ucast ?w) = Inr (xs, st)" "byte_stream_ok st"
    "bs_contents (sn_stream s) = xs @ bs_contents st" "bs_input_ended st = bs_input_ended (sn_stream s)"
    "bs_total_read_bytes st = bs_total_read_bytes (sn_stream s) + size64 xs"
    using read_piece [OF ok] unfolding xs_def by metis
  have ne: "xs \<noteq> []" and xl: "length xs \<le> unat ?w" "str_ok xs"
    using some by (auto simp: xs_def piece_size_def word_less_nat_alt)
  have small: "length xs \<le> 1452" by (simp add: xs_def piece_size_def)
  define sg where "sg = seg\<lparr>ts_payload := Buffer_of xs\<rparr>"
  have sg: "\<not> th_syn (ts_header sg)" "\<not> th_fin (ts_header sg)" "Buffer_str (ts_payload sg) = xs" "buffer_ok (ts_payload sg)"
    using seg xl by (simp_all add: sg_def clean_def)
  define w1 where "w1 = ?w - ucast (TCPSegment_length_in_sequence_space sg)"
  have w1: "unat w1 + length xs = unat ?w"
    using window_less [of sg ?w] sg xl by (simp add: seg_len_clean w1_def)
  define b where "b \<longleftrightarrow> ByteStream_eof st \<and> 0 < w1"
  define sg' where "sg' = (if b then sg\<lparr>ts_header := (ts_header sg)\<lparr>th_fin := True\<rparr>\<rparr> else sg)"
  define w2 where "w2 = (if b then w1 - 1 else w1)"
  have sg': "\<not> th_syn (ts_header sg')" "Buffer_str (ts_payload sg') = xs" "buffer_ok (ts_payload sg')"
    "th_fin (ts_header sg') \<longleftrightarrow> b" using sg by (simp_all add: sg'_def)
  then have sl': "seg_len sg' = length xs + of_bool b" by (simp add: seg_len_clean)
  have w2: "unat w2 + seg_len sg' = unat ?w"
    using w1 sl' unfolding w2_def b_def by (auto simp: unat_u16_sub word_less_nat_alt)
  define t where "t = (if b then s\<lparr>sn_stream := st, sn_fin_sent := True, sn_recv_wdn_sz := w2\<rparr>
    else s\<lparr>sn_stream := st, sn_recv_wdn_sz := w2\<rparr>)"
  have t: "t = s\<lparr>sn_stream := st, sn_recv_wdn_sz := w2, sn_fin_sent := b\<rparr>"
    using fin by (cases s) (simp add: t_def)
  have pos: "0 < seg_len sg'" using ne sl' by simp
  then have "0 < TCPSegment_length_in_sequence_space sg'"
    using w2 unat16_lt [of ?w] by (intro seq_space_pos) linarith+
  with st(1) have body: "fill_body seg s = Inr (sg', TCPSender_send_segment sg' t)"
    unfolding t_def sg'_def w2_def
    by (cases b) (simp_all add: fill_body_def Let_def sg_def [symmetric] w1_def [symmetric] b_def [symmetric])
  have eof: "b \<Longrightarrow> bs_input_ended st \<and> bs_contents st = []" using st(2) by (simp add: b_def eof_iff)
  have u: "TCPSender_send_segment sg' t = (TCPSender_send_segment sg' t)\<lparr>sn_fin_sent := b\<rparr>"
    "sn_fin_sent (TCPSender_send_segment sg' t) = b"
    by (simp_all add: TCPSender_send_segment_def Let_def t)
  show thesis
  proof (rule that [OF body])
    note fl = filled_send [OF inv syn fin st(3,2,4,5) sg' pos small eof w2 t u(1)]
    show "filled D s xs (TCPSender_send_segment sg' t)" by (rule fl(1))
    show "sn_fin_sent (TCPSender_send_segment sg' t) \<longleftrightarrow>
        ByteStream_eof (sn_stream (TCPSender_send_segment sg' t)) \<and> length xs < unat ?w"
      using w1 fl(2) u(2) by (auto simp: b_def word_less_nat_alt)
  qed (use u(2) sg' ne in \<open>simp_all add: clean_def\<close>)
qed

definition want_fin :: "tcp_sender \<Rightarrow> bool" where
  "want_fin s \<longleftrightarrow> \<not> sn_fin_sent s \<and> ByteStream_eof (sn_stream s) \<and> 0 < sn_recv_wdn_sz s"

definition go_on :: "tcp_sender \<Rightarrow> bool" where
  "go_on s \<longleftrightarrow> 0 < ByteStream_buffer_size (sn_stream s) \<and> 0 < sn_recv_wdn_sz s"

lemma go_on_iff: "sn_inv D s \<Longrightarrow> go_on s \<longleftrightarrow> bs_contents (sn_stream s) \<noteq> [] \<and> 0 < sn_recv_wdn_sz s"
  using unat_buffer_size [of "sn_stream s"] by (auto simp: go_on_def sn_inv_def word_less_nat_alt)

lemma filled_recv:
  assumes "filled D s xs s'" and "\<not> sn_fin_sent s'" and "\<not> sn_fin_sent s" and "sn_inv D s" "sn_syn s"
  shows "unat (sn_recv_wdn_sz s') + length xs = unat (sn_recv_wdn_sz s)"
  using assms by (auto simp: filled_def sn_inv_def)

lemma fill_loop_ok:
  assumes "sn_inv D s" "sn_syn s" "go_on s \<Longrightarrow> clean seg" "length (bs_contents (sn_stream s)) \<le> fuel"
  shows "\<exists>seg' s' xs. fill_loop fuel seg s = Inr (seg', s') \<and> filled D s xs s' \<and> \<not> go_on s' \<and>
     (seg' = seg \<and> s' = s \<or> \<not> want_fin s')"
  using assms
proof (induction fuel arbitrary: D seg s)
  case 0
  then have "\<not> go_on s" by (simp add: go_on_iff)
  with filled_refl [OF 0(1,2)] show ?case by (auto simp: go_on_def)
next
  case (Suc fuel)
  show ?case
  proof (cases "go_on s")
    case False
    with filled_refl [OF Suc.prems(1,2)] show ?thesis by (auto simp: go_on_def)
  next
    case True
    then have some: "bs_contents (sn_stream s) \<noteq> []" "0 < sn_recv_wdn_sz s" using go_on_iff Suc.prems(1) by auto
    let ?xs = "take (piece_size s) (bs_contents (sn_stream s))"
    obtain seg1 s1 where b: "fill_body seg s = Inr (seg1, s1)" "filled D s ?xs s1"
      "sn_fin_sent s1 \<longleftrightarrow> ByteStream_eof (sn_stream s1) \<and> length ?xs < unat (sn_recv_wdn_sz s)"
      "\<not> sn_fin_sent s1 \<Longrightarrow> clean seg1" "?xs \<noteq> []"
      using fill_body_ok [OF Suc.prems(1,2) Suc.prems(3) [OF True] some] by metis
    then have s1: "sn_inv (D @ ?xs) s1" "sn_syn s1"
      and c1: "bs_contents (sn_stream s) = ?xs @ bs_contents (sn_stream s1)" by (auto simp: filled_def)
    have "go_on s1 \<Longrightarrow> clean seg1" using b(4) go_on_iff [OF s1(1)] s1(1) by (auto simp: sn_inv_def)
    moreover have "length (bs_contents (sn_stream s1)) \<le> fuel"
      using Suc.prems(4) arg_cong [OF c1, of length] b(5) by (cases ?xs) auto
    ultimately obtain seg2 s2 ys where r: "fill_loop fuel seg1 s1 = Inr (seg2, s2)" "filled (D @ ?xs) s1 ys s2"
      "\<not> go_on s2" "seg2 = seg1 \<and> s2 = s1 \<or> \<not> want_fin s2" using Suc.IH [OF s1] by blast
    have f0: "\<not> sn_fin_sent s" using Suc.prems(1) some by (auto simp: sn_inv_def)
    have "\<not> want_fin s1"
      using b(3) filled_recv [OF b(2) _ f0 Suc.prems(1,2)] by (auto simp: want_fin_def word_less_nat_alt)
    then have "\<not> want_fin s2" using r(4) by auto
    moreover have "fill_loop (Suc fuel) seg s = Inr (seg2, s2)" using True b(1) r(1) by (simp add: go_on_def)
    ultimately show ?thesis using filled_trans [OF b(2) r(2)] r(3) by blast
  qed
qed

subsection \<open>fill\_window\<close>

text \<open>
  Everything the window allows has been sent: the window is used up, or all the bytes are
  sent and, when the stream has ended, the FIN too.
\<close>

definition window_filled :: "tcp_sender \<Rightarrow> bool" where
  "window_filled s \<longleftrightarrow> sn_recv_wdn_sz s = 0 \<or>
     bs_contents (sn_stream s) = [] \<and> (bs_input_ended (sn_stream s) \<longrightarrow> sn_fin_sent s)"

lemma fill_window_syn:
  assumes inv: "sn_inv [] s" and syn: "\<not> sn_syn s"
  obtains s' where "TCPSender_fill_window s = Inr s'" "sn_inv [] s'" "sn_syn s'" "unat (sn_next_seqno s') = 1"
    "sn_isn s' = sn_isn s" "sn_stream s' = sn_stream s" "sn_recv_wdn_sz s' = sn_recv_wdn_sz s"
    "sn_abs_ackno s' = sn_abs_ackno s"
    "sn_segments_out s' = sn_segments_out s @
       [TCPSegment_new\<lparr>ts_header := TCPHeader_new\<lparr>th_syn := True, th_seqno := sn_isn s\<rparr>\<rparr>]"
proof -
  let ?seg = "TCPSegment_new\<lparr>ts_header := (ts_header TCPSegment_new)\<lparr>th_syn := True\<rparr>\<rparr>"
  let ?t = "s\<lparr>sn_syn := True\<rparr>"
  have fin: "\<not> sn_fin_sent s" and n: "sn_next_seqno s = 0" and fl: "flight_ok [] False ?t"
    using inv syn by (auto simp: sn_inv_def unat_eq_iff)
  have len: "seg_len ?seg = 1" by (simp add: seg_len_def TCPSegment_new_def TCPHeader_new_def)
  have seg: "sent_at (sn_isn ?t) [] False (unat (sn_next_seqno ?t)) (with_seqno ?t ?seg)"
    by (simp add: sent_at_def genuine_def with_seqno_def TCPSegment_new_def TCPHeader_new_def n
        TCPSender_next_seqno_def)
  have w: "with_seqno ?t ?seg = TCPSegment_new\<lparr>ts_header := TCPHeader_new\<lparr>th_syn := True, th_seqno := sn_isn s\<rparr>\<rparr>"
    by (simp add: with_seqno_def TCPSender_next_seqno_def n wrap_0 TCPSegment_new_def)
  note send = send_segment_ok [OF fl seg, unfolded len]
  have "sn_inv [] (TCPSender_send_segment ?seg ?t)"
    using inv fin n send by (simp add: sn_inv_def)
  then show thesis
    using syn send n w by (intro that) (simp_all add: TCPSender_fill_window_def Let_def)
qed

lemma fin_alone_ok:
  assumes inv: "sn_inv D s" and syn: "sn_syn s" and fin: "want_fin s"
  defines "seg \<equiv> TCPSegment_new\<lparr>ts_header := (ts_header TCPSegment_new)\<lparr>th_fin := True\<rparr>\<rparr>"
  defines "u \<equiv> (TCPSender_send_segment seg (s\<lparr>sn_recv_wdn_sz := sn_recv_wdn_sz s - 1\<rparr>))\<lparr>sn_fin_sent := True\<rparr>"
  shows "filled D s [] u" "window_filled u"
proof -
  have s: "\<not> sn_fin_sent s" "bs_input_ended (sn_stream s)" "bs_contents (sn_stream s) = []" "0 < unat (sn_recv_wdn_sz s)"
    "byte_stream_ok (sn_stream s)"
    using inv fin by (auto simp: want_fin_def sn_inv_def eof_iff word_less_nat_alt)
  have seg: "\<not> th_syn (ts_header seg)" "Buffer_str (ts_payload seg) = []" "buffer_ok (ts_payload seg)"
    "th_fin (ts_header seg) \<longleftrightarrow> True" "0 < seg_len seg" "seg_len seg = 1"
    by (simp_all add: seg_def TCPSegment_new_def TCPHeader_new_def seg_len_def)
  have w: "unat (sn_recv_wdn_sz s - 1) + seg_len seg = unat (sn_recv_wdn_sz s)"
    unfolding seg(6) using s(4) by (subst unat_u16_sub) simp_all
  have t: "s\<lparr>sn_recv_wdn_sz := sn_recv_wdn_sz s - 1\<rparr> =
      s\<lparr>sn_stream := sn_stream s, sn_recv_wdn_sz := sn_recv_wdn_sz s - 1, sn_fin_sent := False\<rparr>"
    using s(1) by (cases s) simp
  have c: "bs_contents (sn_stream s) = [] @ bs_contents (sn_stream s)" and z: "length ([] :: bytes) \<le> 1452"
    and rd: "bs_total_read_bytes (sn_stream s) = bs_total_read_bytes (sn_stream s) + size64 ([] :: bytes)"
    and e: "True \<Longrightarrow> bs_input_ended (sn_stream s) \<and> bs_contents (sn_stream s) = []" using s by simp_all
  note u = filled_send [OF inv syn s(1) c s(5) refl rd seg(1-5) z e w t u_def [THEN meta_eq_to_obj_eq]]
  show "filled D s [] u" by (rule u(1))
  show "window_filled u" using u(2) s by (simp add: window_filled_def u_def)
qed

lemma fill_window_data:
  assumes inv: "sn_inv D s" and syn: "sn_syn s"
  obtains s' xs where "TCPSender_fill_window s = Inr s'" "filled D s xs s'" "window_filled s'"
proof -
  have "length (bs_contents (sn_stream s)) \<le> unat (ByteStream_buffer_size (sn_stream s))"
    using inv by (simp add: sn_inv_def unat_buffer_size)
  then obtain seg' s' xs where r: "fill_loop (unat (ByteStream_buffer_size (sn_stream s))) TCPSegment_new s = Inr (seg', s')"
    "filled D s xs s'" "\<not> go_on s'" "seg' = TCPSegment_new \<and> s' = s \<or> \<not> want_fin s'"
    using fill_loop_ok [OF inv syn clean_new] by blast
  have inv': "sn_inv (D @ xs) s'" using r(2) by (simp add: filled_def)
  show thesis
  proof (cases "want_fin s'")
    case False
    then have "TCPSender_fill_window s = Inr s'"
      using syn r(1) by (auto simp: TCPSender_fill_window_def Let_def want_fin_def)
    moreover have "window_filled s'"
      using False inv' r(3) go_on_iff [OF inv']
      by (auto simp: window_filled_def want_fin_def sn_inv_def eof_iff word_gt_0)
    ultimately show thesis using r(2) that by blast
  next
    case True
    with r(4) have eq: "seg' = TCPSegment_new" "s' = s" by auto
    have "TCPSender_fill_window s = Inr ((TCPSender_send_segment
        (TCPSegment_new\<lparr>ts_header := (ts_header TCPSegment_new)\<lparr>th_fin := True\<rparr>\<rparr>)
        (s\<lparr>sn_recv_wdn_sz := sn_recv_wdn_sz s - 1\<rparr>))\<lparr>sn_fin_sent := True\<rparr>)"
      using syn r(1) True unfolding eq by (simp add: TCPSender_fill_window_def Let_def want_fin_def)
    with fin_alone_ok [OF inv syn] True eq that show thesis by blast
  qed
qed

lemma fill_window_idle:
  assumes "sn_inv D s" and "sn_fin_sent s"
  shows "TCPSender_fill_window s = Inr s"
proof -
  have "sn_syn s" "ByteStream_buffer_size (sn_stream s) = 0"
    using assms by (simp_all add: sn_inv_def buffer_size_eq)
  with assms show ?thesis by (simp add: TCPSender_fill_window_def Let_def)
qed

lemma fill_extends:
  assumes "sn_inv D s" and "TCPSender_fill_window s = Inr s'" and "bs_contents (sn_stream s) = xs @ ys"
  shows "extends D (sn_fin_sent s) (D @ xs) (sn_fin_sent s')"
  using assms fill_window_idle [OF assms(1)] by (auto simp: extends_def sn_inv_def)

lemma fill_window_ok:
  assumes inv: "sn_inv D s"
  obtains s' xs where "TCPSender_fill_window s = Inr s'" "sn_inv (D @ xs) s'"
    "bs_contents (sn_stream s) = xs @ bs_contents (sn_stream s')"
    "bs_input_ended (sn_stream s') = bs_input_ended (sn_stream s)"
    "sn_isn s' = sn_isn s" "sn_syn s'" "\<exists>new. sn_segments_out s' = sn_segments_out s @ new"
    "\<exists>new. sn_outstanding_segments s' = sn_outstanding_segments s @ new"
    "sn_syn s \<longrightarrow> filled D s xs s' \<and> window_filled s'" "extends D (sn_fin_sent s) (D @ xs) (sn_fin_sent s')"
proof (cases "sn_syn s")
  case True
  with inv obtain s' xs where "TCPSender_fill_window s = Inr s'" "filled D s xs s'" "window_filled s'"
    by (rule fill_window_data)
  then show thesis using fill_extends [OF inv] by (intro that [of s' xs]) (simp_all add: filled_def)
next
  case False
  then have D: "D = []" and out: "sn_outstanding_segments s = []" using inv by (simp_all add: sn_inv_def)
  from fill_window_syn [OF inv [unfolded D] False] obtain s' where "TCPSender_fill_window s = Inr s'" "sn_inv [] s'"
    "sn_syn s'" "sn_isn s' = sn_isn s" "sn_stream s' = sn_stream s" "\<exists>new. sn_segments_out s' = sn_segments_out s @ new"
    by metis
  then show thesis using D out False fill_extends [OF inv, of s' "[]"] by (intro that [of s' "[]"]) auto
qed

subsection \<open>ack\_received\<close>

lemma fold_less_flight:
  assumes "sum_list (map (seg_len \<circ> snd) es) \<le> unat b"
  shows "unat (fold (\<lambda>(_, g) b. b - TCPSegment_length_in_sequence_space g) es b) =
     unat b - sum_list (map (seg_len \<circ> snd) es)"
  using assms
proof (induction es arbitrary: b)
  case (Cons e es)
  obtain k g where e: "e = (k, g)" by (cases e)
  have "seg_len g \<le> unat b" using Cons.prems unfolding e by simp
  then have "seg_len g < 18446744073709551616" using unat64_lt [of b] by (rule le_less_trans)
  then have "unat (b - TCPSegment_length_in_sequence_space g) = unat b - seg_len g"
    using Cons.prems by (simp add: e length_in_sequence_space_eq unat_sub_nowrap unat_of_nat)
  with Cons.IH [of "b - TCPSegment_length_in_sequence_space g"] Cons.prems show ?case by (simp add: e)
qed simp

lemma split_at_key:
  assumes "dropWhile (\<lambda>(k, _). k \<noteq> a) es = (k, seg) # rest"
  shows "es = takeWhile (\<lambda>(k, _). k \<noteq> a) es @ (k, seg) # rest" "k = a"
  using assms takeWhile_dropWhile_id [of "\<lambda>(k, _). k \<noteq> a" es] hd_dropWhile [of "\<lambda>(k, _). k \<noteq> a" es]
  by auto

lemma ack_erase_ok:
  fixes a :: u64
  assumes ok: "flight_ok D fs s"
  defines "s' \<equiv> ack_erase a s"
  shows "flight_ok D fs (s'\<lparr>sn_timer_on := sn_outstanding_segments s' \<noteq> []\<rparr>)"
    "sn_outstanding_segments s' \<noteq> [] \<Longrightarrow> sn_timer_on s'"
proof -
  let ?es = "sn_outstanding_segments s"
  obtain a0 where chain: "seg_chain (sn_isn s) D fs a0 ?es (unat (sn_next_seqno s))"
    "a0 + unat (sn_bytes_in_flight s) = unat (sn_next_seqno s)" using ok by (auto simp: flight_ok_def)
  have "flight_ok D fs (s'\<lparr>sn_timer_on := sn_outstanding_segments s' \<noteq> []\<rparr>) \<and>
      (sn_outstanding_segments s' \<noteq> [] \<longrightarrow> sn_timer_on s')"
  proof (cases "dropWhile (\<lambda>(k, _). k \<noteq> a) ?es")
    case Nil
    then have "s' = s" unfolding s'_def ack_erase_def by (simp only: list.case)
    then show ?thesis using ok by (auto simp: flight_ok_def)
  next
    case (Cons e rest)
    obtain k seg where e: "e = (k, seg)" by (cases e)
    let ?pre = "takeWhile (\<lambda>(k, _). k \<noteq> a) ?es"
    have es: "?es = ?pre @ (k, seg) # rest" using split_at_key(1) Cons e by metis
    obtain b where pre: "seg_chain (sn_isn s) D fs a0 ?pre b" and seg: "unat k = b + seg_len seg"
      and rest: "seg_chain (sn_isn s) D fs (unat k) rest (unat (sn_next_seqno s))"
      using chain(1) by (subst (asm) es) (auto simp: seg_chain_append)
    let ?b = "fold (\<lambda>(_, g) b. b - TCPSegment_length_in_sequence_space g) ?pre (sn_bytes_in_flight s)"
    have le: "unat k \<le> unat (sn_next_seqno s)" using seg_chain_le [OF rest] .
    have b: "unat ?b = unat (sn_bytes_in_flight s) - (b - a0)" "a0 \<le> b"
      using fold_less_flight [of ?pre "sn_bytes_in_flight s"] seg_chain_sum [OF pre] chain(2) le seg by simp_all
    have "seg_len seg < 18446744073709551616" using seg unat64_lt [of k] by linarith
    then have "unat (?b - TCPSegment_length_in_sequence_space seg) = unat (sn_next_seqno s) - unat k"
      using b chain(2) le seg by (simp add: length_in_sequence_space_eq unat_sub_nowrap unat_of_nat)
    moreover have s': "s' = s\<lparr>sn_bytes_in_flight := ?b - TCPSegment_length_in_sequence_space seg, sn_outstanding_segments := rest\<rparr>"
      unfolding s'_def ack_erase_def Cons e by (simp add: Let_def)
    moreover have "sn_timer_on s" using ok es by (auto simp: flight_ok_def)
    ultimately show ?thesis using ok rest le by (auto simp: flight_ok_def)
  qed
  then show "flight_ok D fs (s'\<lparr>sn_timer_on := sn_outstanding_segments s' \<noteq> []\<rparr>)"
    "sn_outstanding_segments s' \<noteq> [] \<Longrightarrow> sn_timer_on s'" by blast+
qed

text \<open>The state in which an acceptable acknowledgment leaves the sender before it fills the window.\<close>

definition ack_state :: "u64 \<Rightarrow> u16 \<Rightarrow> tcp_sender \<Rightarrow> tcp_sender" where
  "ack_state a win s =
     (let t = ack_erase a (s\<lparr>sn_abs_ackno := a, sn_wdn_sz := win\<rparr>);
          recv = (if win = 0 then 1 else ucast (a + ucast win - sn_next_seqno s));
          fresh = sn_max_abs_seqno s < a;
          es = sn_outstanding_segments t
      in t\<lparr>sn_timer_on := es \<noteq> [], sn_recv_wdn_sz := recv,
           sn_max_abs_seqno := if fresh then a else sn_max_abs_seqno s,
           sn_rto := if fresh then sn_initial_retransmission_timeout s else sn_rto s,
           sn_consecutive_retransmissions := if fresh then 0 else sn_consecutive_retransmissions s,
           sn_elapsed_time := if fresh \<and> es \<noteq> [] then 0 else sn_elapsed_time s\<rparr>)"

lemma ack_erase_frame [simp]:
  "sn_isn (ack_erase a s) = sn_isn s" "sn_segments_out (ack_erase a s) = sn_segments_out s"
  "sn_initial_retransmission_timeout (ack_erase a s) = sn_initial_retransmission_timeout s"
  "sn_stream (ack_erase a s) = sn_stream s" "sn_next_seqno (ack_erase a s) = sn_next_seqno s"
  "sn_syn (ack_erase a s) = sn_syn s" "sn_fin_sent (ack_erase a s) = sn_fin_sent s"
  "sn_wdn_sz (ack_erase a s) = sn_wdn_sz s" "sn_abs_ackno (ack_erase a s) = sn_abs_ackno s"
  "sn_recv_wdn_sz (ack_erase a s) = sn_recv_wdn_sz s" "sn_max_abs_seqno (ack_erase a s) = sn_max_abs_seqno s"
  "sn_rto (ack_erase a s) = sn_rto s" "sn_elapsed_time (ack_erase a s) = sn_elapsed_time s"
  "sn_consecutive_retransmissions (ack_erase a s) = sn_consecutive_retransmissions s"
  "sn_timer_on (ack_erase a s) = sn_timer_on s"
  by (simp_all add: ack_erase_def Let_def split: list.split)

lemma ack_received_eq:
  assumes ok: "flight_ok D fs s" and a: "unwrap ackno (sn_isn s) (sn_abs_ackno s) = a"
  shows "TCPSender_ack_received ackno win s =
     (if sn_next_seqno s < a then Inr s
      else if a + ucast win < sn_next_seqno s then Inr (s\<lparr>sn_recv_wdn_sz := 0\<rparr>)
      else TCPSender_fill_window (ack_state a win s))"
proof -
  define t where "t = ack_erase a (s\<lparr>sn_abs_ackno := a, sn_wdn_sz := win\<rparr>)"
  have "sn_outstanding_segments t \<noteq> [] \<Longrightarrow> sn_timer_on t"
    unfolding t_def using ok by (intro ack_erase_ok(2) [of D fs]) simp_all
  moreover have "sn_next_seqno t = sn_next_seqno s" "sn_wdn_sz t = win" "sn_abs_ackno t = a" "sn_rto t = sn_rto s"
    "sn_initial_retransmission_timeout t = sn_initial_retransmission_timeout s"
    "sn_consecutive_retransmissions t = sn_consecutive_retransmissions s"
    "sn_elapsed_time t = sn_elapsed_time s" "sn_max_abs_seqno t = sn_max_abs_seqno s"
    by (simp_all add: t_def)
  ultimately show ?thesis
    unfolding TCPSender_ack_received_def a Let_def ack_state_def t_def [symmetric] by (cases t) simp
qed

lemma ack_state_frame [simp]:
  "sn_isn (ack_state a win s) = sn_isn s" "sn_segments_out (ack_state a win s) = sn_segments_out s"
  "sn_stream (ack_state a win s) = sn_stream s" "sn_next_seqno (ack_state a win s) = sn_next_seqno s"
  "sn_syn (ack_state a win s) = sn_syn s" "sn_fin_sent (ack_state a win s) = sn_fin_sent s"
  "sn_abs_ackno (ack_state a win s) = a"
  by (simp_all add: ack_state_def Let_def)

lemma window_end:
  assumes inv: "sn_inv D s" and a: "\<not> sn_next_seqno s < a"
  shows "unat (a + ucast (win :: u16)) = unat a + unat win" "unat a \<le> unat (sn_next_seqno s)"
proof -
  have n: "unat (sn_next_seqno s) < 9223372036854775810" using inv by (auto simp: sn_inv_def)
  show le: "unat a \<le> unat (sn_next_seqno s)" using a by (simp add: word_less_nat_alt)
  then have "unat a + unat (ucast win :: u64) < 18446744073709551616"
    unfolding unat_ucast_16_64 using n unat16_lt [of win] by linarith
  from unat_add_nowrap [OF this] show "unat (a + ucast win) = unat a + unat win" by simp
qed

lemma window_end_less:
  assumes "sn_inv D s" and "\<not> sn_next_seqno s < a"
  shows "a + ucast (win :: u16) < sn_next_seqno s \<longleftrightarrow> unat a + unat win < unat (sn_next_seqno s)"
  using window_end(1) [OF assms, of win] by (simp add: word_less_nat_alt)

lemma ack_state_ok:
  assumes inv: "sn_inv D s" and a: "\<not> sn_next_seqno s < a" "\<not> a + ucast win < sn_next_seqno s"
  shows "sn_inv D (ack_state a win s)" "unat (sn_next_seqno s) + unat (sn_recv_wdn_sz (ack_state a win s)) =
     unat a + max 1 (unat win)"
proof -
  let ?s = "s\<lparr>sn_abs_ackno := a, sn_wdn_sz := win\<rparr>"
  note sum = window_end(1) [OF inv a(1), of win] and le = window_end(2) [OF inv a(1)]
  have ge: "unat (sn_next_seqno s) \<le> unat a + unat win"
    using window_end_less [OF inv a(1)] a(2) by simp
  then have diff: "unat (a + ucast win - sn_next_seqno s) = unat a + unat win - unat (sn_next_seqno s)"
    using sum by (simp add: unat_sub_nowrap)
  have small: "unat a + unat win - unat (sn_next_seqno s) < 65536" using le unat16_lt [of win] by linarith
  have "unat (sn_recv_wdn_sz (ack_state a win s)) = unat a + max 1 (unat win) - unat (sn_next_seqno s)"
    using diff small le ge by (auto simp: ack_state_def Let_def unat_ucast_64_16 unat_eq_iff)
  then show "unat (sn_next_seqno s) + unat (sn_recv_wdn_sz (ack_state a win s)) = unat a + max 1 (unat win)"
    using ge le by linarith
  have "flight_ok D (sn_fin_sent s) (ack_state a win s)"
    using ack_erase_ok(1) [of D "sn_fin_sent s" ?s a] inv by (simp add: ack_state_def Let_def sn_inv_def)
  moreover have "sn_outstanding_segments s = [] \<Longrightarrow> sn_outstanding_segments (ack_state a win s) = []"
    by (simp add: ack_state_def Let_def ack_erase_def)
  ultimately show "sn_inv D (ack_state a win s)"
    using inv le by (simp add: sn_inv_def)
qed

lemma ack_received_ok:
  assumes inv: "sn_inv D s" and a: "unwrap ackno (sn_isn s) (sn_abs_ackno s) = a"
  obtains s' xs where "TCPSender_ack_received ackno win s = Inr s'" "sn_inv (D @ xs) s'"
    "bs_contents (sn_stream s) = xs @ bs_contents (sn_stream s')"
    "bs_input_ended (sn_stream s') = bs_input_ended (sn_stream s)"
    "sn_isn s' = sn_isn s" "\<exists>new. sn_segments_out s' = sn_segments_out s @ new"
    "extends D (sn_fin_sent s) (D @ xs) (sn_fin_sent s')"
proof -
  note eq = ack_received_eq [OF _ a, of D "sn_fin_sent s" win]
  have fl: "flight_ok D (sn_fin_sent s) s" using inv by (simp add: sn_inv_def)
  consider "sn_next_seqno s < a" | "\<not> sn_next_seqno s < a" "a + ucast win < sn_next_seqno s"
    | "\<not> sn_next_seqno s < a" "\<not> a + ucast win < sn_next_seqno s" by blast
  then show thesis
  proof cases
    case 1
    with eq [OF fl] inv show thesis by (intro that [of s "[]"]) simp_all
  next
    case 2
    with eq [OF fl] inv show thesis by (intro that [of "s\<lparr>sn_recv_wdn_sz := 0\<rparr>" "[]"]) (simp_all add: sn_inv_def)
  next
    case 3
    have run: "TCPSender_ack_received ackno win s = TCPSender_fill_window (ack_state a win s)"
      using eq [OF fl] 3 by simp
    from fill_window_ok [OF ack_state_ok(1) [OF inv 3]] obtain s' xs where
      "TCPSender_fill_window (ack_state a win s) = Inr s'" "sn_inv (D @ xs) s'"
      "bs_contents (sn_stream s) = xs @ bs_contents (sn_stream s')"
      "bs_input_ended (sn_stream s') = bs_input_ended (sn_stream s)" "sn_isn s' = sn_isn s"
      "\<exists>new. sn_segments_out s' = sn_segments_out s @ new" "extends D (sn_fin_sent s) (D @ xs) (sn_fin_sent s')"
      unfolding ack_state_frame by metis
    with run show thesis by (intro that [of s' xs]) simp_all
  qed
qed

subsection \<open>The other operations\<close>

lemma tick_ok:
  assumes "sn_inv D s"
  shows "sn_inv D (TCPSender_tick ms s)" "sn_stream (TCPSender_tick ms s) = sn_stream s"
    "sn_isn (TCPSender_tick ms s) = sn_isn s" "\<exists>new. sn_segments_out (TCPSender_tick ms s) = sn_segments_out s @ new"
proof -
  have "\<exists>q. sent_at (sn_isn s) D (sn_fin_sent s) q seg" if "sn_outstanding_segments s = (k, seg) # es" for k seg es
    using assms that by (auto simp: sn_inv_def flight_ok_def)
  with assms show "sn_inv D (TCPSender_tick ms s)"
    by (auto simp: TCPSender_tick_def Let_def sn_inv_def flight_ok_def split: list.split)
qed (auto simp: TCPSender_tick_def Let_def split: list.split)

lemma send_empty_segment_ok:
  assumes "sn_inv D s"
  shows "sn_inv D (TCPSender_send_empty_segment s)"
proof -
  let ?seg = "TCPSegment_new\<lparr>ts_header := TCPHeader_new\<lparr>th_ack := True, th_seqno := TCPSender_next_seqno s\<rparr>\<rparr>"
  have "unat (sn_next_seqno s) \<le> length D + 2" using assms by (auto simp: sn_inv_def)
  then have "sent_at (sn_isn s) D (sn_fin_sent s) (unat (sn_next_seqno s)) ?seg"
    by (simp add: sent_at_def genuine_def next_seqno_wrap TCPSegment_new_def TCPHeader_new_def)
  with assms show ?thesis
    by (auto simp: TCPSender_send_empty_segment_def Let_def sn_inv_def flight_ok_def)
qed

end
