(* ===== verification/Sender_Runs.thy ===== *)
theory Sender_Runs
  imports Sending
begin

text \<open>
  The sender under any sequence of its operations. The state of a run is the sender with the
  bytes \<open>W\<close> that its stream has accepted; the application writes only before it ends the stream,
  and the stream stays below \<open>2 ^ 63\<close> bytes. The properties are about every reachable state:
  what is sent, how much of it the window allows, what an acknowledgment does and when a
  segment is sent again.
\<close>

subsection \<open>Runs\<close>

inductive sn_step :: "tcp_sender \<times> bytes \<Rightarrow> tcp_sender \<times> bytes \<Rightarrow> bool" where
  fill: "TCPSender_fill_window s = Inr s' \<Longrightarrow> sn_step (s, W) (s', W)"
| ack: "TCPSender_ack_received ackno win s = Inr s' \<Longrightarrow> sn_step (s, W) (s', W)"
| tick: "sn_step (s, W) (TCPSender_tick ms s, W)"
| empty: "sn_step (s, W) (TCPSender_send_empty_segment s, W)"
| put: "\<not> bs_input_ended (sn_stream s) \<Longrightarrow> length W + length data < 9223372036854775808 \<Longrightarrow>
    sn_step (s, W) (s\<lparr>sn_stream := fst (ByteStream_write (sn_stream s) data)\<rparr>, W @ take (bs_free (sn_stream s)) data)"
| end_input: "sn_step (s, W) (s\<lparr>sn_stream := ByteStream_end_input (sn_stream s)\<rparr>, W)"
| pop: "sn_segments_out s = seg # rest \<Longrightarrow> sn_step (s, W) (s\<lparr>sn_segments_out := rest\<rparr>, W)"

definition sn_init :: "u64 \<Rightarrow> u16 \<Rightarrow> WrappingInt32 \<Rightarrow> tcp_sender \<times> bytes \<Rightarrow> bool" where
  "sn_init cap rt isn = (\<lambda>s. s = (TCPSender_new cap rt (Some isn) 0, []))"

definition sn_run_inv :: "WrappingInt32 \<Rightarrow> tcp_sender \<times> bytes \<Rightarrow> bool" where
  "sn_run_inv isn = (\<lambda>(s, W). sn_isn s = isn \<and> (\<exists>D. sn_inv D s \<and> W = D @ bs_contents (sn_stream s)))"

lemma sn_inv_new: "sn_inv [] (TCPSender_new cap rt isn r)"
  by (simp add: sn_inv_def flight_ok_def TCPSender_new_def) (simp add: ByteStream_new_def)

lemma flight_ok_pop:
  "flight_ok D fs s \<Longrightarrow> sn_segments_out s = seg # rest \<Longrightarrow> flight_ok D fs (s\<lparr>sn_segments_out := rest\<rparr>)"
  by (simp add: flight_ok_def)

lemma sn_inv_pop:
  "sn_inv D s \<Longrightarrow> sn_segments_out s = seg # rest \<Longrightarrow> sn_inv D (s\<lparr>sn_segments_out := rest\<rparr>)"
  using flight_ok_pop [of D "sn_fin_sent s" s seg rest] by (simp add: sn_inv_def)

lemma sn_inv_stream:
  assumes "sn_inv D s" and "byte_stream_ok st" and "sn_fin_sent s \<Longrightarrow> bs_input_ended st \<and> bs_contents st = []"
    and "length D + length (bs_contents st) < 9223372036854775808"
    and "bs_total_read_bytes st = bs_total_read_bytes (sn_stream s)"
  shows "sn_inv D (s\<lparr>sn_stream := st\<rparr>)"
  using assms by (simp add: sn_inv_def)

lemma sn_run_inv_step:
  assumes inv: "sn_run_inv isn x" and step: "sn_step x y"
  shows "sn_run_inv isn y"
proof -
  obtain s W where x: "x = (s, W)" by (cases x)
  obtain D where D: "sn_inv D s" "W = D @ bs_contents (sn_stream s)" "sn_isn s = isn"
    using inv unfolding x by (auto simp: sn_run_inv_def)
  show ?thesis
    using step unfolding x
  proof cases
    case (fill s')
    with D fill_window_ok [OF D(1)] show ?thesis
      by (simp add: sn_run_inv_def) (metis Inr_inject append_assoc)
  next
    case (ack ackno win s')
    with D ack_received_ok [OF D(1) refl, of ackno win] show ?thesis
      by (simp add: sn_run_inv_def) (metis Inr_inject append_assoc)
  next
    case (tick ms)
    with D tick_ok [OF D(1)] show ?thesis by (auto simp: sn_run_inv_def)
  next
    case empty
    with D send_empty_segment_ok [OF D(1)] show ?thesis
      by (auto simp: sn_run_inv_def TCPSender_send_empty_segment_def Let_def)
  next
    case (put data)
    then have "byte_stream_ok (sn_stream s)" "str_ok data" using D by (simp_all add: sn_inv_def)
    note w = ByteStream_write_ok [OF this]
    have "sn_inv D (s\<lparr>sn_stream := fst (ByteStream_write (sn_stream s) data)\<rparr>)"
      using D w put by (intro sn_inv_stream) (auto simp: sn_inv_def min_def)
    with w D put show ?thesis by (auto simp: sn_run_inv_def)
  next
    case end_input
    have "sn_inv D (s\<lparr>sn_stream := ByteStream_end_input (sn_stream s)\<rparr>)"
      using D by (intro sn_inv_stream) (auto simp: sn_inv_def)
    with D end_input show ?thesis by (auto simp: sn_run_inv_def)
  next
    case (pop seg rest)
    with D show ?thesis by (auto simp: sn_run_inv_def intro: sn_inv_pop)
  qed
qed

interpretation sr: invariant_system "sn_init cap rt isn" sn_step "sn_run_inv isn" for cap rt isn
proof
  show "sn_init cap rt isn s \<Longrightarrow> sn_run_inv isn s" for s
    by (simp add: sn_init_def sn_run_inv_def sn_inv_new) (simp add: TCPSender_new_def)
qed (rule sn_run_inv_step)

lemma sn_reach:
  assumes "reach (sn_init cap rt isn) sn_step (s, W)"
  obtains D where "sn_inv D s" "W = D @ bs_contents (sn_stream s)" "sn_isn s = isn"
  using sr.reach_inv [OF assms] by (auto simp: sn_run_inv_def)

text \<open>A sender that has sent its SYN, for the concrete instances.\<close>

definition demo_new :: tcp_sender where
  "demo_new = TCPSender_new 10 1000 (Some (WrappingInt32 5)) 0"

definition demo_sent :: tcp_sender where
  "demo_sent = (case TCPSender_fill_window demo_new of Inr s \<Rightarrow> s | Inl _ \<Rightarrow> demo_new)"

lemma demo_fill: "TCPSender_fill_window demo_new = Inr demo_sent"
proof (rule fill_window_ok [OF sn_inv_new [of 10 1000 "Some (WrappingInt32 5)" 0], folded demo_new_def])
  fix s' xs assume "TCPSender_fill_window demo_new = Inr s'"
  then show ?thesis by (simp add: demo_sent_def)
qed

lemma demo_reach: "reach (sn_init 10 1000 (WrappingInt32 5)) sn_step (demo_sent, [])"
proof (rule reach_step)
  show "sn_step (demo_new, []) (demo_sent, [])" by (rule sn_step.fill [OF demo_fill])
  show "reach (sn_init 10 1000 (WrappingInt32 5)) sn_step (demo_new, [])"
    by (rule reach_init) (simp add: sn_init_def demo_new_def)
qed

lemma demo_ended_reach:
  "reach (sn_init 10 1000 (WrappingInt32 5)) sn_step
     (demo_sent\<lparr>sn_stream := ByteStream_end_input (sn_stream demo_sent)\<rparr>, [])"
  by (rule reach_step [OF demo_reach]) (rule sn_step.end_input)

lemma demo_facts:
  "sn_syn demo_sent" "map fst (sn_outstanding_segments demo_sent) = [1]" "sn_wdn_sz demo_sent = 1"
  "sn_abs_ackno demo_sent = 0" "sn_next_seqno demo_sent = 1"
  by code_simp+

lemma demo_outstanding:
  obtains seg where "sn_outstanding_segments demo_sent = [(1, seg)]"
  using demo_facts(2) by auto

subsection \<open>What is sent\<close>

text \<open>
  C18. In every run of the sender: the bytes accepted by the stream are those sent and those
  still buffered. Every segment handed out is genuine for the bytes sent, carries at most
  \<^verbatim>\<open>MAX_PAYLOAD_SIZE\<close> bytes and has the FIN only at the very end of an ended stream. The outstanding
  segments are contiguous, from the first byte in flight to the next sequence number, and
  keyed by their ends; \<^verbatim>\<open>bytes_in_flight\<close> is their total length; the next sequence number counts
  the SYN, the bytes sent and the FIN; and the timer runs exactly while segments are outstanding.
\<close>

theorem sender_sends_stream:
  assumes "reach (sn_init cap rt isn) sn_step (s, W)"
  shows "\<exists>D. W = D @ bs_contents (sn_stream s) \<and>
     (\<forall>seg \<in> set (sn_segments_out s). \<exists>q. genuine isn D q seg \<and> length (Buffer_str (ts_payload seg)) \<le> unat MAX_PAYLOAD_SIZE \<and>
        (th_fin (ts_header seg) \<longrightarrow> bs_input_ended (sn_stream s) \<and> q + seg_len seg = length W + 2)) \<and>
     seg_chain isn D (sn_fin_sent s) (unat (sn_next_seqno s) - unat (sn_bytes_in_flight s))
       (sn_outstanding_segments s) (unat (sn_next_seqno s)) \<and>
     unat (sn_bytes_in_flight s) = sum_list (map (seg_len \<circ> snd) (sn_outstanding_segments s)) \<and>
     unat (sn_next_seqno s) = of_bool (sn_syn s) + length D + of_bool (sn_fin_sent s) \<and>
     (sn_timer_on s \<longleftrightarrow> sn_outstanding_segments s \<noteq> [])"
proof -
  obtain D where D: "sn_inv D s" "W = D @ bs_contents (sn_stream s)" "sn_isn s = isn" using sn_reach [OF assms] .
  then have fl: "flight_ok D (sn_fin_sent s) s" and fin: "sn_fin_sent s \<Longrightarrow> bs_input_ended (sn_stream s) \<and> W = D"
    and n: "unat (sn_next_seqno s) = of_bool (sn_syn s) + length D + of_bool (sn_fin_sent s)"
    by (simp_all add: sn_inv_def)
  obtain a where a: "seg_chain isn D (sn_fin_sent s) a (sn_outstanding_segments s) (unat (sn_next_seqno s))"
    "a + unat (sn_bytes_in_flight s) = unat (sn_next_seqno s)" using fl D(3) by (auto simp: flight_ok_def)
  then have "a = unat (sn_next_seqno s) - unat (sn_bytes_in_flight s)"
    "unat (sn_bytes_in_flight s) = sum_list (map (seg_len \<circ> snd) (sn_outstanding_segments s))"
    using seg_chain_sum [OF a(1)] by linarith+
  moreover have "\<exists>q. genuine isn D q seg \<and> length (Buffer_str (ts_payload seg)) \<le> unat MAX_PAYLOAD_SIZE \<and>
      (th_fin (ts_header seg) \<longrightarrow> bs_input_ended (sn_stream s) \<and> q + seg_len seg = length W + 2)"
    if "seg \<in> set (sn_segments_out s)" for seg
    using fl that D(3) fin by (fastforce simp: flight_ok_def sent_at_def MAX_PAYLOAD_SIZE_def)
  ultimately show ?thesis using a(1) D(2) n fl unfolding flight_ok_def by blast
qed

theorem sender_sends_stream_witness:
  "unat (sn_bytes_in_flight demo_sent) = sum_list (map (seg_len \<circ> snd) (sn_outstanding_segments demo_sent)) \<and>
     sn_timer_on demo_sent \<and> sn_outstanding_segments demo_sent \<noteq> []"
  using sender_sends_stream [OF demo_reach] demo_facts(2) by auto

subsection \<open>The window\<close>

lemma keys_around:
  assumes "seg_chain isn D fs a0 (pre @ (a, seg) # rest) n"
  shows "filter (\<lambda>p. a < fst p) (pre @ (a, seg) # rest) = rest"
proof -
  obtain b where b: "seg_chain isn D fs a0 pre b" "unat a = b + seg_len seg" "0 < seg_len seg"
    "seg_chain isn D fs (unat a) rest n" using assms by (auto simp: seg_chain_append)
  have "\<forall>p \<in> set pre. \<not> a < fst p" "\<forall>p \<in> set rest. a < fst p"
    using seg_chain_keys [OF b(1)] seg_chain_keys [OF b(4)] b(2,3) by (fastforce simp: word_less_nat_alt)+
  then show ?thesis by (simp add: filter_empty_conv filter_id_conv)
qed

lemma ack_erase_outstanding:
  assumes "flight_ok D fs s"
  shows "sn_outstanding_segments (ack_erase a s) =
     (if a \<in> fst ` set (sn_outstanding_segments s) then filter (\<lambda>p. a < fst p) (sn_outstanding_segments s)
      else sn_outstanding_segments s)"
proof (cases "dropWhile (\<lambda>(k, _). k \<noteq> a) (sn_outstanding_segments s)")
  case Nil
  then have "a \<notin> fst ` set (sn_outstanding_segments s)" by (fastforce simp: dropWhile_eq_Nil_conv)
  with Nil show ?thesis unfolding ack_erase_def by (simp only: list.case if_False)
next
  case (Cons e rest)
  obtain k seg where e: "e = (k, seg)" by (cases e)
  let ?pre = "takeWhile (\<lambda>(k, _). k \<noteq> a) (sn_outstanding_segments s)"
  have es: "sn_outstanding_segments s = ?pre @ (a, seg) # rest" using split_at_key Cons e by metis
  obtain a0 where "seg_chain (sn_isn s) D fs a0 (sn_outstanding_segments s) (unat (sn_next_seqno s))"
    using assms by (auto simp: flight_ok_def)
  then have "filter (\<lambda>p. a < fst p) (sn_outstanding_segments s) = rest"
    using keys_around es by metis
  moreover have "a \<in> fst ` set (sn_outstanding_segments s)" by (subst es) simp
  moreover have "sn_outstanding_segments (ack_erase a s) = rest"
    unfolding ack_erase_def Cons e by (simp add: Let_def)
  ultimately show ?thesis by simp
qed

text \<open>
  C19. \<^verbatim>\<open>fill_window\<close> returns in every reachable state (its loop ends and nothing throws) and sends as
  much as it may: the first call sends the SYN alone, with the initial sequence number; later
  ones send until the window is used up or all buffered bytes are sent, with the FIN behind
  them when the stream has ended, and what they send is taken off the window exactly.
\<close>

theorem fill_window_maximal:
  assumes "reach (sn_init cap rt isn) sn_step (s, W)"
  shows "\<exists>s'. TCPSender_fill_window s = Inr s' \<and>
     (if sn_syn s
      then window_filled s' \<and>
        unat (sn_next_seqno s') + unat (sn_recv_wdn_sz s') = unat (sn_next_seqno s) + unat (sn_recv_wdn_sz s)
      else sn_segments_out s' = sn_segments_out s @
        [TCPSegment_new\<lparr>ts_header := TCPHeader_new\<lparr>th_syn := True, th_seqno := isn\<rparr>\<rparr>] \<and> unat (sn_next_seqno s') = 1)"
proof -
  obtain D where D: "sn_inv D s" "sn_isn s = isn" using sn_reach [OF assms] by metis
  show ?thesis
  proof (cases "sn_syn s")
    case True
    with fill_window_data [OF D(1)] show ?thesis by (metis filled_def)
  next
    case False
    with D have "sn_inv [] s" by (auto simp: sn_inv_def)
    from fill_window_syn [OF this False] D False show ?thesis by metis
  qed
qed

theorem fill_window_maximal_witness:
  "sn_syn demo_sent \<and> (\<exists>s'. TCPSender_fill_window demo_sent = Inr s' \<and> window_filled s' \<and>
     unat (sn_next_seqno s') + unat (sn_recv_wdn_sz s') = unat (sn_next_seqno demo_sent) + unat (sn_recv_wdn_sz demo_sent))"
  using fill_window_maximal [OF demo_reach] demo_facts(1) by auto

text \<open>
  C20. \<^verbatim>\<open>ack_received\<close> returns in every reachable state after the SYN. An acknowledgment beyond
  what was sent changes nothing; one whose window ends before the next sequence number only
  closes the window. Any other one is recorded, erases the outstanding segments up to it when
  it is the end of one of them (and none otherwise), and fills the window: afterwards the
  sender has sent, or has left to send, exactly up to the end of the advertised window, where
  an advertised window of 0 counts as 1.
\<close>

theorem ack_received_flow:
  assumes "reach (sn_init cap rt isn) sn_step (s, W)" and "sn_syn s"
  shows "\<exists>s'. TCPSender_ack_received ackno win s = Inr s' \<and>
     (let a = unwrap ackno isn (sn_abs_ackno s) in
      if sn_next_seqno s < a then s' = s
      else if unat a + unat win < unat (sn_next_seqno s) then s' = s\<lparr>sn_recv_wdn_sz := 0\<rparr>
      else sn_abs_ackno s' = a \<and> window_filled s' \<and>
        unat (sn_next_seqno s') + unat (sn_recv_wdn_sz s') = unat a + max 1 (unat win) \<and>
        (\<exists>new. sn_outstanding_segments s' =
           (if a \<in> fst ` set (sn_outstanding_segments s)
            then filter (\<lambda>p. a < fst p) (sn_outstanding_segments s) else sn_outstanding_segments s) @ new))"
proof -
  obtain D where D: "sn_inv D s" "sn_isn s = isn" using sn_reach [OF assms(1)] by metis
  define a where "a = unwrap ackno isn (sn_abs_ackno s)"
  have fl: "flight_ok D (sn_fin_sent s) s" using D by (simp add: sn_inv_def)
  have eq: "TCPSender_ack_received ackno win s = (if sn_next_seqno s < a then Inr s
      else if a + ucast win < sn_next_seqno s then Inr (s\<lparr>sn_recv_wdn_sz := 0\<rparr>)
      else TCPSender_fill_window (ack_state a win s))"
    by (rule ack_received_eq [OF fl]) (simp add: a_def D)
  have small: "a + ucast win < sn_next_seqno s \<longleftrightarrow> unat a + unat win < unat (sn_next_seqno s)" if "\<not> sn_next_seqno s < a"
    using window_end_less [OF D(1) that] .
  show ?thesis
  proof (cases "sn_next_seqno s < a \<or> a + ucast win < sn_next_seqno s")
    case True
    with eq small show ?thesis by (auto simp: Let_def a_def [symmetric])
  next
    case False
    then have a: "\<not> sn_next_seqno s < a" "\<not> a + ucast win < sn_next_seqno s" by auto
    note ok = ack_state_ok [OF D(1) a]
    have syn: "sn_syn (ack_state a win s)" using assms(2) by simp
    from fill_window_data [OF ok(1) syn] obtain s' xs where s': "TCPSender_fill_window (ack_state a win s) = Inr s'"
      "filled D (ack_state a win s) xs s'" "window_filled s'" .
    have "sn_outstanding_segments (ack_state a win s) = (if a \<in> fst ` set (sn_outstanding_segments s)
        then filter (\<lambda>p. a < fst p) (sn_outstanding_segments s) else sn_outstanding_segments s)"
      using ack_erase_outstanding [of D "sn_fin_sent s" "s\<lparr>sn_abs_ackno := a, sn_wdn_sz := win\<rparr>" a] fl
      by (simp add: ack_state_def Let_def)
    with s' ok(2) eq a small [OF a(1)] show ?thesis
      by (simp add: Let_def a_def [symmetric]) (simp add: filled_def split: if_splits)
  qed
qed

theorem ack_received_flow_witness:
  "\<exists>s'. TCPSender_ack_received (WrappingInt32 6) 4 demo_sent = Inr s' \<and> window_filled s' \<and>
     unat (sn_next_seqno s') + unat (sn_recv_wdn_sz s') = 5"
proof -
  have "unwrap (WrappingInt32 6) (WrappingInt32 5) 0 = 1" by code_simp
  with ack_received_flow [OF demo_reach demo_facts(1), of "WrappingInt32 6" 4] demo_facts(4,5)
  show ?thesis by (auto simp: Let_def)
qed

lemma window_filled_complete:
  assumes inv: "sn_inv D s" and "sn_syn s" and "window_filled s" and "bs_input_ended (sn_stream s)"
    and win: "length D + length (bs_contents (sn_stream s)) + 2 \<le> unat (sn_next_seqno s) + unat (sn_recv_wdn_sz s)"
  shows "sn_fin_sent s" "bs_contents (sn_stream s) = []"
proof -
  have n: "unat (sn_next_seqno s) = 1 + length D + of_bool (sn_fin_sent s)"
    and fin: "sn_fin_sent s \<Longrightarrow> bs_contents (sn_stream s) = []" using assms by (simp_all add: sn_inv_def)
  have "sn_fin_sent s"
    using assms(3,4) n win by (cases "sn_fin_sent s"; cases "sn_recv_wdn_sz s = 0") (auto simp: window_filled_def)
  with fin show "sn_fin_sent s" "bs_contents (sn_stream s) = []" by simp_all
qed

lemma seg_chain_last: "seg_chain isn D fs a es n \<Longrightarrow> es \<noteq> [] \<Longrightarrow> \<exists>k \<in> fst ` set es. unat k = n"
  by (induction es arbitrary: a) force+

lemma ack_all_erased:
  assumes "flight_ok D fs s" and "a = sn_next_seqno s"
  shows "sn_outstanding_segments (ack_erase a s) = []"
proof -
  obtain a0 where c: "seg_chain (sn_isn s) D fs a0 (sn_outstanding_segments s) (unat a)"
    using assms by (auto simp: flight_ok_def)
  have "filter (\<lambda>p. a < fst p) (sn_outstanding_segments s) = []"
    using seg_chain_keys [OF c] by (force simp: filter_empty_conv word_less_nat_alt)
  moreover have "sn_outstanding_segments s = [] \<or> a \<in> fst ` set (sn_outstanding_segments s)"
    using seg_chain_last [OF c] by (metis word_unat_eq_iff)
  ultimately show ?thesis unfolding ack_erase_outstanding [OF assms(1)] by auto
qed

text \<open>
  C21. Once the stream has ended, an acceptable acknowledgment whose window reaches past the
  stream makes the sender send everything that is left and the FIN; and when it acknowledges
  everything, nothing stays outstanding, no byte is in flight and the timer is off.
\<close>

theorem sender_completes:
  assumes "reach (sn_init cap rt isn) sn_step (s, W)" and "sn_syn s" and "bs_input_ended (sn_stream s)"
    and "unwrap ackno isn (sn_abs_ackno s) = a" and "unat a \<le> unat (sn_next_seqno s)"
    and "length W + 2 \<le> unat a + unat win"
  shows "\<exists>s'. TCPSender_ack_received ackno win s = Inr s' \<and> sn_fin_sent s' \<and> bs_contents (sn_stream s') = [] \<and>
     unat (sn_next_seqno s') = length W + 2 \<and>
     (unat a = length W + 2 \<longrightarrow>
        sn_outstanding_segments s' = [] \<and> sn_bytes_in_flight s' = 0 \<and> \<not> sn_timer_on s')"
proof -
  obtain D where D: "sn_inv D s" "W = D @ bs_contents (sn_stream s)" "sn_isn s = isn" using sn_reach [OF assms(1)] .
  have fl: "flight_ok D (sn_fin_sent s) s" using D by (simp add: sn_inv_def)
  have n: "unat (sn_next_seqno s) \<le> length W + 2" using D by (auto simp: sn_inv_def)
  have a: "\<not> sn_next_seqno s < a" using assms(5) by (simp add: word_less_nat_alt)
  then have a2: "\<not> a + ucast win < sn_next_seqno s" using window_end_less [OF D(1) a] assms(6) n by simp
  have run: "TCPSender_ack_received ackno win s = TCPSender_fill_window (ack_state a win s)"
    using ack_received_eq [OF fl] assms(4) D(3) a a2 by simp
  note ok = ack_state_ok [OF D(1) a a2]
  from fill_window_data [OF ok(1)] assms(2) obtain s' xs where
    s': "TCPSender_fill_window (ack_state a win s) = Inr s'" "filled D (ack_state a win s) xs s'" "window_filled s'"
    by auto
  then have inv': "sn_inv (D @ xs) s'" "sn_syn s'" and W: "W = (D @ xs) @ bs_contents (sn_stream s')"
    and sum: "unat (sn_next_seqno s') + unat (sn_recv_wdn_sz s') = unat a + max 1 (unat win)"
    and e: "bs_input_ended (sn_stream s')" using D(2) ok(2) assms(3) by (simp_all add: filled_def)
  have "length (D @ xs) + length (bs_contents (sn_stream s')) + 2 \<le> unat (sn_next_seqno s') + unat (sn_recv_wdn_sz s')"
    using sum assms(6) arg_cong [OF W, of length] by simp
  note fin = window_filled_complete [OF inv' s'(3) e this]
  then have n': "unat (sn_next_seqno s') = length W + 2" using inv' W by (simp add: sn_inv_def)
  have "sn_outstanding_segments s' = [] \<and> sn_bytes_in_flight s' = 0 \<and> \<not> sn_timer_on s'" if all: "unat a = length W + 2"
  proof -
    have an: "a = sn_next_seqno s" using all n assms(5) by (simp add: unat_eq_iff)
    then have "sn_fin_sent s" using D all assms(2) by (cases "sn_fin_sent s") (auto simp: sn_inv_def)
    then have "s' = ack_state a win s" using fill_window_idle [OF ok(1)] s'(1) by simp
    moreover have "sn_outstanding_segments (ack_erase a (s\<lparr>sn_abs_ackno := a, sn_wdn_sz := win\<rparr>)) = []"
      using fl an by (intro ack_all_erased [of D "sn_fin_sent s"]) simp_all
    ultimately have "sn_outstanding_segments s' = []" by (simp add: ack_state_def Let_def)
    with inv'(1) show ?thesis by (auto simp: sn_inv_def flight_ok_def unat_eq_iff)
  qed
  with run s'(1) fin n' show ?thesis by (intro exI [of _ s']) simp
qed

theorem sender_completes_witness:
  "\<exists>s'. TCPSender_ack_received (WrappingInt32 6) 4 (demo_sent\<lparr>sn_stream := ByteStream_end_input (sn_stream demo_sent)\<rparr>) = Inr s' \<and>
     sn_fin_sent s' \<and> bs_contents (sn_stream s') = [] \<and> unat (sn_next_seqno s') = 2"
proof -
  have "unwrap (WrappingInt32 6) (WrappingInt32 5) 0 = 1" by code_simp
  with sender_completes [OF demo_ended_reach, of "WrappingInt32 6" 1 4] demo_facts
  show ?thesis by auto
qed

subsection \<open>Retransmission\<close>

text \<open>What a tick is to do while \<open>seg\<close> is the oldest outstanding segment.\<close>

definition tick_armed :: "u64 \<Rightarrow> tcp_segment \<Rightarrow> tcp_sender \<Rightarrow> tcp_sender" where
  "tick_armed ms seg s =
     (if sn_elapsed_time s + ms < ucast (sn_rto s) then s\<lparr>sn_elapsed_time := sn_elapsed_time s + ms\<rparr>
      else if sn_wdn_sz s = 0 then s\<lparr>sn_segments_out := sn_segments_out s @ [seg], sn_elapsed_time := 0\<rparr>
      else s\<lparr>sn_segments_out := sn_segments_out s @ [seg], sn_elapsed_time := 0, sn_rto := 2 * sn_rto s,
             sn_consecutive_retransmissions := sn_consecutive_retransmissions s + 1\<rparr>)"

lemma tick_idle: "\<not> sn_timer_on s \<Longrightarrow> TCPSender_tick ms s = s"
  by (simp add: TCPSender_tick_def)

lemma tick_running:
  assumes "sn_timer_on s" and "sn_outstanding_segments s = (k, seg) # es"
  shows "TCPSender_tick ms s = tick_armed ms seg s"
proof -
  obtain a b c d e f g h i j w l m n r x y z where
    s: "s = \<lparr>sn_isn = a, sn_segments_out = b, sn_initial_retransmission_timeout = c, sn_stream = d, sn_next_seqno = e,
      sn_outstanding_segments = f, sn_bytes_in_flight = g, sn_syn = h, sn_fin_sent = i, sn_wdn_sz = w, sn_abs_ackno = j,
      sn_recv_wdn_sz = l, sn_max_abs_seqno = m, sn_rto = r, sn_consecutive_retransmissions = x, sn_elapsed_time = y,
      sn_timer_on = z\<rparr>" by (cases s)
  have "w = 0 \<or> 0 < w" by (simp add: word_gt_0)
  then show ?thesis
    using assms by (cases "y + ms < ucast r")
      (auto simp: s TCPSender_tick_def tick_armed_def Let_def linorder_not_le [symmetric] mult.commute)
qed

text \<open>
  C22. \<^verbatim>\<open>tick\<close> in every reachable state: nothing happens while no segment is outstanding. Otherwise
  the time is added; when the timer has not run out, nothing else changes, and when it has,
  the oldest outstanding segment, the one at the start of what is in flight, is sent again
  unchanged and the timer restarts, with the timeout doubled and the retransmission counted
  unless the last advertised window was 0.
\<close>

theorem tick_retransmits_oldest:
  assumes "reach (sn_init cap rt isn) sn_step (s, W)"
  shows "TCPSender_tick ms s =
     (case sn_outstanding_segments s of [] \<Rightarrow> s | e # _ \<Rightarrow> tick_armed ms (snd e) s) \<and>
     (\<forall>k seg es. sn_outstanding_segments s = (k, seg) # es \<longrightarrow>
        th_seqno (ts_header seg) = wrap (sn_next_seqno s - sn_bytes_in_flight s) isn)"
proof -
  obtain D where D: "sn_inv D s" "sn_isn s = isn" using sn_reach [OF assms] by metis
  then have timer: "sn_timer_on s \<longleftrightarrow> sn_outstanding_segments s \<noteq> []" by (simp add: sn_inv_def flight_ok_def)
  obtain a where a: "seg_chain isn D (sn_fin_sent s) a (sn_outstanding_segments s) (unat (sn_next_seqno s))"
    "a + unat (sn_bytes_in_flight s) = unat (sn_next_seqno s)" using D by (auto simp: sn_inv_def flight_ok_def)
  have "of_nat (a + unat (sn_bytes_in_flight s)) = sn_next_seqno s" unfolding a(2) by simp
  then have first: "of_nat a = sn_next_seqno s - sn_bytes_in_flight s" by (simp add: eq_diff_eq)
  have "th_seqno (ts_header seg) = wrap (sn_next_seqno s - sn_bytes_in_flight s) isn"
    if "sn_outstanding_segments s = (k, seg) # es" for k seg es
    using a(1) that by (simp add: first [symmetric] sent_at_def genuine_def)
  moreover have "TCPSender_tick ms s = (case sn_outstanding_segments s of [] \<Rightarrow> s | e # _ \<Rightarrow> tick_armed ms (snd e) s)"
    using tick_idle tick_running timer by (cases "sn_outstanding_segments s") fastforce+
  ultimately show ?thesis by blast
qed

theorem tick_retransmits_oldest_witness:
  "\<exists>seg. sn_outstanding_segments demo_sent = [(1, seg)] \<and> TCPSender_tick 7 demo_sent = tick_armed 7 seg demo_sent"
proof -
  obtain seg where "sn_outstanding_segments demo_sent = [(1, seg)]" by (rule demo_outstanding)
  with tick_retransmits_oldest [OF demo_reach, of 7] show ?thesis by simp
qed

text \<open>The timer running out: the tick that brings the elapsed time to the timeout.\<close>

definition expire :: "tcp_sender \<Rightarrow> tcp_sender" where
  "expire s = TCPSender_tick (ucast (sn_rto s) - sn_elapsed_time s) s"

lemma expire_once:
  assumes "sn_timer_on s" and "sn_outstanding_segments s = (k, seg) # es" and "0 < sn_wdn_sz s"
  shows "expire s = s\<lparr>sn_segments_out := sn_segments_out s @ [seg], sn_elapsed_time := 0, sn_rto := 2 * sn_rto s,
     sn_consecutive_retransmissions := sn_consecutive_retransmissions s + 1\<rparr>"
  using assms by (simp add: expire_def tick_running tick_armed_def)

text \<open>
  C23. Exponential backoff: when the timer runs out \<open>n\<close> times in a row with no acknowledgment in
  between, while the peer's window is open, the oldest outstanding segment is sent \<open>n\<close> times
  more, the timeout is \<open>2 ^ n\<close> times what it was and \<open>n\<close> consecutive retransmissions are counted;
  nothing else is sent and nothing leaves the flight.
\<close>

theorem retransmission_backoff:
  assumes "reach (sn_init cap rt isn) sn_step (s, W)" and "sn_outstanding_segments s = (k, seg) # es"
    and "0 < sn_wdn_sz s"
  shows "sn_segments_out ((expire ^^ n) s) = sn_segments_out s @ replicate n seg \<and>
     sn_rto ((expire ^^ n) s) = 2 ^ n * sn_rto s \<and>
     sn_consecutive_retransmissions ((expire ^^ n) s) = sn_consecutive_retransmissions s + of_nat n \<and>
     sn_outstanding_segments ((expire ^^ n) s) = sn_outstanding_segments s \<and>
     sn_bytes_in_flight ((expire ^^ n) s) = sn_bytes_in_flight s"
proof -
  have timer: "sn_timer_on s"
    using sn_reach [OF assms(1)] assms(2) by (metis sn_inv_def flight_ok_def list.distinct(1))
  have "(expire ^^ n) s = s\<lparr>sn_segments_out := sn_segments_out s @ replicate n seg,
      sn_elapsed_time := if n = 0 then sn_elapsed_time s else 0, sn_rto := 2 ^ n * sn_rto s,
      sn_consecutive_retransmissions := sn_consecutive_retransmissions s + of_nat n\<rparr>"
  proof (induction n)
    case (Suc n)
    show ?case
      unfolding funpow.simps o_apply Suc.IH
      by (subst expire_once) (use timer assms(2,3) in \<open>simp_all add: replicate_append_same [symmetric] ac_simps\<close>)
  qed (cases s; simp)
  then show ?thesis by simp
qed

theorem retransmission_backoff_witness:
  "\<exists>seg. sn_segments_out ((expire ^^ 3) demo_sent) = sn_segments_out demo_sent @ replicate 3 seg \<and>
     sn_rto ((expire ^^ 3) demo_sent) = 2 ^ 3 * sn_rto demo_sent"
proof -
  obtain seg where "sn_outstanding_segments demo_sent = [(1, seg)]" by (rule demo_outstanding)
  with retransmission_backoff [OF demo_reach, of 1 seg "[]" 3] demo_facts(3) show ?thesis by auto
qed

end
