(* ===== verification/TCP_State.thy ===== *)
theory TCP_State
  imports Sender_Runs
begin

text \<open>
  \<^verbatim>\<open>libsponge/tcp_helpers/tcp_state.hh\<close> and \<^verbatim>\<open>tcp_state.cc\<close>: the official names of the states of a
  TCP connection, and the summary of the sender, the receiver and the two bits of the
  connection that the program compares them with. The property says what each summary of the
  sender means for its stream.
\<close>

subsection \<open>State names\<close>

datatype tcp_state_name = LISTEN | SYN_RCVD | SYN_SENT | ESTABLISHED | CLOSE_WAIT | LAST_ACK
  | FIN_WAIT_1 | FIN_WAIT_2 | CLOSING | TIME_WAIT | CLOSED | RESET

definition receiver_ERROR :: string where "receiver_ERROR = ''error (connection was reset)''"
definition receiver_LISTEN :: string where "receiver_LISTEN = ''waiting for SYN: ackno is empty''"
definition receiver_SYN_RECV :: string where
  "receiver_SYN_RECV = ''SYN received (ackno exists), and input to stream hasn't ended''"
definition receiver_FIN_RECV :: string where "receiver_FIN_RECV = ''input to stream has ended''"

definition sender_ERROR :: string where "sender_ERROR = ''error (connection was reset)''"
definition sender_CLOSED :: string where "sender_CLOSED = ''waiting for stream to begin (no SYN sent)''"
definition sender_SYN_SENT :: string where "sender_SYN_SENT = ''stream started but nothing acknowledged''"
definition sender_SYN_ACKED :: string where "sender_SYN_ACKED = ''stream ongoing''"
definition sender_FIN_SENT :: string where
  "sender_FIN_SENT = ''stream finished (FIN sent) but not fully acknowledged''"
definition sender_FIN_ACKED :: string where "sender_FIN_ACKED = ''stream finished and fully acknowledged''"

record tcp_state =
  st_sender :: string
  st_receiver :: string
  st_active :: bool
  st_linger :: bool

definition TCPState_eq :: "tcp_state \<Rightarrow> tcp_state \<Rightarrow> bool" where
  "TCPState_eq a b \<longleftrightarrow> st_active a = st_active b \<and> st_linger a = st_linger b \<and>
     st_sender a = st_sender b \<and> st_receiver a = st_receiver b"

definition TCPState_neq :: "tcp_state \<Rightarrow> tcp_state \<Rightarrow> bool" where
  "TCPState_neq a b \<longleftrightarrow> \<not> TCPState_eq a b"

text \<open>\<^verbatim>\<open>std::to_string\<close> of a bool.\<close>

definition bool_to_string :: "bool \<Rightarrow> string" where
  "bool_to_string b = (if b then ''1'' else ''0'')"

definition TCPState_name :: "tcp_state \<Rightarrow> string" where
  "TCPState_name s = ''sender=`'' @ st_sender s @ ''`, receiver=`'' @ st_receiver s @ ''`, active='' @
     bool_to_string (st_active s) @ '', linger_after_streams_finish='' @ bool_to_string (st_linger s)"

fun TCPState_of_name :: "tcp_state_name \<Rightarrow> tcp_state" where
  "TCPState_of_name LISTEN =
     \<lparr>st_sender = sender_CLOSED, st_receiver = receiver_LISTEN, st_active = True, st_linger = True\<rparr>"
| "TCPState_of_name SYN_RCVD =
     \<lparr>st_sender = sender_SYN_SENT, st_receiver = receiver_SYN_RECV, st_active = True, st_linger = True\<rparr>"
| "TCPState_of_name SYN_SENT =
     \<lparr>st_sender = sender_SYN_SENT, st_receiver = receiver_LISTEN, st_active = True, st_linger = True\<rparr>"
| "TCPState_of_name ESTABLISHED =
     \<lparr>st_sender = sender_SYN_ACKED, st_receiver = receiver_SYN_RECV, st_active = True, st_linger = True\<rparr>"
| "TCPState_of_name CLOSE_WAIT =
     \<lparr>st_sender = sender_SYN_ACKED, st_receiver = receiver_FIN_RECV, st_active = True, st_linger = False\<rparr>"
| "TCPState_of_name LAST_ACK =
     \<lparr>st_sender = sender_FIN_SENT, st_receiver = receiver_FIN_RECV, st_active = True, st_linger = False\<rparr>"
| "TCPState_of_name CLOSING =
     \<lparr>st_sender = sender_FIN_SENT, st_receiver = receiver_FIN_RECV, st_active = True, st_linger = True\<rparr>"
| "TCPState_of_name FIN_WAIT_1 =
     \<lparr>st_sender = sender_FIN_SENT, st_receiver = receiver_SYN_RECV, st_active = True, st_linger = True\<rparr>"
| "TCPState_of_name FIN_WAIT_2 =
     \<lparr>st_sender = sender_FIN_ACKED, st_receiver = receiver_SYN_RECV, st_active = True, st_linger = True\<rparr>"
| "TCPState_of_name TIME_WAIT =
     \<lparr>st_sender = sender_FIN_ACKED, st_receiver = receiver_FIN_RECV, st_active = True, st_linger = True\<rparr>"
| "TCPState_of_name RESET =
     \<lparr>st_sender = sender_ERROR, st_receiver = receiver_ERROR, st_active = False, st_linger = False\<rparr>"
| "TCPState_of_name CLOSED =
     \<lparr>st_sender = sender_FIN_ACKED, st_receiver = receiver_FIN_RECV, st_active = False, st_linger = False\<rparr>"

definition receiver_summary :: "tcp_receiver \<Rightarrow> string" where
  "receiver_summary receiver =
     (if bs_error (ra_output (rc_reassembler receiver)) then receiver_ERROR
      else if TCPReceiver_ackno receiver = None then receiver_LISTEN
      else if bs_input_ended (ra_output (rc_reassembler receiver)) then receiver_FIN_RECV
      else receiver_SYN_RECV)"

definition sender_summary :: "tcp_sender \<Rightarrow> string" where
  "sender_summary sender =
     (if bs_error (sn_stream sender) then sender_ERROR
      else if sn_next_seqno sender = 0 then sender_CLOSED
      else if sn_next_seqno sender = sn_bytes_in_flight sender then sender_SYN_SENT
      else if \<not> ByteStream_eof (sn_stream sender) then sender_SYN_ACKED
      else if sn_next_seqno sender < bs_total_written_bytes (sn_stream sender) + 2 then sender_SYN_ACKED
      else if sn_bytes_in_flight sender \<noteq> 0 then sender_FIN_SENT
      else sender_FIN_ACKED)"

definition TCPState_new :: "tcp_sender \<Rightarrow> tcp_receiver \<Rightarrow> bool \<Rightarrow> bool \<Rightarrow> tcp_state" where
  "TCPState_new sender receiver active linger =
     \<lparr>st_sender = sender_summary sender, st_receiver = receiver_summary receiver, st_active = active,
      st_linger = (if active then linger else False)\<rparr>"

lemmas summary_defs = receiver_ERROR_def receiver_LISTEN_def receiver_SYN_RECV_def receiver_FIN_RECV_def
  sender_ERROR_def sender_CLOSED_def sender_SYN_SENT_def sender_SYN_ACKED_def sender_FIN_SENT_def sender_FIN_ACKED_def

subsection \<open>What the names say\<close>

text \<open>What a sender has achieved: its SYN is not sent, not acknowledged, or acknowledged; its FIN likewise.\<close>

definition syn_outstanding :: "tcp_sender \<Rightarrow> bool" where
  "syn_outstanding s \<longleftrightarrow> (case sn_outstanding_segments s of [] \<Rightarrow> False | (_, seg) # _ \<Rightarrow> th_syn (ts_header seg))"

lemma syn_outstanding_iff:
  assumes inv: "sn_inv D s" and syn: "sn_syn s"
  shows "sn_next_seqno s = sn_bytes_in_flight s \<longleftrightarrow> syn_outstanding s"
proof -
  obtain a where a: "seg_chain (sn_isn s) D (sn_fin_sent s) a (sn_outstanding_segments s) (unat (sn_next_seqno s))"
    "a + unat (sn_bytes_in_flight s) = unat (sn_next_seqno s)" using inv by (auto simp: sn_inv_def flight_ok_def)
  have n: "unat (sn_next_seqno s) \<noteq> 0" using inv syn by (simp add: sn_inv_def)
  have zero: "sn_next_seqno s = sn_bytes_in_flight s \<longleftrightarrow> a = 0" using a(2) unfolding unat_eq_iff by linarith
  show ?thesis
  proof (cases "sn_outstanding_segments s")
    case Nil
    with a n show ?thesis unfolding zero by (simp add: syn_outstanding_def)
  next
    case (Cons e es)
    obtain k seg where e: "e = (k, seg)" by (cases e)
    have sent: "sent_at (sn_isn s) D (sn_fin_sent s) a seg" "0 < seg_len seg" using a(1) Cons e by auto
    then have "th_syn (ts_header seg) \<longleftrightarrow> a = 0"
      by (auto simp: sent_at_def genuine_def Let_def seg_len_def split: if_splits)
    with Cons e show ?thesis unfolding zero by (simp add: syn_outstanding_def)
  qed
qed

text \<open>
  C24. The summary of the sender names the phase of its stream in every run: it is CLOSED before
  the SYN is sent, SYN_SENT while the SYN is the oldest outstanding segment, SYN_ACKED until
  the FIN is sent, FIN_SENT while anything is outstanding and FIN_ACKED when nothing is. The
  arithmetic of the code on sequence numbers, written bytes and bytes in flight decides
  exactly this.
\<close>

theorem sender_summary_meaning:
  assumes "reach (sn_init cap rt isn) sn_step (s, W)"
  shows "sender_summary s =
     (if bs_error (sn_stream s) then sender_ERROR
      else if \<not> sn_syn s then sender_CLOSED
      else if syn_outstanding s then sender_SYN_SENT
      else if \<not> sn_fin_sent s then sender_SYN_ACKED
      else if sn_outstanding_segments s \<noteq> [] then sender_FIN_SENT
      else sender_FIN_ACKED)"
proof -
  obtain D where D: "sn_inv D s" "W = D @ bs_contents (sn_stream s)" using sn_reach [OF assms] by metis
  have ok: "byte_stream_ok (sn_stream s)" and n: "unat (sn_next_seqno s) = of_bool (sn_syn s) + length D + of_bool (sn_fin_sent s)"
    and fin: "sn_fin_sent s \<Longrightarrow> sn_syn s \<and> bs_input_ended (sn_stream s) \<and> bs_contents (sn_stream s) = []"
    and nosyn: "\<not> sn_syn s \<Longrightarrow> D = []"
    and small: "length D + length (bs_contents (sn_stream s)) < 9223372036854775808" using D by (auto simp: sn_inv_def)
  have closed: "sn_next_seqno s = 0 \<longleftrightarrow> \<not> sn_syn s" using n nosyn fin by (auto simp: unat_eq_iff)
  have eof: "ByteStream_eof (sn_stream s) \<longleftrightarrow> bs_input_ended (sn_stream s) \<and> bs_contents (sn_stream s) = []"
    using ok by (rule eof_iff)
  have "bs_total_written_bytes (sn_stream s) = size64 W"
    using D ok by (simp add: sn_inv_def byte_stream_ok_def)
  then have "unat (bs_total_written_bytes (sn_stream s) + 2) = length W + 2"
    using small D(2) by (simp add: unat_add_nowrap)
  then have unsent: "sn_next_seqno s < bs_total_written_bytes (sn_stream s) + 2 \<longleftrightarrow> \<not> sn_fin_sent s"
    if "sn_syn s" "bs_contents (sn_stream s) = []"
    using n that D(2) by (auto simp: word_less_nat_alt)
  have "sn_bytes_in_flight s = 0 \<longleftrightarrow> sn_outstanding_segments s = []"
  proof -
    obtain a where a: "seg_chain (sn_isn s) D (sn_fin_sent s) a (sn_outstanding_segments s) (unat (sn_next_seqno s))"
      "a + unat (sn_bytes_in_flight s) = unat (sn_next_seqno s)" using D by (auto simp: sn_inv_def flight_ok_def)
    show ?thesis
      using seg_chain_sum [OF a(1)] a by (cases "sn_outstanding_segments s") (auto simp: unat_eq_iff)
  qed
  with closed eof unsent fin syn_outstanding_iff [OF D(1)] show ?thesis
    by (auto simp: sender_summary_def)
qed

theorem sender_summary_meaning_witness: "sender_summary demo_sent = sender_SYN_SENT"
proof -
  have "syn_outstanding demo_sent" "\<not> bs_error (sn_stream demo_sent)" by code_simp+
  with sender_summary_meaning [OF demo_reach] demo_facts(1) show ?thesis by simp
qed

end
