(* ===== verification/TCP_Connection.thy ===== *)
theory TCP_Connection
  imports TCP_State
begin

text \<open>
  \<^verbatim>\<open>libsponge/tcp_connection.hh\<close> and \<^verbatim>\<open>tcp_connection.cc\<close>: an endpoint of a connection, made of a
  receiver for the inbound stream, a sender for the outbound one and the queue of the
  segments to be put on the wire.
\<close>

subsection \<open>State and operations\<close>

record tcp_connection =
  tc_cfg :: tcp_config
  tc_receiver :: tcp_receiver
  tc_sender :: tcp_sender
  tc_segments_out :: "tcp_segment list"
  tc_linger :: bool
  tc_time_since_last_segment_received :: u64
  tc_initiator :: bool

text \<open>The last argument is the value of the random device for a sender without fixed sequence number.\<close>

definition TCPConnection_new :: "tcp_config \<Rightarrow> u32 \<Rightarrow> tcp_connection" where
  "TCPConnection_new cfg random =
     \<lparr>tc_cfg = cfg, tc_receiver = TCPReceiver_new (cf_recv_capacity cfg),
      tc_sender = TCPSender_new (cf_send_capacity cfg) (cf_rt_timeout cfg) (cf_fixed_isn cfg) random,
      tc_segments_out = [], tc_linger = True, tc_time_since_last_segment_received = 0, tc_initiator = False\<rparr>"

definition TCPConnection_remaining_outbound_capacity :: "tcp_connection \<Rightarrow> u64" where
  "TCPConnection_remaining_outbound_capacity c = ByteStream_remaining_capacity (sn_stream (tc_sender c))"

definition TCPConnection_bytes_in_flight :: "tcp_connection \<Rightarrow> u64" where
  "TCPConnection_bytes_in_flight c = sn_bytes_in_flight (tc_sender c)"

definition TCPConnection_unassembled_bytes :: "tcp_connection \<Rightarrow> u64" where
  "TCPConnection_unassembled_bytes c = TCPReceiver_unassembled_bytes (tc_receiver c)"

definition inbound_stream :: "tcp_connection \<Rightarrow> byte_stream" where
  "inbound_stream c = ra_output (rc_reassembler (tc_receiver c))"

definition set_inbound_stream :: "byte_stream \<Rightarrow> tcp_connection \<Rightarrow> tcp_connection" where
  "set_inbound_stream st c =
     c\<lparr>tc_receiver := (tc_receiver c)\<lparr>rc_reassembler := (rc_reassembler (tc_receiver c))\<lparr>ra_output := st\<rparr>\<rparr>\<rparr>"

definition set_outbound_stream :: "byte_stream \<Rightarrow> tcp_connection \<Rightarrow> tcp_connection" where
  "set_outbound_stream st c = c\<lparr>tc_sender := (tc_sender c)\<lparr>sn_stream := st\<rparr>\<rparr>"

definition TCPConnection_active :: "tcp_connection \<Rightarrow> bool" where
  "TCPConnection_active c =
     (let sin = sn_stream (tc_sender c); rout = inbound_stream c in
      if bs_error sin \<and> bs_error rout then False
      else if \<not> tc_linger c then
        (if ByteStream_eof rout \<and> ByteStream_eof sin \<and> TCPConnection_bytes_in_flight c = 0 then False else True)
      else
        (if ByteStream_eof rout \<and> ByteStream_eof sin \<and> TCPConnection_bytes_in_flight c = 0 \<and>
            10 * ucast (cf_rt_timeout (tc_cfg c)) \<le> tc_time_since_last_segment_received c
         then False else True))"

definition TCPConnection_state :: "tcp_connection \<Rightarrow> tcp_state" where
  "TCPConnection_state c = TCPState_new (tc_sender c) (tc_receiver c) (TCPConnection_active c) (tc_linger c)"

definition clamp_window :: "u64 \<Rightarrow> u16" where
  "clamp_window w = (if 65535 < w then 65535 else ucast w)"

definition stamp_segment :: "tcp_receiver \<Rightarrow> tcp_segment \<Rightarrow> tcp_segment" where
  "stamp_segment r seg =
     (case TCPReceiver_ackno r of
        None \<Rightarrow> seg
      | Some ackno \<Rightarrow>
          seg\<lparr>ts_header := (ts_header seg)\<lparr>th_ackno := ackno, th_win := clamp_window (TCPReceiver_window_size r),
             th_ack := True\<rparr>\<rparr>)"

fun flush_loop :: "tcp_segment list \<Rightarrow> tcp_connection \<Rightarrow> tcp_connection" where
  "flush_loop [] c = c"
| "flush_loop (seg # queue) c =
     (let c = c\<lparr>tc_sender := (tc_sender c)\<lparr>sn_segments_out := queue\<rparr>\<rparr>;
          seg = stamp_segment (tc_receiver c) seg
      in flush_loop queue (c\<lparr>tc_segments_out := tc_segments_out c @ [seg]\<rparr>))"

definition TCPConnection_flush_buffer :: "tcp_connection \<Rightarrow> tcp_connection" where
  "TCPConnection_flush_buffer c = flush_loop (sn_segments_out (tc_sender c)) c"

definition TCPConnection_unclean_shutdown :: "tcp_connection \<Rightarrow> tcp_connection" where
  "TCPConnection_unclean_shutdown c =
     (let c = c\<lparr>tc_linger := False\<rparr>;
          c = set_outbound_stream (ByteStream_set_error (sn_stream (tc_sender c))) c;
          c = set_inbound_stream (ByteStream_set_error (inbound_stream c)) c;
          c = (if sn_segments_out (tc_sender c) = []
               then c\<lparr>tc_sender := TCPSender_send_empty_segment (tc_sender c)\<rparr> else c);
          seg = hd (sn_segments_out (tc_sender c));
          c = c\<lparr>tc_sender := (tc_sender c)\<lparr>sn_segments_out := tl (sn_segments_out (tc_sender c))\<rparr>\<rparr>;
          seg = (case TCPReceiver_ackno (tc_receiver c) of
                   None \<Rightarrow> seg
                 | Some ackno \<Rightarrow> seg\<lparr>ts_header := (ts_header seg)\<lparr>th_ackno := ackno\<rparr>\<rparr>);
          seg = seg\<lparr>ts_header := (ts_header seg)\<lparr>th_rst := True\<rparr>\<rparr>
      in c\<lparr>tc_segments_out := tc_segments_out c @ [seg]\<rparr>)"

text \<open>The reply to a segment that occupies sequence space.\<close>

definition send_reply :: "tcp_connection \<Rightarrow> tcp_connection" where
  "send_reply c =
     (case sn_segments_out (tc_sender c) of
        [] \<Rightarrow> c
      | ack_seg # queue \<Rightarrow>
          let c = c\<lparr>tc_sender := (tc_sender c)\<lparr>sn_segments_out := queue\<rparr>\<rparr>;
              ack_seg = (case TCPReceiver_ackno (tc_receiver c) of
                 None \<Rightarrow> ack_seg
               | Some ackno \<Rightarrow> ack_seg\<lparr>ts_header := (ts_header ack_seg)\<lparr>th_ackno := ackno\<rparr>\<rparr>);
              ack_seg = (if \<not> th_ack (ts_header ack_seg)
                         then ack_seg\<lparr>ts_header := (ts_header ack_seg)\<lparr>th_ack := True\<rparr>\<rparr> else ack_seg);
              ack_seg = ack_seg\<lparr>ts_header := (ts_header ack_seg)\<lparr>th_win := clamp_window (TCPReceiver_window_size (tc_receiver c))\<rparr>\<rparr>
          in c\<lparr>tc_segments_out := tc_segments_out c @ [ack_seg]\<rparr>)"

definition TCPConnection_segment_received :: "tcp_segment \<Rightarrow> tcp_connection \<Rightarrow> tcp_connection res" where
  "TCPConnection_segment_received seg c =
     (if \<not> TCPConnection_active c then Inr c
      else
        let c = c\<lparr>tc_time_since_last_segment_received := 0\<rparr>; h = ts_header seg in
        if th_rst h then
          let c = set_outbound_stream (ByteStream_set_error (sn_stream (tc_sender c))) c;
              c = set_inbound_stream (ByteStream_set_error (inbound_stream c)) c
          in Inr (c\<lparr>tc_linger := False\<rparr>)
        else
          rbind (TCPReceiver_segment_received (tc_receiver c) seg) (\<lambda>receiver.
          let c = c\<lparr>tc_receiver := receiver\<rparr> in
          rbind (if th_ack h then TCPSender_ack_received (th_ackno h) (th_win h) (tc_sender c) else Inr (tc_sender c)) (\<lambda>sender.
          let c = c\<lparr>tc_sender := sender\<rparr> in
          rbind (if 0 < TCPSegment_length_in_sequence_space seg then
                   rbind (if th_syn h \<and> \<not> th_ack h \<and> \<not> tc_initiator c then TCPSender_fill_window (tc_sender c)
                          else Inr (TCPSender_send_empty_segment (tc_sender c))) (\<lambda>sender.
                   Inr (send_reply (c\<lparr>tc_sender := sender\<rparr>)))
                 else Inr (TCPConnection_flush_buffer c)) (\<lambda>c.
          Inr (if bs_input_ended (inbound_stream c) \<and> \<not> ByteStream_eof (sn_stream (tc_sender c))
               then c\<lparr>tc_linger := False\<rparr> else c)))))"

definition TCPConnection_write :: "bytes \<Rightarrow> tcp_connection \<Rightarrow> (u64 \<times> tcp_connection) res" where
  "TCPConnection_write data c =
     (if \<not> TCPConnection_active c then Inr (0, c)
      else
        let (stream, written_bytes) = ByteStream_write (sn_stream (tc_sender c)) data;
            c = set_outbound_stream stream c
        in rbind (TCPSender_fill_window (tc_sender c)) (\<lambda>sender.
           Inr (written_bytes, TCPConnection_flush_buffer (c\<lparr>tc_sender := sender\<rparr>))))"

definition TCPConnection_tick :: "u64 \<Rightarrow> tcp_connection \<Rightarrow> tcp_connection" where
  "TCPConnection_tick ms_since_last_tick c =
     (if \<not> TCPConnection_active c then c
      else
        let c = c\<lparr>tc_time_since_last_segment_received := tc_time_since_last_segment_received c + ms_since_last_tick\<rparr>;
            c = c\<lparr>tc_sender := TCPSender_tick ms_since_last_tick (tc_sender c)\<rparr>;
            c = (if MAX_RETX_ATTEMPTS < sn_consecutive_retransmissions (tc_sender c)
                 then TCPConnection_unclean_shutdown c else c)
        in TCPConnection_flush_buffer c)"

definition TCPConnection_end_input_stream :: "tcp_connection \<Rightarrow> tcp_connection res" where
  "TCPConnection_end_input_stream c =
     (if \<not> TCPConnection_active c then Inr c
      else
        let c = set_outbound_stream (ByteStream_end_input (sn_stream (tc_sender c))) c
        in rbind (TCPSender_fill_window (tc_sender c)) (\<lambda>sender.
           Inr (TCPConnection_flush_buffer (c\<lparr>tc_sender := sender\<rparr>))))"

definition TCPConnection_connect :: "tcp_connection \<Rightarrow> tcp_connection res" where
  "TCPConnection_connect c =
     rbind (TCPSender_fill_window (tc_sender c)) (\<lambda>sender.
     let c = c\<lparr>tc_sender := sender\<rparr> in
     Inr (case sn_segments_out sender of
            [] \<Rightarrow> c
          | seg # queue \<Rightarrow>
              c\<lparr>tc_sender := sender\<lparr>sn_segments_out := queue\<rparr>, tc_segments_out := tc_segments_out c @ [seg],
                tc_initiator := True\<rparr>))"

text \<open>The destructor; what it prints is not modelled.\<close>

definition TCPConnection_destroy :: "tcp_connection \<Rightarrow> tcp_connection" where
  "TCPConnection_destroy c = (if TCPConnection_active c then TCPConnection_unclean_shutdown c else c)"

end
