(* ===== verification/Connection_Runs.thy ===== *)
theory Connection_Runs
  imports TCP_Connection
begin

text \<open>
  The endpoint keeps the invariants of its sender and of its receiver, and every segment it
  queues is genuine for its outbound stream: the flags and fields the connection fills in do
  not touch the sequence space. The lemmas are one per operation; \<open>S\<close> is the stream the peer
  has sent so far, \<open>D\<close> the one this endpoint has sent, \<open>out\<close> what the application has read.
\<close>

subsection \<open>The sequence space of a segment\<close>

definition same_space :: "tcp_segment \<Rightarrow> tcp_segment \<Rightarrow> bool" where
  "same_space seg seg' \<longleftrightarrow> ts_payload seg' = ts_payload seg \<and> th_seqno (ts_header seg') = th_seqno (ts_header seg) \<and>
     th_syn (ts_header seg') = th_syn (ts_header seg) \<and> th_fin (ts_header seg') = th_fin (ts_header seg)"

lemma sent_at_same: "same_space seg seg' \<Longrightarrow> sent_at isn D fs q seg' = sent_at isn D fs q seg"
  by (simp add: same_space_def sent_at_def genuine_def seg_len_def)

lemma same_space_stamp: "same_space seg (stamp_segment r seg)"
  by (simp add: same_space_def stamp_segment_def split: option.split)

lemma flush_loop_eq:
  "flush_loop queue c = c\<lparr>tc_sender := (tc_sender c)\<lparr>sn_segments_out := if queue = [] then sn_segments_out (tc_sender c) else []\<rparr>,
     tc_segments_out := tc_segments_out c @ map (stamp_segment (tc_receiver c)) queue\<rparr>"
  by (induction queue c rule: flush_loop.induct) (simp_all add: Let_def)

lemma flush_buffer_eq:
  "TCPConnection_flush_buffer c = c\<lparr>tc_sender := (tc_sender c)\<lparr>sn_segments_out := []\<rparr>,
     tc_segments_out := tc_segments_out c @ map (stamp_segment (tc_receiver c)) (sn_segments_out (tc_sender c))\<rparr>"
  by (cases "sn_segments_out (tc_sender c)") (simp_all add: TCPConnection_flush_buffer_def flush_loop_eq)

subsection \<open>The invariant\<close>

definition cn_inv :: "WrappingInt32 \<Rightarrow> WrappingInt32 \<Rightarrow> bytes \<Rightarrow> bytes \<Rightarrow> tcp_connection \<Rightarrow> bytes \<Rightarrow> bool" where
  "cn_inv isn pisn S D c out \<longleftrightarrow> sn_inv D (tc_sender c) \<and> sn_isn (tc_sender c) = isn \<and>
     rc_inv (rc_capacity (tc_receiver c)) pisn S (tc_receiver c, out) \<and>
     (\<forall>seg \<in> set (tc_segments_out c). \<exists>q. sent_at isn D (sn_fin_sent (tc_sender c)) q seg)"

lemma ra_data_grow: "ra_data c S (r, out) \<Longrightarrow> ra_data c (S @ xs) (r, out)"
proof -
  assume d: "ra_data c S (r, out)"
  have "v = chunk (S @ xs) (unat k) (length v)" if kv: "(k, v) \<in> set (ra_buf r)" for k v
  proof (cases "v = []")
    case False
    have "{unat k..< unat k + length v} \<subseteq> covered (ra_buf r)" using seg_span_covered [OF kv] by (simp add: seg_span_def)
    moreover have "covered (ra_buf r) \<subseteq> {..< length S}" using d by (simp add: ra_data_def)
    moreover have "unat k + length v - 1 \<in> {unat k..< unat k + length v}" using False by (cases v) auto
    ultimately have "unat k + length v - 1 \<in> {..< length S}" by blast
    then have "unat k + length v \<le> length S" using False by (cases v) auto
    moreover have "v = chunk S (unat k) (length v)" using d kv by (auto simp: ra_data_def excerpts_def)
    ultimately show ?thesis by (simp add: chunk_prefix)
  qed (simp add: chunk_def)
  with d show ?thesis by (auto simp: ra_data_def excerpts_def)
qed

lemma rc_inv_grow: "rc_inv c isn S s \<Longrightarrow> rc_inv c isn (S @ xs) s"
  by (auto simp: rc_inv_def intro: ra_data_grow)

lemma cn_inv_grow: "cn_inv isn pisn S D c out \<Longrightarrow> cn_inv isn pisn (S @ xs) D c out"
  by (auto simp: cn_inv_def intro: rc_inv_grow)

lemma cn_inv_sender:
  assumes "cn_inv isn pisn S D c out" and "sn_inv D' s'" and "sn_isn s' = isn"
    and "extends D (sn_fin_sent (tc_sender c)) D' (sn_fin_sent s')"
  shows "cn_inv isn pisn S D' (c\<lparr>tc_sender := s'\<rparr>) out"
  using assms sent_at_mono unfolding cn_inv_def by simp meson

lemma cn_inv_frame:
  "cn_inv isn pisn S D (c\<lparr>tc_linger := b\<rparr>) out = cn_inv isn pisn S D c out"
  "cn_inv isn pisn S D (c\<lparr>tc_time_since_last_segment_received := t\<rparr>) out = cn_inv isn pisn S D c out"
  "cn_inv isn pisn S D (c\<lparr>tc_initiator := b\<rparr>) out = cn_inv isn pisn S D c out"
  by (simp_all add: cn_inv_def)

lemma sn_inv_flight: "sn_inv D s \<Longrightarrow> flight_ok D (sn_fin_sent s) s"
  by (simp add: sn_inv_def)

lemma sn_inv_out:
  assumes "sn_inv D s" and "\<forall>seg \<in> set q. \<exists>p. sent_at (sn_isn s) D (sn_fin_sent s) p seg"
  shows "sn_inv D (s\<lparr>sn_segments_out := q\<rparr>)"
proof -
  have "flight_ok D (sn_fin_sent s) (s\<lparr>sn_segments_out := q\<rparr>)"
    using sn_inv_flight [OF assms(1)] assms(2) by (simp add: flight_ok_def)
  with assms(1) show ?thesis by (simp add: sn_inv_def)
qed

lemma cn_inv_move:
  assumes inv: "cn_inv isn pisn S D c out" and q: "set rest \<subseteq> set (sn_segments_out (tc_sender c))"
    and new: "\<forall>seg \<in> set new. \<exists>old \<in> set (sn_segments_out (tc_sender c)). same_space old seg"
  shows "cn_inv isn pisn S D (c\<lparr>tc_sender := (tc_sender c)\<lparr>sn_segments_out := rest\<rparr>,
     tc_segments_out := tc_segments_out c @ new\<rparr>) out"
proof -
  have sent: "\<exists>q. sent_at isn D (sn_fin_sent (tc_sender c)) q seg" if "seg \<in> set (sn_segments_out (tc_sender c))" for seg
    using inv that sn_inv_flight [of D "tc_sender c"] by (auto simp: cn_inv_def flight_ok_def)
  then have "sn_inv D ((tc_sender c)\<lparr>sn_segments_out := rest\<rparr>)"
    using inv q by (intro sn_inv_out) (auto simp: cn_inv_def)
  moreover have "\<exists>q. sent_at isn D (sn_fin_sent (tc_sender c)) q seg" if "seg \<in> set new" for seg
    using sent new that sent_at_same by meson
  ultimately show ?thesis using inv by (auto simp: cn_inv_def)
qed

lemma flush_buffer_ok:
  assumes "cn_inv isn pisn S D c out"
  shows "cn_inv isn pisn S D (TCPConnection_flush_buffer c) out"
  unfolding flush_buffer_eq using assms same_space_stamp by (intro cn_inv_move) auto

subsection \<open>Operations\<close>

lemma rc_inv_set_error:
  "rc_inv c isn S (r, out) \<Longrightarrow>
     rc_inv c isn S (r\<lparr>rc_reassembler := (rc_reassembler r)\<lparr>ra_output := ByteStream_set_error (ra_output (rc_reassembler r))\<rparr>\<rparr>, out)"
  by (simp add: rc_inv_def ra_data_def reassembler_ok_def rc_expected_def ra_next_def ra_limit_def StreamReassembler_empty_def)

lemma set_error_ok:
  assumes "cn_inv isn pisn S D c out"
  shows "cn_inv isn pisn S D (set_inbound_stream (ByteStream_set_error (inbound_stream c))
     (set_outbound_stream (ByteStream_set_error (sn_stream (tc_sender c))) c)) out"
proof -
  have "sn_inv D ((tc_sender c)\<lparr>sn_stream := ByteStream_set_error (sn_stream (tc_sender c))\<rparr>)"
    using assms by (intro sn_inv_stream) (auto simp: cn_inv_def sn_inv_def)
  with assms rc_inv_set_error [of _ pisn S "tc_receiver c" out] show ?thesis
    by (simp add: cn_inv_def set_inbound_stream_def set_outbound_stream_def inbound_stream_def)
qed

lemma inbound_set_outbound [simp]: "inbound_stream (set_outbound_stream st c) = inbound_stream c"
  by (simp add: inbound_stream_def set_outbound_stream_def)

lemma unclean_shutdown_ok:
  assumes inv: "cn_inv isn pisn S D c out"
  shows "cn_inv isn pisn S D (TCPConnection_unclean_shutdown c) out"
proof -
  define c0 where "c0 = c\<lparr>tc_linger := False\<rparr>"
  define o1 where "o1 = set_outbound_stream (ByteStream_set_error (sn_stream (tc_sender c0))) c0"
  define c1 where "c1 = set_inbound_stream (ByteStream_set_error (inbound_stream o1)) o1"
  have c1: "cn_inv isn pisn S D c1 out"
    using set_error_ok [of isn pisn S D c0 out] inv by (simp add: c1_def o1_def c0_def cn_inv_frame)
  define c2 where "c2 = (if sn_segments_out (tc_sender c1) = []
    then c1\<lparr>tc_sender := TCPSender_send_empty_segment (tc_sender c1)\<rparr> else c1)"
  have "cn_inv isn pisn S D (c1\<lparr>tc_sender := TCPSender_send_empty_segment (tc_sender c1)\<rparr>) out"
    using c1 send_empty_segment_ok [of D "tc_sender c1"]
    by (intro cn_inv_sender [OF c1]) (simp_all add: cn_inv_def TCPSender_send_empty_segment_def Let_def)
  then have c2: "cn_inv isn pisn S D c2 out" using c1 by (simp add: c2_def)
  obtain seg queue where q: "sn_segments_out (tc_sender c2) = seg # queue"
    by (cases "sn_segments_out (tc_sender c2)") (auto simp: c2_def TCPSender_send_empty_segment_def Let_def split: if_splits)
  have "\<exists>seg'. same_space seg seg' \<and> TCPConnection_unclean_shutdown c =
      c2\<lparr>tc_sender := (tc_sender c2)\<lparr>sn_segments_out := queue\<rparr>, tc_segments_out := tc_segments_out c2 @ [seg']\<rparr>"
    using q unfolding TCPConnection_unclean_shutdown_def Let_def c0_def [symmetric] o1_def [symmetric]
      c1_def [symmetric] c2_def [symmetric]
    by (cases "TCPReceiver_ackno (tc_receiver c2)")
      (simp_all, (rule exI, rule conjI [rotated], rule refl, simp add: same_space_def)+)
  then obtain seg' where "same_space seg seg'" "TCPConnection_unclean_shutdown c =
      c2\<lparr>tc_sender := (tc_sender c2)\<lparr>sn_segments_out := queue\<rparr>, tc_segments_out := tc_segments_out c2 @ [seg']\<rparr>"
    by blast
  with cn_inv_move [OF c2, of queue "[seg']"] q show ?thesis by auto
qed

lemma send_reply_ok:
  assumes inv: "cn_inv isn pisn S D c out"
  shows "cn_inv isn pisn S D (send_reply c) out"
proof (cases "sn_segments_out (tc_sender c)")
  case Nil
  with inv show ?thesis by (simp add: send_reply_def)
next
  case (Cons seg queue)
  have "\<exists>seg'. same_space seg seg' \<and> send_reply c = c\<lparr>tc_sender := (tc_sender c)\<lparr>sn_segments_out := queue\<rparr>,
      tc_segments_out := tc_segments_out c @ [seg']\<rparr>"
    using Cons unfolding send_reply_def Let_def
    by (cases "TCPReceiver_ackno (tc_receiver c)"; cases "th_ack (ts_header seg)")
      (simp_all,
        (rule exI, rule conjI [rotated], rule refl, simp add: same_space_def)+)
  then obtain seg' where "same_space seg seg'" "send_reply c = c\<lparr>tc_sender := (tc_sender c)\<lparr>sn_segments_out := queue\<rparr>,
      tc_segments_out := tc_segments_out c @ [seg']\<rparr>" by blast
  with cn_inv_move [OF inv, of queue "[seg']"] Cons show ?thesis by auto
qed

text \<open>Filling the window and handling an acknowledgment, inside a connection.\<close>

definition sends_more :: "bytes \<Rightarrow> bytes \<Rightarrow> tcp_connection \<Rightarrow> tcp_connection \<Rightarrow> bool" where
  "sends_more D D' c c' \<longleftrightarrow> (\<exists>xs. D' = D @ xs) \<and>
     D @ bs_contents (sn_stream (tc_sender c)) = D' @ bs_contents (sn_stream (tc_sender c')) \<and>
     rc_capacity (tc_receiver c') = rc_capacity (tc_receiver c) \<and>
     bs_input_ended (sn_stream (tc_sender c')) = bs_input_ended (sn_stream (tc_sender c))"

lemma cn_fill_ok:
  assumes "cn_inv isn pisn S D c out"
  obtains s' D' where "TCPSender_fill_window (tc_sender c) = Inr s'" "cn_inv isn pisn S D' (c\<lparr>tc_sender := s'\<rparr>) out"
    "sends_more D D' c (c\<lparr>tc_sender := s'\<rparr>)"
proof -
  have inv: "sn_inv D (tc_sender c)" "sn_isn (tc_sender c) = isn" using assms by (simp_all add: cn_inv_def)
  obtain s' xs where s': "TCPSender_fill_window (tc_sender c) = Inr s'" "sn_inv (D @ xs) s'"
    "bs_contents (sn_stream (tc_sender c)) = xs @ bs_contents (sn_stream s')"
    "bs_input_ended (sn_stream s') = bs_input_ended (sn_stream (tc_sender c))"
    "sn_isn s' = isn" "extends D (sn_fin_sent (tc_sender c)) (D @ xs) (sn_fin_sent s')"
    using fill_window_ok [OF inv(1)] inv(2) by metis
  show thesis
  proof (rule that [OF s'(1)])
    show "cn_inv isn pisn S (D @ xs) (c\<lparr>tc_sender := s'\<rparr>) out" by (rule cn_inv_sender [OF assms s'(2,5,6)])
  qed (use s' in \<open>simp add: sends_more_def\<close>)
qed

lemma cn_ack_ok:
  assumes "cn_inv isn pisn S D c out"
  obtains s' D' where "TCPSender_ack_received ackno win (tc_sender c) = Inr s'"
    "cn_inv isn pisn S D' (c\<lparr>tc_sender := s'\<rparr>) out" "sends_more D D' c (c\<lparr>tc_sender := s'\<rparr>)"
proof -
  have inv: "sn_inv D (tc_sender c)" "sn_isn (tc_sender c) = isn" using assms by (simp_all add: cn_inv_def)
  obtain s' xs where s': "TCPSender_ack_received ackno win (tc_sender c) = Inr s'" "sn_inv (D @ xs) s'"
    "bs_contents (sn_stream (tc_sender c)) = xs @ bs_contents (sn_stream s')"
    "bs_input_ended (sn_stream s') = bs_input_ended (sn_stream (tc_sender c))"
    "sn_isn s' = isn" "extends D (sn_fin_sent (tc_sender c)) (D @ xs) (sn_fin_sent s')"
    using ack_received_ok [OF inv(1) refl, of ackno win] inv(2) by metis
  show thesis
  proof (rule that [OF s'(1)])
    show "cn_inv isn pisn S (D @ xs) (c\<lparr>tc_sender := s'\<rparr>) out" by (rule cn_inv_sender [OF assms s'(2,5,6)])
  qed (use s' in \<open>simp add: sends_more_def\<close>)
qed

lemma sends_more_refl: "sends_more D D c c"
  by (simp add: sends_more_def)

lemma sends_more_trans: "sends_more D D' a b \<Longrightarrow> sends_more D' D'' b c \<Longrightarrow> sends_more D D'' a c"
  by (auto simp: sends_more_def)

text \<open>Steps that leave the stream and the receiver's capacity alone.\<close>

definition keeps_streams :: "tcp_connection \<Rightarrow> tcp_connection \<Rightarrow> bool" where
  "keeps_streams c c' \<longleftrightarrow> bs_contents (sn_stream (tc_sender c')) = bs_contents (sn_stream (tc_sender c)) \<and>
     bs_input_ended (sn_stream (tc_sender c')) = bs_input_ended (sn_stream (tc_sender c)) \<and>
     rc_capacity (tc_receiver c') = rc_capacity (tc_receiver c)"

lemma sends_more_keep: "keeps_streams c c' \<Longrightarrow> sends_more D D c c'"
  by (simp add: sends_more_def keeps_streams_def)

lemma keeps_flush: "keeps_streams c (TCPConnection_flush_buffer c)"
  by (simp add: keeps_streams_def flush_buffer_eq)

lemma keeps_reply: "keeps_streams c (send_reply c)"
  by (simp add: keeps_streams_def send_reply_def Let_def split: list.split)

lemma keeps_shutdown: "keeps_streams c (TCPConnection_unclean_shutdown c)"
  by (simp add: keeps_streams_def TCPConnection_unclean_shutdown_def Let_def set_outbound_stream_def
      set_inbound_stream_def TCPSender_send_empty_segment_def)

text \<open>What an operation of the connection is to keep.\<close>

definition cn_kept :: "WrappingInt32 \<Rightarrow> WrappingInt32 \<Rightarrow> bytes \<Rightarrow> bytes \<Rightarrow> bytes \<Rightarrow> tcp_connection \<Rightarrow> tcp_connection \<Rightarrow> bool" where
  "cn_kept isn pisn S D out c c' \<longleftrightarrow> (\<exists>D'. cn_inv isn pisn S D' c' out \<and> sends_more D D' c c')"

lemma cn_keptI: "cn_inv isn pisn S D' c' out \<Longrightarrow> sends_more D D' c c' \<Longrightarrow> cn_kept isn pisn S D out c c'"
  by (auto simp: cn_kept_def)

lemma cn_kept_refl: "cn_inv isn pisn S D c out \<Longrightarrow> cn_kept isn pisn S D out c c"
  by (rule cn_keptI [OF _ sends_more_refl])

lemma cn_kept_keep:
  "cn_kept isn pisn S D out c c' \<Longrightarrow> (\<And>D. cn_inv isn pisn S D c' out \<Longrightarrow> cn_inv isn pisn S D c'' out) \<Longrightarrow>
     keeps_streams c' c'' \<Longrightarrow> cn_kept isn pisn S D out c c''"
  unfolding cn_kept_def by (blast intro: sends_more_trans sends_more_keep)

lemma cn_kept_flush: "cn_kept isn pisn S D out c c' \<Longrightarrow> cn_kept isn pisn S D out c (TCPConnection_flush_buffer c')"
  by (erule cn_kept_keep) (auto intro: flush_buffer_ok keeps_flush)

lemma cn_kept_reply: "cn_kept isn pisn S D out c c' \<Longrightarrow> cn_kept isn pisn S D out c (send_reply c')"
  by (erule cn_kept_keep) (auto intro: send_reply_ok keeps_reply)

lemma cn_kept_shutdown: "cn_kept isn pisn S D out c c' \<Longrightarrow> cn_kept isn pisn S D out c (TCPConnection_unclean_shutdown c')"
  by (erule cn_kept_keep) (auto intro: unclean_shutdown_ok keeps_shutdown)

lemma cn_kept_linger: "cn_kept isn pisn S D out c c' \<Longrightarrow> cn_kept isn pisn S D out c (c'\<lparr>tc_linger := b\<rparr>)"
  by (erule cn_kept_keep) (auto simp: cn_inv_frame keeps_streams_def)

lemma cn_kept_fill:
  assumes "cn_kept isn pisn S D out c c'"
  obtains s' where "TCPSender_fill_window (tc_sender c') = Inr s'" "cn_kept isn pisn S D out c (c'\<lparr>tc_sender := s'\<rparr>)"
  using assms cn_fill_ok sends_more_trans unfolding cn_kept_def by metis

lemma cn_kept_ack:
  assumes "cn_kept isn pisn S D out c c'"
  obtains s' where "TCPSender_ack_received ackno win (tc_sender c') = Inr s'" "cn_kept isn pisn S D out c (c'\<lparr>tc_sender := s'\<rparr>)"
  using assms cn_ack_ok [of isn pisn S _ c' out ackno win] sends_more_trans unfolding cn_kept_def by metis

lemma cn_kept_empty:
  assumes "cn_kept isn pisn S D out c c'"
  shows "cn_kept isn pisn S D out c (c'\<lparr>tc_sender := TCPSender_send_empty_segment (tc_sender c')\<rparr>)"
  using assms
proof (rule cn_kept_keep)
  show "cn_inv isn pisn S D (c'\<lparr>tc_sender := TCPSender_send_empty_segment (tc_sender c')\<rparr>) out"
    if "cn_inv isn pisn S D c' out" for D
    using that send_empty_segment_ok [of D "tc_sender c'"]
    by (intro cn_inv_sender [OF that]) (simp_all add: cn_inv_def TCPSender_send_empty_segment_def Let_def)
qed (simp add: keeps_streams_def TCPSender_send_empty_segment_def Let_def)

lemma cn_receive_ok:
  assumes inv: "cn_inv isn pisn S D c out" and fits: "stream_fits (rc_capacity (tc_receiver c)) S" and seg: "genuine pisn S q seg"
  obtains r where "TCPReceiver_segment_received (tc_receiver c) seg = Inr r" "cn_inv isn pisn S D (c\<lparr>tc_receiver := r\<rparr>) out"
    "rc_capacity r = rc_capacity (tc_receiver c)"
proof -
  have "rc_inv (rc_capacity (tc_receiver c)) pisn S (tc_receiver c, out)" using inv by (simp add: cn_inv_def)
  from rc_inv_received [OF this fits seg] obtain r where r: "TCPReceiver_segment_received (tc_receiver c) seg = Inr r"
    "rc_inv (rc_capacity (tc_receiver c)) pisn S (r, out)" .
  then have "rc_capacity r = rc_capacity (tc_receiver c)" by (simp add: rc_inv_def)
  with r inv that show thesis by (simp add: cn_inv_def)
qed

lemma cn_kept_maybe_ack:
  assumes "cn_kept isn pisn S D out c c'"
  obtains s where "(if b then TCPSender_ack_received ackno win (tc_sender c') else Inr (tc_sender c')) = Inr s"
    "cn_kept isn pisn S D out c (c'\<lparr>tc_sender := s\<rparr>)"
proof (cases b)
  case True
  with cn_kept_ack [OF assms, of ackno win] that show thesis by auto
next
  case False
  with assms that [of "tc_sender c'"] show thesis by simp
qed

lemma cn_kept_maybe_syn:
  assumes "cn_kept isn pisn S D out c c'"
  obtains s where "(if b then TCPSender_fill_window (tc_sender c') else Inr (TCPSender_send_empty_segment (tc_sender c'))) = Inr s"
    "cn_kept isn pisn S D out c (c'\<lparr>tc_sender := s\<rparr>)"
proof (cases b)
  case True
  with cn_kept_fill [OF assms] that show thesis by auto
next
  case False
  with cn_kept_empty [OF assms] that show thesis by simp
qed

lemma cn_kept_answer:
  assumes k: "cn_kept isn pisn S D out c c'"
  obtains c'' where "(if n then rbind (if b then TCPSender_fill_window (tc_sender c')
      else Inr (TCPSender_send_empty_segment (tc_sender c'))) (\<lambda>sender. Inr (send_reply (c'\<lparr>tc_sender := sender\<rparr>)))
      else Inr (TCPConnection_flush_buffer c')) = Inr c''" "cn_kept isn pisn S D out c c''"
proof (cases n)
  case True
  obtain s where "(if b then TCPSender_fill_window (tc_sender c') else Inr (TCPSender_send_empty_segment (tc_sender c'))) = Inr s"
    "cn_kept isn pisn S D out c (c'\<lparr>tc_sender := s\<rparr>)" using cn_kept_maybe_syn [OF k] .
  with True cn_kept_reply that show thesis by simp
next
  case False
  with cn_kept_flush [OF k] that show thesis by simp
qed

lemma segment_received_ok:
  assumes inv: "cn_inv isn pisn S D c out" and fits: "stream_fits (rc_capacity (tc_receiver c)) S" and seg: "genuine pisn S q seg"
  obtains c' where "TCPConnection_segment_received seg c = Inr c'" "cn_kept isn pisn S D out c c'"
proof -
  let ?h = "ts_header seg" and ?c = "c\<lparr>tc_time_since_last_segment_received := 0\<rparr>"
  have inv': "cn_inv isn pisn S D ?c out" using inv by (simp add: cn_inv_frame)
  consider "\<not> TCPConnection_active c" | "TCPConnection_active c" "th_rst ?h" | "TCPConnection_active c" "\<not> th_rst ?h" by blast
  then show thesis
  proof cases
    case 1
    with that [of c] cn_kept_refl [OF inv] show thesis by (simp add: TCPConnection_segment_received_def)
  next
    case 2
    let ?c' = "set_inbound_stream (ByteStream_set_error (inbound_stream ?c))
       (set_outbound_stream (ByteStream_set_error (sn_stream (tc_sender ?c))) ?c)"
    have "TCPConnection_segment_received seg c = Inr (?c'\<lparr>tc_linger := False\<rparr>)"
      using 2 by (simp add: TCPConnection_segment_received_def Let_def)
    moreover have "cn_kept isn pisn S D out c ?c'"
      by (rule cn_keptI [OF set_error_ok [OF inv']])
        (simp add: sends_more_def set_inbound_stream_def set_outbound_stream_def)
    ultimately show thesis using that cn_kept_linger by blast
  next
    case 3
    from cn_receive_ok [OF inv' _ seg] fits obtain r where
      r: "TCPReceiver_segment_received (tc_receiver c) seg = Inr r" "cn_inv isn pisn S D (?c\<lparr>tc_receiver := r\<rparr>) out"
        "rc_capacity r = rc_capacity (tc_receiver c)" by auto
    let ?c1 = "?c\<lparr>tc_receiver := r\<rparr>"
    have k1: "cn_kept isn pisn S D out c ?c1" by (rule cn_keptI [OF r(2)]) (simp add: sends_more_def r(3))
    obtain s where s: "(if th_ack ?h then TCPSender_ack_received (th_ackno ?h) (th_win ?h) (tc_sender ?c1) else Inr (tc_sender ?c1)) = Inr s"
      "cn_kept isn pisn S D out c (?c1\<lparr>tc_sender := s\<rparr>)" using cn_kept_maybe_ack [OF k1] .
    let ?c2 = "?c1\<lparr>tc_sender := s\<rparr>"
    obtain c3 where c3: "(if 0 < TCPSegment_length_in_sequence_space seg then
         rbind (if th_syn ?h \<and> \<not> th_ack ?h \<and> \<not> tc_initiator ?c2 then TCPSender_fill_window (tc_sender ?c2)
                else Inr (TCPSender_send_empty_segment (tc_sender ?c2))) (\<lambda>sender. Inr (send_reply (?c2\<lparr>tc_sender := sender\<rparr>)))
       else Inr (TCPConnection_flush_buffer ?c2)) = Inr c3" "cn_kept isn pisn S D out c c3"
      using cn_kept_answer [OF s(2)] .
    have "TCPConnection_segment_received seg c = Inr (if bs_input_ended (inbound_stream c3) \<and> \<not> ByteStream_eof (sn_stream (tc_sender c3))
        then c3\<lparr>tc_linger := False\<rparr> else c3)"
      using 3 r(1) s(1) c3(1) unfolding TCPConnection_segment_received_def Let_def by simp
    with that c3(2) cn_kept_linger show thesis by (metis (full_types))
  qed
qed

lemma cn_inv_outbound:
  assumes inv: "cn_inv isn pisn S D c out" and st: "byte_stream_ok st"
    "sn_fin_sent (tc_sender c) \<Longrightarrow> bs_input_ended st \<and> bs_contents st = []"
    "length D + length (bs_contents st) < 9223372036854775808"
    "bs_total_read_bytes st = bs_total_read_bytes (sn_stream (tc_sender c))"
  shows "cn_inv isn pisn S D (set_outbound_stream st c) out"
proof -
  have "sn_inv D ((tc_sender c)\<lparr>sn_stream := st\<rparr>)" using inv st by (intro sn_inv_stream) (auto simp: cn_inv_def)
  then show ?thesis using inv by (simp add: cn_inv_def set_outbound_stream_def)
qed

text \<open>Sending what the outbound stream \<open>st\<close> holds, and flushing.\<close>

lemma push_stream_ok:
  assumes "cn_inv isn pisn S D (set_outbound_stream st c) out"
  obtains s D' where "TCPSender_fill_window ((tc_sender c)\<lparr>sn_stream := st\<rparr>) = Inr s"
    "cn_inv isn pisn S D' (TCPConnection_flush_buffer ((set_outbound_stream st c)\<lparr>tc_sender := s\<rparr>)) out"
    "sends_more D D' (set_outbound_stream st c) (TCPConnection_flush_buffer ((set_outbound_stream st c)\<lparr>tc_sender := s\<rparr>))"
proof -
  from cn_kept_fill [OF cn_kept_refl [OF assms]] obtain s where
    s: "TCPSender_fill_window (tc_sender (set_outbound_stream st c)) = Inr s"
      "cn_kept isn pisn S D out (set_outbound_stream st c) ((set_outbound_stream st c)\<lparr>tc_sender := s\<rparr>)" .
  from cn_kept_flush [OF s(2)] s(1) that show thesis by (auto simp: cn_kept_def set_outbound_stream_def)
qed

lemma write_ok:
  assumes inv: "cn_inv isn pisn S D c out" and running: "\<not> bs_input_ended (sn_stream (tc_sender c))"
    and len: "length D + length (bs_contents (sn_stream (tc_sender c))) + length data < 9223372036854775808"
  obtains n c' D' where "TCPConnection_write data c = Inr (n, c')" "cn_inv isn pisn S D' c' out" "\<exists>xs. D' = D @ xs"
    "D' @ bs_contents (sn_stream (tc_sender c')) = D @ bs_contents (sn_stream (tc_sender c)) @ take (unat n) data"
    "rc_capacity (tc_receiver c') = rc_capacity (tc_receiver c)"
proof (cases "TCPConnection_active c")
  case False
  with that [of 0 c D] inv show thesis by (simp add: TCPConnection_write_def)
next
  case True
  let ?st = "sn_stream (tc_sender c)"
  have ok: "byte_stream_ok ?st" and fin: "\<not> sn_fin_sent (tc_sender c)"
    using inv running by (auto simp: cn_inv_def sn_inv_def)
  have "str_ok data" using len by simp
  note w = ByteStream_write_ok [OF ok this]
  obtain st n where sn: "ByteStream_write ?st data = (st, n)" by (cases "ByteStream_write ?st data")
  have c: "bs_contents st = bs_contents ?st @ take (unat n) data"
    using w sn by (auto simp: min_def)
  have "cn_inv isn pisn S D (set_outbound_stream st c) out"
    using w sn fin len c ByteStream_write_frame(4) [of ?st data] by (intro cn_inv_outbound [OF inv]) auto
  from push_stream_ok [OF this] obtain s D' where
    s: "TCPSender_fill_window ((tc_sender c)\<lparr>sn_stream := st\<rparr>) = Inr s"
      "cn_inv isn pisn S D' (TCPConnection_flush_buffer ((set_outbound_stream st c)\<lparr>tc_sender := s\<rparr>)) out"
      "sends_more D D' (set_outbound_stream st c) (TCPConnection_flush_buffer ((set_outbound_stream st c)\<lparr>tc_sender := s\<rparr>))" .
  show thesis
  proof (rule that [OF _ s(2)])
    show "TCPConnection_write data c = Inr (n, TCPConnection_flush_buffer ((set_outbound_stream st c)\<lparr>tc_sender := s\<rparr>))"
      using True sn s(1) by (simp add: TCPConnection_write_def set_outbound_stream_def)
  qed (use s(3) c in \<open>auto simp: sends_more_def set_outbound_stream_def\<close>)
qed

lemma end_input_stream_ok:
  assumes inv: "cn_inv isn pisn S D c out"
  obtains c' D' where "TCPConnection_end_input_stream c = Inr c'" "cn_inv isn pisn S D' c' out" "\<exists>xs. D' = D @ xs"
    "D' @ bs_contents (sn_stream (tc_sender c')) = D @ bs_contents (sn_stream (tc_sender c))"
    "rc_capacity (tc_receiver c') = rc_capacity (tc_receiver c)"
proof (cases "TCPConnection_active c")
  case False
  with that [of c D] inv show thesis by (simp add: TCPConnection_end_input_stream_def)
next
  case True
  let ?st = "ByteStream_end_input (sn_stream (tc_sender c))"
  have "cn_inv isn pisn S D (set_outbound_stream ?st c) out"
    using inv by (intro cn_inv_outbound [OF inv]) (auto simp: cn_inv_def sn_inv_def)
  from push_stream_ok [OF this] obtain s D' where
    s: "TCPSender_fill_window ((tc_sender c)\<lparr>sn_stream := ?st\<rparr>) = Inr s"
      "cn_inv isn pisn S D' (TCPConnection_flush_buffer ((set_outbound_stream ?st c)\<lparr>tc_sender := s\<rparr>)) out"
      "sends_more D D' (set_outbound_stream ?st c) (TCPConnection_flush_buffer ((set_outbound_stream ?st c)\<lparr>tc_sender := s\<rparr>))" .
  show thesis
  proof (rule that [OF _ s(2)])
    show "TCPConnection_end_input_stream c = Inr (TCPConnection_flush_buffer ((set_outbound_stream ?st c)\<lparr>tc_sender := s\<rparr>))"
      using True s(1) by (simp add: TCPConnection_end_input_stream_def set_outbound_stream_def)
  qed (use s(3) in \<open>auto simp: sends_more_def set_outbound_stream_def\<close>)
qed

lemma connection_tick_ok:
  assumes inv: "cn_inv isn pisn S D c out"
  shows "cn_kept isn pisn S D out c (TCPConnection_tick ms c)"
proof (cases "TCPConnection_active c")
  case False
  with cn_kept_refl [OF inv] show ?thesis by (simp add: TCPConnection_tick_def)
next
  case True
  let ?t = "tc_time_since_last_segment_received c + ms"
  let ?c = "c\<lparr>tc_time_since_last_segment_received := ?t, tc_sender := TCPSender_tick ms (tc_sender c)\<rparr>"
  have s: "sn_inv D (tc_sender c)" "sn_isn (tc_sender c) = isn" using inv by (simp_all add: cn_inv_def)
  have fin: "sn_fin_sent (TCPSender_tick ms (tc_sender c)) = sn_fin_sent (tc_sender c)"
    by (simp add: TCPSender_tick_def Let_def split: list.split)
  have "cn_inv isn pisn S D (c\<lparr>tc_time_since_last_segment_received := ?t\<rparr>) out" using inv by (simp add: cn_inv_frame)
  then have "cn_inv isn pisn S D ?c out"
    using tick_ok(1,3) [OF s(1)] s(2) fin by (intro cn_inv_sender [where D = D]) simp_all
  then have "cn_kept isn pisn S D out c ?c"
    by (rule cn_keptI) (simp add: sends_more_def tick_ok(2) [OF s(1)])
  with True show ?thesis
    by (auto simp: TCPConnection_tick_def Let_def intro: cn_kept_flush cn_kept_shutdown)
qed

lemma connect_ok:
  assumes inv: "cn_inv isn pisn S D c out"
  obtains c' where "TCPConnection_connect c = Inr c'" "cn_kept isn pisn S D out c c'"
proof -
  from cn_kept_fill [OF cn_kept_refl [OF inv]] obtain s where s: "TCPSender_fill_window (tc_sender c) = Inr s"
    "cn_kept isn pisn S D out c (c\<lparr>tc_sender := s\<rparr>)" .
  show thesis
  proof (cases "sn_segments_out s")
    case Nil
    with s that show thesis by (simp add: TCPConnection_connect_def Let_def)
  next
    case (Cons seg queue)
    let ?c = "c\<lparr>tc_sender := s\<lparr>sn_segments_out := queue\<rparr>, tc_segments_out := tc_segments_out c @ [seg], tc_initiator := True\<rparr>"
    have "cn_kept isn pisn S D out c ?c"
      using s(2)
    proof (rule cn_kept_keep)
      show "cn_inv isn pisn S D ?c out" if i: "cn_inv isn pisn S D (c\<lparr>tc_sender := s\<rparr>) out" for D
        using cn_inv_move [OF i, of queue "[seg]"] Cons
        by (simp add: cn_inv_frame) (auto simp: same_space_def)
    qed (simp add: keeps_streams_def)
    with Cons s(1) that show thesis by (simp add: TCPConnection_connect_def Let_def)
  qed
qed

lemma destroy_ok: "cn_inv isn pisn S D c out \<Longrightarrow> cn_kept isn pisn S D out c (TCPConnection_destroy c)"
  by (auto simp: TCPConnection_destroy_def intro: cn_kept_refl cn_kept_shutdown)

lemma inbound_read_ok:
  assumes inv: "cn_inv isn pisn S D c out" and read: "ByteStream_read (inbound_stream c) n = Inr (xs, st)"
  shows "cn_inv isn pisn S D (set_inbound_stream st c) (out @ xs)"
  using inv rc_inv_read [of _ pisn S "tc_receiver c" out n xs st] read
  by (simp add: cn_inv_def set_inbound_stream_def inbound_stream_def)

lemma cn_inv_new:
  "cn_inv (sn_isn (tc_sender (TCPConnection_new cfg r))) pisn S [] (TCPConnection_new cfg r) []"
  using sn_inv_new [of "cf_send_capacity cfg" "cf_rt_timeout cfg" "cf_fixed_isn cfg" r]
  by (simp add: cn_inv_def TCPConnection_new_def rc_inv_def ra_data_def TCPReceiver_new_def)

lemma cn_inv_pop:
  "cn_inv isn pisn S D c out \<Longrightarrow> tc_segments_out c = seg # rest \<Longrightarrow>
     cn_inv isn pisn S D (c\<lparr>tc_segments_out := rest\<rparr>) out \<and> (\<exists>q. sent_at isn D (sn_fin_sent (tc_sender c)) q seg)"
  by (simp add: cn_inv_def)

end
