(* ===== verification/Delivery.thy ===== *)
theory Delivery
  imports Connection_Runs
begin

text \<open>
  Two endpoints and the network between them. The network keeps every segment ever sent and
  delivers any of them at any time, so that segments may be lost, repeated and reordered; an
  application writes to its endpoint, ends its stream and reads what has arrived. An endpoint
  is its connection with the bytes its stream has accepted and the bytes its application has
  read. Streams stay below \<open>2 ^ 31 - 8\<close> bytes, so that the 32-bit sequence numbers of all segments in
  the network unwrap without ambiguity.
\<close>

subsection \<open>The system\<close>

type_synonym endpoint = "tcp_connection \<times> bytes \<times> bytes"

inductive ep_step :: "tcp_segment set \<Rightarrow> endpoint \<Rightarrow> endpoint \<Rightarrow> bool" for net where
  connect: "TCPConnection_connect c = Inr c' \<Longrightarrow> ep_step net (c, W, out) (c', W, out)"
| receive: "seg \<in> net \<Longrightarrow> TCPConnection_segment_received seg c = Inr c' \<Longrightarrow> ep_step net (c, W, out) (c', W, out)"
| put: "\<not> bs_input_ended (sn_stream (tc_sender c)) \<Longrightarrow> length W + length data < 2147483640 \<Longrightarrow>
    TCPConnection_write data c = Inr (n, c') \<Longrightarrow> ep_step net (c, W, out) (c', W @ take (unat n) data, out)"
| end_input: "TCPConnection_end_input_stream c = Inr c' \<Longrightarrow> ep_step net (c, W, out) (c', W, out)"
| tick: "ep_step net (c, W, out) (TCPConnection_tick ms c, W, out)"
| destroy: "ep_step net (c, W, out) (TCPConnection_destroy c, W, out)"
| read: "ByteStream_read (inbound_stream c) n = Inr (xs, st) \<Longrightarrow>
    ep_step net (c, W, out) (set_inbound_stream st c, W, out @ xs)"

type_synonym system = "endpoint \<times> endpoint \<times> tcp_segment set \<times> tcp_segment set"

inductive net_step :: "system \<Rightarrow> system \<Rightarrow> bool" where
  left: "ep_step BA a a' \<Longrightarrow> net_step (a, b, AB, BA) (a', b, AB, BA)"
| right: "ep_step AB b b' \<Longrightarrow> net_step (a, b, AB, BA) (a, b', AB, BA)"
| left_sends: "tc_segments_out c = seg # rest \<Longrightarrow>
    net_step ((c, W, out), b, AB, BA) ((c\<lparr>tc_segments_out := rest\<rparr>, W, out), b, insert seg AB, BA)"
| right_sends: "tc_segments_out c = seg # rest \<Longrightarrow>
    net_step (a, (c, W, out), AB, BA) (a, (c\<lparr>tc_segments_out := rest\<rparr>, W, out), AB, insert seg BA)"

definition isn_of :: "tcp_config \<Rightarrow> u32 \<Rightarrow> WrappingInt32" where
  "isn_of cfg r = sn_isn (tc_sender (TCPConnection_new cfg r))"

definition net_init :: "tcp_config \<Rightarrow> u32 \<Rightarrow> tcp_config \<Rightarrow> u32 \<Rightarrow> system \<Rightarrow> bool" where
  "net_init ca ra cb rb = (\<lambda>s. s = ((TCPConnection_new ca ra, [], []), (TCPConnection_new cb rb, [], []), {}, {}) \<and>
     unat (cf_recv_capacity ca) < 9223372036854775808 \<and> unat (cf_recv_capacity cb) < 9223372036854775808)"

subsection \<open>The invariant\<close>

text \<open>One direction: the endpoint has sent \<open>D\<close>, its peer \<open>S\<close>, and \<open>net\<close> holds what it has put on the wire.\<close>

definition half :: "WrappingInt32 \<Rightarrow> WrappingInt32 \<Rightarrow> bytes \<Rightarrow> bytes \<Rightarrow> endpoint \<Rightarrow> tcp_segment set \<Rightarrow> bool" where
  "half isn pisn D S = (\<lambda>(c, W, out) net. cn_inv isn pisn S D c out \<and> W = D @ bs_contents (sn_stream (tc_sender c)) \<and>
     length W < 2147483640 \<and> unat (rc_capacity (tc_receiver c)) < 9223372036854775808 \<and>
     (\<forall>seg \<in> net. \<exists>q. genuine isn D q seg))"

definition sys_inv :: "WrappingInt32 \<Rightarrow> WrappingInt32 \<Rightarrow> system \<Rightarrow> bool" where
  "sys_inv ia ib = (\<lambda>(a, b, AB, BA). \<exists>DA DB. half ia ib DA DB a AB \<and> half ib ia DB DA b BA)"

lemma half_grow: "half isn pisn D S ep net \<Longrightarrow> half isn pisn D (S @ xs) ep net"
  by (cases ep) (auto simp: half_def intro: cn_inv_grow)

lemma half_length: "half isn pisn D S ep net \<Longrightarrow> length D < 2147483640"
  by (cases ep) (auto simp: half_def)

lemma half_next:
  assumes "half isn pisn D S (c, W, out) net" and "cn_inv isn pisn S (D @ xs) c' out'"
    and "W' = (D @ xs) @ bs_contents (sn_stream (tc_sender c'))" and "length W' < 2147483640"
    and "rc_capacity (tc_receiver c') = rc_capacity (tc_receiver c)"
  shows "\<exists>ys. half isn pisn (D @ ys) S (c', W', out') net"
proof -
  have "\<forall>seg \<in> net. \<exists>q. genuine isn (D @ xs) q seg"
    using assms(1) genuine_mono unfolding half_def prod.case by meson
  with assms show ?thesis by (intro exI [of _ xs]) (simp add: half_def)
qed

lemma half_kept:
  assumes h: "half isn pisn D S (c, W, out) net" and "cn_kept isn pisn S D out c c'"
  shows "\<exists>ys. half isn pisn (D @ ys) S (c', W, out) net"
proof -
  obtain D' where D': "cn_inv isn pisn S D' c' out" "sends_more D D' c c'" using assms(2) by (auto simp: cn_kept_def)
  moreover obtain xs where "D' = D @ xs" using D'(2) by (auto simp: sends_more_def)
  ultimately show ?thesis using h by (intro half_next [OF h]) (auto simp: half_def sends_more_def)
qed

lemma half_step:
  assumes h: "half isn pisn D S ep net" and S: "length S < 2147483640" and peer: "\<forall>seg \<in> pnet. \<exists>q. genuine pisn S q seg"
    and step: "ep_step pnet ep ep'"
  shows "\<exists>ys. half isn pisn (D @ ys) S ep' net"
proof -
  obtain c W out where ep: "ep = (c, W, out)" by (cases ep)
  note h = h [unfolded ep]
  have inv: "cn_inv isn pisn S D c out" and W: "W = D @ bs_contents (sn_stream (tc_sender c))" "length W < 2147483640"
    and fits: "stream_fits (rc_capacity (tc_receiver c)) S"
    using h S by (auto simp: half_def stream_fits_def)
  show ?thesis
    using step unfolding ep
  proof cases
    case (connect c')
    with connect_ok [OF inv] half_kept [OF h] show ?thesis by (metis Inr_inject)
  next
    case (receive seg c')
    then obtain q where "genuine pisn S q seg" using peer by blast
    from segment_received_ok [OF inv fits this] receive half_kept [OF h] show ?thesis by (metis Inr_inject)
  next
    case (put data n c')
    have "length D + length (bs_contents (sn_stream (tc_sender c))) + length data < 9223372036854775808"
      using put(3) W by simp
    from write_ok [OF inv put(2) this] obtain D' where D': "cn_inv isn pisn S D' c' out" "\<exists>xs. D' = D @ xs"
      "D' @ bs_contents (sn_stream (tc_sender c')) = D @ bs_contents (sn_stream (tc_sender c)) @ take (unat n) data"
      "rc_capacity (tc_receiver c') = rc_capacity (tc_receiver c)" using put(4) by auto
    then obtain xs where "D' = D @ xs" by blast
    with D' put W show ?thesis by (auto intro!: half_next [OF h])
  next
    case (end_input c')
    from end_input_stream_ok [OF inv] end_input obtain D' where D': "cn_inv isn pisn S D' c' out" "\<exists>xs. D' = D @ xs"
      "D' @ bs_contents (sn_stream (tc_sender c')) = D @ bs_contents (sn_stream (tc_sender c))"
      "rc_capacity (tc_receiver c') = rc_capacity (tc_receiver c)" by auto
    then obtain xs where "D' = D @ xs" by blast
    with D' end_input W show ?thesis by (auto intro!: half_next [OF h])
  next
    case (tick ms)
    with half_kept [OF h connection_tick_ok [OF inv]] show ?thesis by simp
  next
    case destroy
    with half_kept [OF h destroy_ok [OF inv]] show ?thesis by simp
  next
    case (read n xs st)
    with inbound_read_ok [OF inv read(2)] W show ?thesis
      by (auto intro!: half_next [OF h, of "[]"] simp: set_inbound_stream_def)
  qed
qed

lemma half_sends:
  assumes h: "half isn pisn D S (c, W, out) net" and seg: "tc_segments_out c = seg # rest"
  shows "half isn pisn D S (c\<lparr>tc_segments_out := rest\<rparr>, W, out) (insert seg net)"
proof -
  have "cn_inv isn pisn S D (c\<lparr>tc_segments_out := rest\<rparr>) out" "\<exists>q. genuine isn D q seg"
    using cn_inv_pop [OF _ seg, of isn pisn S D out] h by (auto simp: half_def sent_at_def)
  with h show ?thesis by (auto simp: half_def)
qed

lemma sys_inv_step:
  assumes "sys_inv ia ib s" and "net_step s t"
  shows "sys_inv ia ib t"
proof -
  obtain a b AB BA where s: "s = (a, b, AB, BA)" by (cases s)
  obtain DA DB where h: "half ia ib DA DB a AB" "half ib ia DB DA b BA"
    using assms(1) unfolding s by (auto simp: sys_inv_def)
  have netA: "\<forall>seg \<in> AB. \<exists>q. genuine ia DA q seg" and netB: "\<forall>seg \<in> BA. \<exists>q. genuine ib DB q seg"
    using h by (auto simp: half_def)
  show ?thesis
    using assms(2) unfolding s
  proof cases
    case (left a')
    with half_step [OF h(1) half_length [OF h(2)] netB] half_grow [OF h(2)] show ?thesis
      by (fastforce simp: sys_inv_def)
  next
    case (right b')
    with half_step [OF h(2) half_length [OF h(1)] netA] half_grow [OF h(1)] show ?thesis
      by (fastforce simp: sys_inv_def)
  next
    case (left_sends c seg rest W out)
    with half_sends h show ?thesis by (fastforce simp: sys_inv_def)
  next
    case (right_sends c seg rest W out)
    with half_sends h show ?thesis by (fastforce simp: sys_inv_def)
  qed
qed

interpretation nw: invariant_system "net_init ca ra cb rb" net_step "sys_inv (isn_of ca ra) (isn_of cb rb)" for ca ra cb rb
proof
  fix s assume "net_init ca ra cb rb s"
  then show "sys_inv (isn_of ca ra) (isn_of cb rb) s"
    using cn_inv_new [of ca ra "isn_of cb rb" "[]"] cn_inv_new [of cb rb "isn_of ca ra" "[]"]
    by (auto simp: net_init_def sys_inv_def half_def isn_of_def intro!: exI [of _ "[]"])
      (simp_all add: TCPConnection_new_def TCPReceiver_new_def TCPSender_new_def)
qed (rule sys_inv_step)

text \<open>The first endpoint has connected, its SYN has arrived, and the second has answered.\<close>

lemma demo_connection:
  obtains cA cB AB where
    "reach (net_init TCPConfig_new 1 TCPConfig_new 2) net_step ((cA, [], []), (cB, [], []), AB, {})"
    "AB \<noteq> {}" "tc_segments_out cB \<noteq> []" "TCPConnection_active cA" "length (sn_outstanding_segments (tc_sender cA)) = 1"
    "sn_wdn_sz (tc_sender cA) = 1" "sn_consecutive_retransmissions (tc_sender cA) = 0" "sn_segments_out (tc_sender cA) = []"
proof -
  let ?A = "TCPConnection_new TCPConfig_new 1" and ?B = "TCPConnection_new TCPConfig_new 2"
  define c1 where "c1 = (case TCPConnection_connect ?A of Inr c \<Rightarrow> c | Inl _ \<Rightarrow> ?A)"
  define seg where "seg = hd (tc_segments_out c1)"
  define cB where "cB = (case TCPConnection_segment_received seg ?B of Inr c \<Rightarrow> c | Inl _ \<Rightarrow> ?B)"
  have 1: "TCPConnection_connect ?A = Inr c1"
    using connect_ok [OF cn_inv_new [of TCPConfig_new 1 "WrappingInt32 0" "[]"]] by (metis c1_def sum.case(2))
  have q: "tc_segments_out c1 = [seg]"
  proof -
    have "length (tc_segments_out c1) = 1" unfolding c1_def by code_simp
    then show ?thesis by (cases "tc_segments_out c1") (simp_all add: seg_def)
  qed
  have 2: "TCPConnection_segment_received seg ?B = Inr cB" "tc_segments_out cB \<noteq> []"
  proof -
    have "(case TCPConnection_segment_received seg ?B of Inr c \<Rightarrow> tc_segments_out c \<noteq> [] | Inl _ \<Rightarrow> False)"
      unfolding seg_def c1_def by code_simp
    then show "TCPConnection_segment_received seg ?B = Inr cB" "tc_segments_out cB \<noteq> []"
      by (auto simp: cB_def split: sum.splits)
  qed
  let ?R = "reach (net_init TCPConfig_new 1 TCPConfig_new 2) net_step"
  have "?R ((?A, [], []), (?B, [], []), {}, {})"
    by (rule reach_init) (simp add: net_init_def TCPConfig_new_def DEFAULT_CAPACITY_def)
  then have "?R ((c1, [], []), (?B, [], []), {}, {})"
    by (rule reach_step) (rule net_step.left [OF ep_step.connect [OF 1]])
  then have "?R ((c1\<lparr>tc_segments_out := []\<rparr>, [], []), (?B, [], []), {seg}, {})"
    by (rule reach_step) (rule net_step.left_sends [OF q])
  then have "?R ((c1\<lparr>tc_segments_out := []\<rparr>, [], []), (cB, [], []), {seg}, {})"
    by (rule reach_step) (rule net_step.right [OF ep_step.receive [OF _ 2(1)]], simp)
  moreover have "TCPConnection_active (c1\<lparr>tc_segments_out := []\<rparr>)" "length (sn_outstanding_segments (tc_sender c1)) = 1"
    "sn_wdn_sz (tc_sender c1) = 1" "sn_consecutive_retransmissions (tc_sender c1) = 0" "sn_segments_out (tc_sender c1) = []"
    unfolding c1_def by code_simp+
  ultimately show thesis using 2(2) by (intro that [of "c1\<lparr>tc_segments_out := []\<rparr>" cB "{seg}"]) simp_all
qed

subsection \<open>Delivery\<close>

text \<open>
  C1. Two endpoints deliver each other's streams in order: whatever segments the network
  loses, repeats, delays and reorders, and however the applications write, read, end their
  streams, let time pass or drop the connection, the bytes that one side has read or can read
  are the beginning of the bytes that the other side has written.
\<close>

theorem connection_delivers_prefix:
  assumes "reach (net_init ca ra cb rb) net_step ((cA, WA, outA), (cB, WB, outB), AB, BA)"
  shows "(\<exists>n. outB @ bs_contents (inbound_stream cB) = take n WA) \<and>
     (\<exists>n. outA @ bs_contents (inbound_stream cA) = take n WB)"
proof -
  obtain DA DB where h: "half (isn_of ca ra) (isn_of cb rb) DA DB (cA, WA, outA) AB"
    "half (isn_of cb rb) (isn_of ca ra) DB DA (cB, WB, outB) BA"
    using nw.reach_inv [OF assms] by (auto simp: sys_inv_def)
  have "\<exists>n. out @ bs_contents (inbound_stream c) = take n (S @ xs)" if "half isn pisn D S (c, W, out) net"
    for isn pisn D S c W out net xs
    using that by (auto simp: half_def cn_inv_def rc_inv_def ra_data_def inbound_stream_def intro!: exI [of _ "ra_next (rc_reassembler (tc_receiver c))"])
  from this [OF h(1), of "bs_contents (sn_stream (tc_sender cB))"] this [OF h(2), of "bs_contents (sn_stream (tc_sender cA))"] h
  show ?thesis by (simp add: half_def)
qed

theorem connection_delivers_prefix_witness:
  "\<exists>cA cB AB. reach (net_init TCPConfig_new 1 TCPConfig_new 2) net_step ((cA, [], []), (cB, [], []), AB, {}) \<and>
     AB \<noteq> {} \<and> (\<exists>n. [] @ bs_contents (inbound_stream cB) = take n [])"
proof -
  obtain cA cB AB where "reach (net_init TCPConfig_new 1 TCPConfig_new 2) net_step ((cA, [], []), (cB, [], []), AB, {})"
    "AB \<noteq> {}" using demo_connection by metis
  with connection_delivers_prefix [OF this(1)] show ?thesis by blast
qed

text \<open>
  C9. No operation of an endpoint fails in such a run: connecting, ending the stream,
  receiving any segment that the peer has ever sent and writing to a stream that is not ended
  all return, so that no exception is thrown, no undefined behaviour is reached and the loops
  inside end. What is written is accepted up to the remaining capacity.
\<close>

theorem connection_never_fails:
  assumes "reach (net_init ca ra cb rb) net_step ((c, W, out), b, AB, BA)"
  shows "(\<exists>c'. TCPConnection_connect c = Inr c') \<and> (\<exists>c'. TCPConnection_end_input_stream c = Inr c') \<and>
     (\<forall>seg \<in> BA. \<exists>c'. TCPConnection_segment_received seg c = Inr c') \<and>
     (\<forall>data. \<not> bs_input_ended (sn_stream (tc_sender c)) \<longrightarrow> length W + length data < 9223372036854775808 \<longrightarrow>
        (\<exists>n c'. TCPConnection_write data c = Inr (n, c') \<and>
           (TCPConnection_active c \<longrightarrow> unat n = min (unat (TCPConnection_remaining_outbound_capacity c)) (length data))))"
proof -
  obtain DA DB where h: "half (isn_of ca ra) (isn_of cb rb) DA DB (c, W, out) AB" "half (isn_of cb rb) (isn_of ca ra) DB DA b BA"
    using nw.reach_inv [OF assms] by (auto simp: sys_inv_def)
  have inv: "cn_inv (isn_of ca ra) (isn_of cb rb) DB DA c out" and W: "W = DA @ bs_contents (sn_stream (tc_sender c))"
    and fits: "stream_fits (rc_capacity (tc_receiver c)) DB"
    using h(1) half_length [OF h(2)] by (auto simp: half_def stream_fits_def)
  have net: "\<forall>seg \<in> BA. \<exists>q. genuine (isn_of cb rb) DB q seg" using h(2) by (auto simp: half_def)
  have ok: "byte_stream_ok (sn_stream (tc_sender c))" using inv by (simp add: cn_inv_def sn_inv_def)
  have "\<exists>n c'. TCPConnection_write data c = Inr (n, c') \<and>
      (TCPConnection_active c \<longrightarrow> unat n = min (unat (TCPConnection_remaining_outbound_capacity c)) (length data))"
    if d: "\<not> bs_input_ended (sn_stream (tc_sender c))" "length W + length data < 9223372036854775808" for data
  proof -
    have "length DA + length (bs_contents (sn_stream (tc_sender c))) + length data < 9223372036854775808"
      using d(2) W by simp
    then obtain n c' where w: "TCPConnection_write data c = Inr (n, c')" using write_ok [OF inv d(1)] by metis
    have "n = snd (ByteStream_write (sn_stream (tc_sender c)) data)" if "TCPConnection_active c"
      using w that by (auto simp: TCPConnection_write_def Let_def rbind_eq_Inr split: prod.splits)
    moreover have "str_ok data" using d(2) by simp
    ultimately show ?thesis using w ByteStream_write_ok [OF ok, of data]
      by (auto simp: TCPConnection_remaining_outbound_capacity_def unat_remaining_capacity [OF ok])
  qed
  moreover have "\<exists>c'. TCPConnection_segment_received seg c = Inr c'" if "seg \<in> BA" for seg
    using that net segment_received_ok [OF inv fits] by metis
  ultimately show ?thesis using connect_ok [OF inv] end_input_stream_ok [OF inv] by metis
qed

theorem connection_never_fails_witness:
  "\<exists>cA cB AB. reach (net_init TCPConfig_new 1 TCPConfig_new 2) net_step ((cA, [], []), (cB, [], []), AB, {}) \<and>
     (\<exists>c'. TCPConnection_end_input_stream cA = Inr c')"
proof -
  obtain cA cB AB where "reach (net_init TCPConfig_new 1 TCPConfig_new 2) net_step ((cA, [], []), (cB, [], []), AB, {})"
    using demo_connection by metis
  with connection_never_fails [OF this] show ?thesis by blast
qed

end
