(* ===== verification/Connection_Life.thy ===== *)
theory Connection_Life
  imports Delivery
begin

text \<open>
  How a connection ends: by a RST from the peer, by giving up after too many
  retransmissions, or after both streams have finished and the time to linger is over. A
  connection that is no longer active ignores everything.
\<close>

subsection \<open>Inactive connections\<close>

datatype cn_op = Op_segment tcp_segment | Op_write bytes | Op_tick u64 | Op_end_input | Op_destroy

fun cn_apply :: "cn_op \<Rightarrow> tcp_connection \<Rightarrow> tcp_connection res" where
  "cn_apply (Op_segment seg) c = TCPConnection_segment_received seg c"
| "cn_apply (Op_write data) c = rbind (TCPConnection_write data c) (\<lambda>(_, c). Inr c)"
| "cn_apply (Op_tick ms) c = Inr (TCPConnection_tick ms c)"
| "cn_apply Op_end_input c = TCPConnection_end_input_stream c"
| "cn_apply Op_destroy c = Inr (TCPConnection_destroy c)"

fun cn_apply_all :: "cn_op list \<Rightarrow> tcp_connection \<Rightarrow> tcp_connection res" where
  "cn_apply_all [] c = Inr c"
| "cn_apply_all (p # ops) c = rbind (cn_apply p c) (cn_apply_all ops)"

lemma inactive_apply: "\<not> TCPConnection_active c \<Longrightarrow> cn_apply p c = Inr c"
  by (cases p) (simp_all add: TCPConnection_segment_received_def TCPConnection_write_def TCPConnection_tick_def
      TCPConnection_end_input_stream_def TCPConnection_destroy_def)

lemma inactive_apply_all: "\<not> TCPConnection_active c \<Longrightarrow> cn_apply_all ops c = Inr c"
  by (induction ops) (simp_all add: inactive_apply)

subsection \<open>Reset\<close>

lemma errors_reset:
  assumes "bs_error (sn_stream (tc_sender c))" and "bs_error (inbound_stream c)"
  shows "TCPConnection_state c = TCPState_of_name RESET" "\<not> TCPConnection_active c"
  using assms by (simp_all add: TCPConnection_state_def TCPState_new_def TCPConnection_active_def Let_def
      sender_summary_def receiver_summary_def inbound_stream_def)



subsection \<open>Giving up\<close>

lemma shutdown_errors:
  "bs_error (sn_stream (tc_sender (TCPConnection_unclean_shutdown c)))"
  "bs_error (inbound_stream (TCPConnection_unclean_shutdown c))"
  "\<exists>seg. th_rst (ts_header seg) \<and> tc_segments_out (TCPConnection_unclean_shutdown c) = tc_segments_out c @ [seg]"
  by (simp_all add: TCPConnection_unclean_shutdown_def Let_def set_outbound_stream_def set_inbound_stream_def
      inbound_stream_def TCPSender_send_empty_segment_def split: option.split)

lemma flush_streams:
  "sn_stream (tc_sender (TCPConnection_flush_buffer c)) = sn_stream (tc_sender c)"
  "inbound_stream (TCPConnection_flush_buffer c) = inbound_stream c"
  by (simp_all add: flush_buffer_eq inbound_stream_def)

text \<open>The timer of the sender running out, seen from the connection.\<close>

definition cn_expire :: "tcp_connection \<Rightarrow> tcp_connection" where
  "cn_expire c = TCPConnection_tick (ucast (sn_rto (tc_sender c)) - sn_elapsed_time (tc_sender c)) c"

text \<open>The state after \<open>n\<close> of them, while \<open>seg\<close> is the oldest outstanding segment.\<close>

definition timed_out :: "tcp_segment \<Rightarrow> tcp_connection \<Rightarrow> nat \<Rightarrow> tcp_connection \<Rightarrow> bool" where
  "timed_out seg c n c' \<longleftrightarrow> TCPConnection_active c' \<and> sn_timer_on (tc_sender c') \<and>
     (\<exists>k es. sn_outstanding_segments (tc_sender c') = (k, seg) # es) \<and> 0 < sn_wdn_sz (tc_sender c') \<and>
     sn_consecutive_retransmissions (tc_sender c') = of_nat n \<and> TCPConnection_bytes_in_flight c' \<noteq> 0 \<and>
     tc_receiver c' = tc_receiver c \<and> sn_segments_out (tc_sender c') = [] \<and>
     tc_segments_out c' = tc_segments_out c @ replicate n (stamp_segment (tc_receiver c) seg)"

lemma active_in_flight:
  "TCPConnection_bytes_in_flight c \<noteq> 0 \<Longrightarrow>
     TCPConnection_active c \<longleftrightarrow> \<not> (bs_error (sn_stream (tc_sender c)) \<and> bs_error (inbound_stream c))"
  by (simp add: TCPConnection_active_def Let_def)

lemma cn_expire_eq:
  assumes "TCPConnection_active c"
  shows "cn_expire c =
     (let c1 = c\<lparr>tc_time_since_last_segment_received := tc_time_since_last_segment_received c +
            (ucast (sn_rto (tc_sender c)) - sn_elapsed_time (tc_sender c)), tc_sender := expire (tc_sender c)\<rparr>
      in TCPConnection_flush_buffer (if 8 < sn_consecutive_retransmissions (tc_sender c1)
         then TCPConnection_unclean_shutdown c1 else c1))"
  using assms by (simp add: cn_expire_def TCPConnection_tick_def expire_def MAX_RETX_ATTEMPTS_def Let_def)

lemma timed_out_expire:
  assumes t: "timed_out seg c n c'" and n: "n < 8"
  shows "timed_out seg c (Suc n) (cn_expire c')"
proof -
  let ?s = "tc_sender c'"
  obtain k es where es: "sn_outstanding_segments ?s = (k, seg) # es" using t by (auto simp: timed_out_def)
  have act: "TCPConnection_active c'" and fl: "TCPConnection_bytes_in_flight c' \<noteq> 0" using t by (simp_all add: timed_out_def)
  have s: "expire ?s = ?s\<lparr>sn_segments_out := sn_segments_out ?s @ [seg], sn_elapsed_time := 0, sn_rto := 2 * sn_rto ?s,
      sn_consecutive_retransmissions := sn_consecutive_retransmissions ?s + 1\<rparr>"
    using t by (intro expire_once [OF _ es]) (simp_all add: timed_out_def)
  have "unat (of_nat n + 1 :: u32) = Suc n" using n by (simp add: unat_word_ariths unat_of_nat)
  then have "\<not> 8 < (of_nat n + 1 :: u32)" using n by (simp add: word_less_nat_alt)
  with t s es have step: "cn_expire c' = (let c1 = c'\<lparr>tc_time_since_last_segment_received := tc_time_since_last_segment_received c' +
      (ucast (sn_rto ?s) - sn_elapsed_time ?s), tc_sender := expire ?s\<rparr> in TCPConnection_flush_buffer c1)"
    unfolding cn_expire_eq [OF act] by (simp add: timed_out_def Let_def)
  have "TCPConnection_active (cn_expire c')"
    using act fl by (subst active_in_flight)
      (simp_all add: step s active_in_flight [OF fl] flush_buffer_eq Let_def TCPConnection_bytes_in_flight_def inbound_stream_def)
  with t es show ?thesis
    by (simp add: timed_out_def step s Let_def flush_buffer_eq TCPConnection_bytes_in_flight_def
        replicate_append_same [symmetric])
qed

lemma timed_out_limit:
  assumes t: "timed_out seg c 8 c'"
  shows "TCPConnection_state (cn_expire c') = TCPState_of_name RESET"
    "\<exists>rst rest. th_rst (ts_header rst) \<and> tc_segments_out (cn_expire c') = tc_segments_out c' @ rst # rest"
proof -
  let ?s = "tc_sender c'"
  obtain k es where es: "sn_outstanding_segments ?s = (k, seg) # es" using t by (auto simp: timed_out_def)
  have act: "TCPConnection_active c'" using t by (simp add: timed_out_def)
  have "sn_consecutive_retransmissions (expire ?s) = 9"
    using t by (subst expire_once [OF _ es]) (simp_all add: timed_out_def)
  then obtain c1 where c1: "cn_expire c' = TCPConnection_flush_buffer (TCPConnection_unclean_shutdown c1)"
    "tc_segments_out c1 = tc_segments_out c'"
    unfolding cn_expire_eq [OF act] by (simp add: Let_def)
  show "TCPConnection_state (cn_expire c') = TCPState_of_name RESET"
    unfolding c1(1) by (rule errors_reset) (simp_all add: flush_streams shutdown_errors)
  show "\<exists>rst rest. th_rst (ts_header rst) \<and> tc_segments_out (cn_expire c') = tc_segments_out c' @ rst # rest"
    using shutdown_errors(3) [of c1] unfolding c1(1) by (auto simp: flush_buffer_eq c1(2))
qed

text \<open>
  C11. The connection gives up after \<^verbatim>\<open>MAX_RETX_ATTEMPTS\<close>: when a segment is outstanding, the peer's
  window is open and the timer keeps running out, the first eight timeouts send the oldest
  segment again, stamped with the current acknowledgment, and leave the connection active;
  the ninth sends a RST and resets the connection.
\<close>

theorem gives_up_after_limit:
  assumes "reach (net_init ca ra cb rb) net_step ((c, W, out), b, AB, BA)" and "TCPConnection_active c"
    and "sn_outstanding_segments (tc_sender c) = (k, seg) # es" and "0 < sn_wdn_sz (tc_sender c)"
    and "sn_consecutive_retransmissions (tc_sender c) = 0" and "sn_segments_out (tc_sender c) = []"
  shows "(\<forall>n \<le> 8. TCPConnection_active ((cn_expire ^^ n) c) \<and>
       tc_segments_out ((cn_expire ^^ n) c) = tc_segments_out c @ replicate n (stamp_segment (tc_receiver c) seg)) \<and>
     TCPConnection_state ((cn_expire ^^ 9) c) = TCPState_of_name RESET \<and>
     (\<exists>rst rest. th_rst (ts_header rst) \<and>
        tc_segments_out ((cn_expire ^^ 9) c) = tc_segments_out ((cn_expire ^^ 8) c) @ rst # rest)"
proof -
  obtain D S where inv: "sn_inv D (tc_sender c)"
    using nw.reach_inv [OF assms(1)] by (auto simp: sys_inv_def half_def cn_inv_def)
  have flight: "sn_timer_on (tc_sender c)" "sn_bytes_in_flight (tc_sender c) \<noteq> 0"
    using sn_inv_flight [OF inv] assms(3) seg_chain_sum by (fastforce simp: flight_ok_def)+
  have t: "timed_out seg c n ((cn_expire ^^ n) c)" if "n \<le> 8" for n
    using that
  proof (induction n)
    case 0
    show ?case using assms flight by (simp add: timed_out_def TCPConnection_bytes_in_flight_def)
  next
    case (Suc n)
    then show ?case using timed_out_expire [of seg c n] by simp
  qed
  have nine: "(cn_expire ^^ 9) c = cn_expire ((cn_expire ^^ 8) c)" by (simp add: eval_nat_numeral)
  show ?thesis
    using t timed_out_limit [OF t [of 8]] unfolding nine by (auto simp: timed_out_def)
qed

theorem gives_up_after_limit_witness:
  "\<exists>c. TCPConnection_active c \<and> sn_outstanding_segments (tc_sender c) \<noteq> [] \<and>
     TCPConnection_state ((cn_expire ^^ 9) c) = TCPState_of_name RESET"
proof -
  obtain cA cB AB where d: "reach (net_init TCPConfig_new 1 TCPConfig_new 2) net_step ((cA, [], []), (cB, [], []), AB, {})"
    "TCPConnection_active cA" "length (sn_outstanding_segments (tc_sender cA)) = 1" "sn_wdn_sz (tc_sender cA) = 1"
    "sn_consecutive_retransmissions (tc_sender cA) = 0" "sn_segments_out (tc_sender cA) = []"
    using demo_connection by metis
  then obtain k seg es where es: "sn_outstanding_segments (tc_sender cA) = (k, seg) # es"
    by (cases "sn_outstanding_segments (tc_sender cA)") auto
  with gives_up_after_limit [OF d(1,2) es] d show ?thesis by auto
qed

subsection \<open>Lingering\<close>

text \<open>Both streams are finished, everything is acknowledged and the connection lingers.\<close>

definition finished :: "tcp_connection \<Rightarrow> bool" where
  "finished c \<longleftrightarrow> receiver_summary (tc_receiver c) = receiver_FIN_RECV \<and>
     sender_summary (tc_sender c) = sender_FIN_ACKED \<and> ByteStream_eof (inbound_stream c) \<and> tc_linger c \<and>
     \<not> sn_timer_on (tc_sender c) \<and> sn_consecutive_retransmissions (tc_sender c) \<le> MAX_RETX_ATTEMPTS"

lemma sender_summary_distinct:
  "distinct [sender_ERROR, sender_CLOSED, sender_SYN_SENT, sender_SYN_ACKED, sender_FIN_SENT, sender_FIN_ACKED]"
  by (simp add: summary_defs)

lemma fin_acked:
  assumes "sender_summary s = sender_FIN_ACKED"
  shows "\<not> bs_error (sn_stream s)" "ByteStream_eof (sn_stream s)" "sn_bytes_in_flight s = 0"
  using assms sender_summary_distinct by (auto simp: sender_summary_def split: if_splits)

lemma sender_summary_out: "sender_summary (s\<lparr>sn_segments_out := q\<rparr>) = sender_summary s"
  by (simp add: sender_summary_def)

lemma finished_active:
  assumes "finished c"
  shows "TCPConnection_active c \<longleftrightarrow>
     unat (tc_time_since_last_segment_received c) < 10 * unat (cf_rt_timeout (tc_cfg c))"
proof -
  let ?rt = "cf_rt_timeout (tc_cfg c)"
  have "10 * unat ?rt < 18446744073709551616" using unat16_lt [of ?rt] by linarith
  then have "unat (10 :: u64) * unat (ucast ?rt :: u64) < 18446744073709551616" by simp
  from unat_mult_nowrap [OF this] have "unat (10 * ucast ?rt :: u64) = 10 * unat ?rt" by simp
  then have "10 * ucast ?rt \<le> tc_time_since_last_segment_received c \<longleftrightarrow>
      10 * unat ?rt \<le> unat (tc_time_since_last_segment_received c)" by (simp add: word_le_nat_alt)
  moreover have "\<not> bs_error (sn_stream (tc_sender c))" "ByteStream_eof (sn_stream (tc_sender c))"
    "sn_bytes_in_flight (tc_sender c) = 0" "ByteStream_eof (inbound_stream c)" "tc_linger c"
    using assms fin_acked by (simp_all add: finished_def)
  ultimately show ?thesis by (simp add: TCPConnection_active_def TCPConnection_bytes_in_flight_def Let_def not_le)
qed

lemma finished_state:
  "finished c \<Longrightarrow> TCPConnection_state c = TCPState_of_name (if TCPConnection_active c then TIME_WAIT else CLOSED)"
  by (simp add: TCPConnection_state_def TCPState_new_def finished_def)

lemma finished_tick:
  fixes ms :: u64
  assumes f: "finished c" and act: "TCPConnection_active c"
  defines "c' \<equiv> TCPConnection_tick ms c"
  shows "finished c'" "tc_cfg c' = tc_cfg c"
    "tc_time_since_last_segment_received c' = tc_time_since_last_segment_received c + ms"
proof -
  have s: "TCPSender_tick ms (tc_sender c) = tc_sender c" "\<not> MAX_RETX_ATTEMPTS < sn_consecutive_retransmissions (tc_sender c)"
    using f by (simp_all add: finished_def tick_idle not_less)
  have c': "c' = TCPConnection_flush_buffer (c\<lparr>tc_time_since_last_segment_received := tc_time_since_last_segment_received c + ms\<rparr>)"
    using act s by (simp add: c'_def TCPConnection_tick_def Let_def)
  show "finished c'" using f by (simp add: c' finished_def flush_buffer_eq inbound_stream_def sender_summary_out)
  show "tc_cfg c' = tc_cfg c" "tc_time_since_last_segment_received c' = tc_time_since_last_segment_received c + ms"
    by (simp_all add: c' flush_buffer_eq)
qed

text \<open>
  C12. After both streams have finished, the connection lingers for exactly ten times the initial
  retransmission timeout: whatever ticks the time comes in, the state is TIME_WAIT while the
  time since the last segment is below that and CLOSED from then on.
\<close>

theorem lingers_ten_timeouts:
  assumes "finished c" and "unat (tc_time_since_last_segment_received c) + sum_list (map unat ticks) < 18446744073709551616"
  shows "TCPConnection_state (fold TCPConnection_tick ticks c) =
     TCPState_of_name (if unat (tc_time_since_last_segment_received c) + sum_list (map unat ticks) <
        10 * unat (cf_rt_timeout (tc_cfg c)) then TIME_WAIT else CLOSED)"
  using assms
proof (induction ticks arbitrary: c)
  case Nil
  then show ?case using finished_state finished_active by simp
next
  case (Cons ms ticks)
  show ?case
  proof (cases "TCPConnection_active c")
    case True
    have "unat (tc_time_since_last_segment_received c + ms) = unat (tc_time_since_last_segment_received c) + unat ms"
      using Cons.prems(2) by (intro unat_add_nowrap) simp
    with finished_tick [OF Cons.prems(1) True, of ms] Cons.IH [of "TCPConnection_tick ms c"] Cons.prems(2)
    show ?thesis by (simp add: add.assoc)
  next
    case False
    then have "fold TCPConnection_tick (ms # ticks) c = c" by (induction ticks) (simp_all add: TCPConnection_tick_def)
    with finished_state [OF Cons.prems(1)] finished_active [OF Cons.prems(1)] False show ?thesis by simp
  qed
qed

definition demo_finished :: tcp_connection where
  "demo_finished =
     (let c = TCPConnection_new TCPConfig_new 3;
          c = set_inbound_stream (ByteStream_end_input (inbound_stream c)) c;
          c = set_outbound_stream (ByteStream_end_input (sn_stream (tc_sender c))) c
      in c\<lparr>tc_receiver := (tc_receiver c)\<lparr>rc_syn := True\<rparr>,
           tc_sender := (tc_sender c)\<lparr>sn_syn := True, sn_fin_sent := True, sn_next_seqno := 2\<rparr>\<rparr>)"

theorem lingers_ten_timeouts_witness:
  "TCPConnection_state (fold TCPConnection_tick [4000, 5000] demo_finished) = TCPState_of_name TIME_WAIT \<and>
     TCPConnection_state (fold TCPConnection_tick [4000, 6000] demo_finished) = TCPState_of_name CLOSED"
proof -
  have f: "finished demo_finished" by code_simp
  have "unat (tc_time_since_last_segment_received demo_finished) = 0" "unat (cf_rt_timeout (tc_cfg demo_finished)) = 1000"
    by code_simp+
  with lingers_ten_timeouts [OF f, of "[4000, 5000]"] lingers_ten_timeouts [OF f, of "[4000, 6000]"] show ?thesis by simp
qed

end
