(* ===== verification/IPv4.thy ===== *)
theory IPv4
  imports TCP_Segment
begin

text \<open>
  \<^verbatim>\<open>libsponge/tcp_helpers/ipv4_header.hh\<close>, \<^verbatim>\<open>ipv4_header.cc\<close>, \<^verbatim>\<open>ipv4_datagram.hh\<close> and
  \<^verbatim>\<open>ipv4_datagram.cc\<close>: the IPv4 header and datagram, their parsers and serializers, and the sum of
  the pseudo-header that TCP checksums include.
\<close>

subsection \<open>Header\<close>

record ipv4_header =
  ih_ver :: u8
  ih_hlen :: u8
  ih_tos :: u8
  ih_len :: u16
  ih_id :: u16
  ih_df :: bool
  ih_mf :: bool
  ih_offset :: u16
  ih_ttl :: u8
  ih_proto :: u8
  ih_cksum :: u16
  ih_src :: u32
  ih_dst :: u32

definition IPv4Header_LENGTH :: u64 where
  "IPv4Header_LENGTH = 20"

definition IPv4Header_DEFAULT_TTL :: u8 where
  "IPv4Header_DEFAULT_TTL = 128"

definition IPv4Header_PROTO_TCP :: u8 where
  "IPv4Header_PROTO_TCP = 6"

definition IPv4Header_new :: ipv4_header where
  "IPv4Header_new = \<lparr>ih_ver = 4, ih_hlen = 5, ih_tos = 0, ih_len = 0, ih_id = 0, ih_df = True, ih_mf = False,
     ih_offset = 0, ih_ttl = IPv4Header_DEFAULT_TTL, ih_proto = IPv4Header_PROTO_TCP, ih_cksum = 0,
     ih_src = 0, ih_dst = 0\<rparr>"

definition IPv4Header_parse :: "ipv4_header \<Rightarrow> netparser \<Rightarrow> (ParseResult \<times> ipv4_header \<times> netparser) res" where
  "IPv4Header_parse h0 p =
     (let original_serialized_version = np_buffer p;
          data_size = Buffer_size (np_buffer p)
      in
      if data_size < IPv4Header_LENGTH then Inr (PacketTooShort, h0, p)
      else
        rbind (NetParser_u8 p) (\<lambda>(first_byte, p).
        rbind (NetParser_u8 p) (\<lambda>(tos, p).
        rbind (NetParser_u16 p) (\<lambda>(len, p).
        rbind (NetParser_u16 p) (\<lambda>(id, p).
        rbind (NetParser_u16 p) (\<lambda>(fo_val, p).
        rbind (NetParser_u8 p) (\<lambda>(ttl, p).
        rbind (NetParser_u8 p) (\<lambda>(proto, p).
        rbind (NetParser_u16 p) (\<lambda>(cksum, p).
        rbind (NetParser_u32 p) (\<lambda>(src, p).
        rbind (NetParser_u32 p) (\<lambda>(dst, p).
        let h = \<lparr>ih_ver = drop_bit 4 first_byte, ih_hlen = first_byte AND 0x0f, ih_tos = tos, ih_len = len,
                  ih_id = id, ih_df = (fo_val AND 0x4000 \<noteq> 0), ih_mf = (fo_val AND 0x2000 \<noteq> 0),
                  ih_offset = fo_val AND 0x1fff, ih_ttl = ttl, ih_proto = proto, ih_cksum = cksum,
                  ih_src = src, ih_dst = dst\<rparr>
        in
        if data_size < 4 * ucast (ih_hlen h) then Inr (PacketTooShort, h, p)
        else if ih_ver h \<noteq> 4 then Inr (WrongIPVersion, h, p)
        else if ih_hlen h < 5 then Inr (HeaderTooShort, h, p)
        else if data_size \<noteq> ucast (ih_len h) then Inr (TruncatedPacket, h, p)
        else
          rbind (NetParser_remove_prefix (ucast (ih_hlen h) * 4 - IPv4Header_LENGTH) p) (\<lambda>p.
          if np_error p \<noteq> NoError then Inr (np_error p, h, p)
          else
            let check = InternetChecksum_add (InternetChecksum_new 0)
                  (take (4 * unat (ih_hlen h)) (Buffer_str original_serialized_version))
            in if InternetChecksum_value check \<noteq> 0 then Inr (BadChecksum, h, p)
               else Inr (NoError, h, p)))))))))))))"

definition IPv4Header_serialize :: "ipv4_header \<Rightarrow> bytes res" where
  "IPv4Header_serialize h =
     (if ih_ver h \<noteq> 4 then Inl (Runtime_error ''wrong IP version'')
      else if 4 * ucast (ih_hlen h) < IPv4Header_LENGTH then Inl (Runtime_error ''IP header too short'')
      else
        let ret = [];
            first_byte = push_bit 4 (ih_ver h) OR (ih_hlen h AND 0xf);
            ret = NetUnparser_u8 ret first_byte;
            ret = NetUnparser_u8 ret (ih_tos h);
            ret = NetUnparser_u16 ret (ih_len h);
            ret = NetUnparser_u16 ret (ih_id h);
            fo_val = (if ih_df h then 0x4000 else 0) OR (if ih_mf h then 0x2000 else 0) OR (ih_offset h AND 0x1fff);
            ret = NetUnparser_u16 ret fo_val;
            ret = NetUnparser_u8 ret (ih_ttl h);
            ret = NetUnparser_u8 ret (ih_proto h);
            ret = NetUnparser_u16 ret (ih_cksum h);
            ret = NetUnparser_u32 ret (ih_src h);
            ret = NetUnparser_u32 ret (ih_dst h)
        in Inr (string_resize ret (4 * unat (ih_hlen h))))"

definition IPv4Header_payload_length :: "ipv4_header \<Rightarrow> u16" where
  "IPv4Header_payload_length h = ih_len h - 4 * ucast (ih_hlen h)"

definition IPv4Header_pseudo_cksum :: "ipv4_header \<Rightarrow> u32" where
  "IPv4Header_pseudo_cksum h =
     (let pcksum = drop_bit 16 (ih_src h) + (ih_src h AND 0xffff);
          pcksum = pcksum + (drop_bit 16 (ih_dst h) + (ih_dst h AND 0xffff));
          pcksum = pcksum + ucast (ih_proto h)
      in pcksum + ucast (IPv4Header_payload_length h))"

subsection \<open>Datagram\<close>

record ipv4_datagram =
  id_header :: ipv4_header
  id_payload :: buffer_list

definition IPv4Datagram_new :: ipv4_datagram where
  "IPv4Datagram_new = \<lparr>id_header = IPv4Header_new, id_payload = []\<rparr>"

definition IPv4Datagram_parse :: "ipv4_datagram \<Rightarrow> buffer \<Rightarrow> (ParseResult \<times> ipv4_datagram) res" where
  "IPv4Datagram_parse dg buf =
     rbind (IPv4Header_parse (id_header dg) (NetParser_new buf)) (\<lambda>(_, h, p).
     let dg = \<lparr>id_header = h, id_payload = [np_buffer p]\<rparr> in
     Inr (if BufferList_size (id_payload dg) \<noteq> ucast (IPv4Header_payload_length h)
          then PacketTooShort else np_error p, dg))"

definition IPv4Datagram_serialize :: "ipv4_datagram \<Rightarrow> buffer_list res" where
  "IPv4Datagram_serialize dg =
     (if BufferList_size (id_payload dg) \<noteq> ucast (IPv4Header_payload_length (id_header dg))
      then Inl (Runtime_error ''IPv4Datagram::serialize: payload is wrong size'')
      else
        let header_out = (id_header dg)\<lparr>ih_cksum := 0\<rparr> in
        rbind (IPv4Header_serialize header_out) (\<lambda>header_zero_checksum.
        let check = InternetChecksum_add (InternetChecksum_new 0) header_zero_checksum;
            header_out = header_out\<lparr>ih_cksum := InternetChecksum_value check\<rparr>
        in rbind (IPv4Header_serialize header_out) (\<lambda>header_ser.
           Inr (BufferList_append (BufferList_append [] [Buffer_of header_ser]) (id_payload dg)))))"

subsection \<open>Packed fields\<close>

definition ip_first_byte :: "ipv4_header \<Rightarrow> u8" where
  "ip_first_byte h = push_bit 4 (ih_ver h) OR (ih_hlen h AND 0xf)"

definition ip_fo_val :: "ipv4_header \<Rightarrow> u16" where
  "ip_fo_val h = (if ih_df h then 0x4000 else 0) OR (if ih_mf h then 0x2000 else 0) OR (ih_offset h AND 0x1fff)"

lemma small_bit:
  fixes w :: "'a::len word"
  assumes "unat w < 2 ^ k" and "bit w n"
  shows "n < k"
proof -
  have "take_bit k (unat w) = unat w" using assms(1) by (simp add: take_bit_nat_eq_self)
  moreover have "bit (unat w) n" using assms(2) by (simp add: bit_unsigned_iff)
  ultimately show ?thesis by (metis bit_take_bit_iff)
qed

lemma ip_first_byte_parts:
  assumes "unat (ih_ver h) < 16" and "unat (ih_hlen h) < 16"
  shows "drop_bit 4 (ip_first_byte h) = ih_ver h" "ip_first_byte h AND 0x0f = ih_hlen h"
proof -
  have f: "(0xf :: u8) = mask 4" by (simp add: mask_eq_exp_minus_1)
  have v: "bit (ih_ver h) n \<Longrightarrow> n < 4" and l: "bit (ih_hlen h) n \<Longrightarrow> n < 4" for n
    using small_bit [of "ih_ver h" 4 n] small_bit [of "ih_hlen h" 4 n] assms by simp_all
  show "drop_bit 4 (ip_first_byte h) = ih_ver h"
    unfolding ip_first_byte_def f
    by (rule bit_word_eqI) (auto simp: bit_simps dest: v)
  show "ip_first_byte h AND 0x0f = ih_hlen h"
    unfolding ip_first_byte_def f
    by (rule bit_word_eqI) (auto simp: bit_simps dest: l)
qed

lemma ip_fo_val_parts:
  assumes "unat (ih_offset h) < 8192"
  shows "(ip_fo_val h AND 0x4000 \<noteq> 0) = ih_df h" "(ip_fo_val h AND 0x2000 \<noteq> 0) = ih_mf h"
    "ip_fo_val h AND 0x1fff = ih_offset h"
proof -
  have m: "(0x1fff :: u16) = mask 13" and a: "(0x4000 :: u16) = 2 ^ 14" and b: "(0x2000 :: u16) = 2 ^ 13"
    by (simp_all add: mask_eq_exp_minus_1)
  have "bit (ih_offset h) n \<Longrightarrow> n < 13" for n using small_bit [of "ih_offset h" 13 n] assms by simp
  then have o: "ih_offset h AND 0x1fff = ih_offset h"
    unfolding m by (intro bit_word_eqI) (auto simp: bit_simps)
  show "(ip_fo_val h AND 0x4000 \<noteq> 0) = ih_df h"
    unfolding ip_fo_val_def m a b and_exp_eq_0_iff_not_bit by (auto simp: bit_simps)
  show "(ip_fo_val h AND 0x2000 \<noteq> 0) = ih_mf h"
    unfolding ip_fo_val_def m a b and_exp_eq_0_iff_not_bit by (auto simp: bit_simps)
  show "ip_fo_val h AND 0x1fff = ih_offset h"
    unfolding ip_fo_val_def by (cases "ih_df h"; cases "ih_mf h") (simp_all add: bit.conj_disj_distrib2 o)
qed

definition ip_fields_pre :: "ipv4_header \<Rightarrow> bytes" where
  "ip_fields_pre h = NetUnparser_unparse_int (ip_first_byte h) @ NetUnparser_unparse_int (ih_tos h) @
     NetUnparser_unparse_int (ih_len h) @ NetUnparser_unparse_int (ih_id h) @
     NetUnparser_unparse_int (ip_fo_val h) @ NetUnparser_unparse_int (ih_ttl h) @
     NetUnparser_unparse_int (ih_proto h)"

definition ip_fields :: "ipv4_header \<Rightarrow> bytes" where
  "ip_fields h = ip_fields_pre h @ NetUnparser_unparse_int (ih_cksum h) @
     NetUnparser_unparse_int (ih_src h) @ NetUnparser_unparse_int (ih_dst h)"

lemma length_ip_fields_pre [simp]: "length (ip_fields_pre h) = 10"
  by (simp add: ip_fields_pre_def)

lemma length_ip_fields [simp]: "length (ip_fields h) = 20"
  by (simp add: ip_fields_def)

lemma ip_fields_cksum:
  "ip_fields (h\<lparr>ih_cksum := c\<rparr>) = ip_fields_pre h @ NetUnparser_unparse_int c @
     NetUnparser_unparse_int (ih_src h) @ NetUnparser_unparse_int (ih_dst h)"
  by (simp add: ip_fields_def ip_fields_pre_def ip_first_byte_def ip_fo_val_def)

text \<open>The header fits its packed fields.\<close>

definition ip_header_ok :: "ipv4_header \<Rightarrow> bool" where
  "ip_header_ok h \<longleftrightarrow> unat (ih_ver h) < 16 \<and> unat (ih_hlen h) < 16 \<and> unat (ih_offset h) < 8192"

definition ip_check :: "u64 \<Rightarrow> buffer \<Rightarrow> ipv4_header \<Rightarrow> netparser \<Rightarrow> (ParseResult \<times> ipv4_header \<times> netparser) res" where
  "ip_check data_size orig h p =
     (if data_size < 4 * ucast (ih_hlen h) then Inr (PacketTooShort, h, p)
      else if ih_ver h \<noteq> 4 then Inr (WrongIPVersion, h, p)
      else if ih_hlen h < 5 then Inr (HeaderTooShort, h, p)
      else if data_size \<noteq> ucast (ih_len h) then Inr (TruncatedPacket, h, p)
      else
        rbind (NetParser_remove_prefix (ucast (ih_hlen h) * 4 - IPv4Header_LENGTH) p) (\<lambda>p.
        if np_error p \<noteq> NoError then Inr (np_error p, h, p)
        else if InternetChecksum_value (InternetChecksum_add (InternetChecksum_new 0)
                  (take (4 * unat (ih_hlen h)) (Buffer_str orig))) \<noteq> 0
        then Inr (BadChecksum, h, p) else Inr (NoError, h, p)))"

lemma ip_parse_fields:
  assumes at: "np_at p (ip_fields h @ s)" and ok: "ip_header_ok h"
  obtains p' where "np_at p' s"
    "IPv4Header_parse h0 p = ip_check (Buffer_size (np_buffer p)) (np_buffer p) h p'"
proof -
  have h: "\<lparr>ih_ver = drop_bit 4 (ip_first_byte h), ih_hlen = ip_first_byte h AND 0x0f, ih_tos = ih_tos h,
      ih_len = ih_len h, ih_id = ih_id h, ih_df = (ip_fo_val h AND 0x4000 \<noteq> 0),
      ih_mf = (ip_fo_val h AND 0x2000 \<noteq> 0), ih_offset = ip_fo_val h AND 0x1fff, ih_ttl = ih_ttl h,
      ih_proto = ih_proto h, ih_cksum = ih_cksum h, ih_src = ih_src h, ih_dst = ih_dst h\<rparr> = h"
    using ok by (simp add: ip_header_ok_def ip_first_byte_parts ip_fo_val_parts)
  have "\<not> Buffer_size (np_buffer p) < IPv4Header_LENGTH"
    using at np_at_length [OF at] 
    by (simp add: np_at_def np_str_def Buffer_size_def IPv4Header_LENGTH_def word_less_nat_alt del: size64_append)
  note size = if_not_P [OF this]
  let ?P = "\<lambda>x. \<exists>p'. np_at p' s \<and> x = ip_check (Buffer_size (np_buffer p)) (np_buffer p) h p'"
  have "?P (IPv4Header_parse h0 p)"
    unfolding IPv4Header_parse_def Let_def size using at unfolding ip_fields_def ip_fields_pre_def append_assoc
    by - ((rule n16.dec_run [where P = ?P] n32.dec_run [where P = ?P] n8.dec_run [where P = ?P],
        assumption, unfold prod.case)+, unfold h ip_check_def, blast)
  with that show thesis by blast
qed

subsection \<open>Round trip\<close>

lemma hlen_skip:
  assumes "\<not> (l :: u8) < 5"
  shows "unat (ucast l * 4 - IPv4Header_LENGTH) = 4 * unat l - 20"
  using doff_skip [OF assms] by (simp add: IPv4Header_LENGTH_def TCPHeader_LENGTH_def)

lemma unat_hlen4: "unat (4 * ucast (l :: u8) :: u64) = 4 * unat l"
proof -
  have u: "unat (ucast l :: u64) = unat l" by (simp add: unat_ucast)
  have four: "unat (4 :: u64) = 4" by simp
  have "unat (4 :: u64) * unat (ucast l :: u64) < 18446744073709551616"
    unfolding u four using unat8_lt [of l] by linarith
  then show ?thesis by (simp add: unat_mult_nowrap u)
qed

lemma ip_serialize_eq:
  assumes "ih_ver h = 4" and "\<not> ih_hlen h < 5"
  shows "IPv4Header_serialize h = Inr (ip_fields h @ replicate (4 * unat (ih_hlen h) - 20) 0)"
proof -
  have l: "5 \<le> unat (ih_hlen h)" using assms(2) by (simp add: not_less word_le_nat_alt)
  then have "\<not> 4 * ucast (ih_hlen h) < IPv4Header_LENGTH"
    unfolding word_less_nat_alt unat_hlen4 IPv4Header_LENGTH_def by simp
  moreover have "string_resize (ip_fields h) (4 * unat (ih_hlen h)) = ip_fields h @ replicate (4 * unat (ih_hlen h) - 20) 0"
    using l by (simp add: string_resize_def)
  ultimately show ?thesis
    using assms(1) unfolding ip_fields_def ip_fields_pre_def
    by (simp add: IPv4Header_serialize_def Let_def unparse_append ip_first_byte_def ip_fo_val_def)
qed

text \<open>A datagram that the format can carry, whose length field says its length.\<close>

definition datagram_ok :: "ipv4_datagram \<Rightarrow> bool" where
  "datagram_ok dg \<longleftrightarrow> ip_header_ok (id_header dg) \<and> ih_ver (id_header dg) = 4 \<and> \<not> ih_hlen (id_header dg) < 5 \<and>
     buffer_list_ok (id_payload dg) \<and>
     unat (ih_len (id_header dg)) = 4 * unat (ih_hlen (id_header dg)) + length (BufferList_concatenate (id_payload dg))"

lemma unat_payload_length:
  assumes "unat (ih_len h) = 4 * unat (ih_hlen h) + n" and "unat (ih_hlen h) < 16"
  shows "unat (IPv4Header_payload_length h) = n"
proof -
  have u: "unat (ucast (ih_hlen h) :: u16) = unat (ih_hlen h)" by (simp add: unat_ucast)
  have four: "unat (4 * ucast (ih_hlen h) :: u16) = 4 * unat (ih_hlen h)"
    using assms(2) u by (simp add: unat_word_ariths)
  show ?thesis
    unfolding IPv4Header_payload_length_def using assms(1) four
    by (simp add: unat_sub word_le_nat_alt)
qed

lemma BufferList_size_unat:
  "buffer_list_ok bl \<Longrightarrow> str_ok (BufferList_concatenate bl) \<Longrightarrow> unat (BufferList_size bl) = length (BufferList_concatenate bl)"
  by (simp add: BufferList_size_eq BufferList_concatenate_eq)

lemma unat_ucast16_64 [simp]: "unat (ucast (x :: u16) :: u64) = unat x"
  by (simp add: unat_ucast)

lemma ip_check_ok:
  assumes at: "np_at p (replicate (4 * unat (ih_hlen h) - 20) 0 @ pl)" and ver: "ih_ver h = 4" "\<not> ih_hlen h < 5"
    and size: "unat n = 4 * unat (ih_hlen h) + length pl" "unat (ih_len h) = 4 * unat (ih_hlen h) + length pl"
    and sum: "InternetChecksum_value (InternetChecksum_add (InternetChecksum_new 0)
        (take (4 * unat (ih_hlen h)) (Buffer_str orig))) = 0"
  obtains p' where "ip_check n orig h p = Inr (NoError, h, p')" "np_at p' pl"
proof -
  have "\<not> n < 4 * ucast (ih_hlen h)" using size(1) unfolding word_less_nat_alt unat_hlen4 by simp
  moreover have "n = ucast (ih_len h)" using size by (simp add: unat_eq_iff)
  moreover obtain p' where "NetParser_remove_prefix (ucast (ih_hlen h) * 4 - IPv4Header_LENGTH) p = Inr p'" "np_at p' pl"
    using remove_prefix_at [OF at, of "ucast (ih_hlen h) * 4 - IPv4Header_LENGTH"] hlen_skip [OF ver(2)] by auto
  moreover from this(2) have "np_error p' = NoError" by (simp add: np_at_def)
  ultimately show thesis using ver sum by (intro that [of p']) (simp_all add: ip_check_def)
qed

text \<open>The fields of a datagram that parsing gives back, with the checksum \<open>c\<close>.\<close>

definition same_datagram :: "ipv4_datagram \<Rightarrow> u16 \<Rightarrow> ipv4_datagram \<Rightarrow> bool" where
  "same_datagram dg c dg' \<longleftrightarrow> id_header dg' = (id_header dg)\<lparr>ih_cksum := c\<rparr> \<and> buffer_list_ok (id_payload dg') \<and>
     length (id_payload dg') = 1 \<and>
     BufferList_concatenate (id_payload dg') = BufferList_concatenate (id_payload dg)"

lemma datagram_serialize_ok:
  assumes ok: "datagram_ok dg"
  defines "h \<equiv> id_header dg"
  obtains c bl hs where "IPv4Datagram_serialize dg = Inr bl" "buffer_list_ok bl"
    "BufferList_concatenate bl = hs @ BufferList_concatenate (id_payload dg)"
    "hs = ip_fields (h\<lparr>ih_cksum := c\<rparr>) @ replicate (4 * unat (ih_hlen h) - 20) 0"
    "length hs = 4 * unat (ih_hlen h)"
    "InternetChecksum_value (InternetChecksum_add (InternetChecksum_new 0) hs) = 0"
proof -
  let ?pad = "replicate (4 * unat (ih_hlen h) - 20) 0 :: bytes"
  let ?post = "NetUnparser_unparse_int (ih_src h) @ NetUnparser_unparse_int (ih_dst h) @ ?pad"
  have hok: "ip_header_ok h" "ih_ver h = 4" "\<not> ih_hlen h < 5" and pok: "buffer_list_ok (id_payload dg)"
    and len: "unat (ih_len h) = 4 * unat (ih_hlen h) + length (BufferList_concatenate (id_payload dg))"
    using ok by (simp_all add: datagram_ok_def h_def)
  have l: "5 \<le> unat (ih_hlen h)" "unat (ih_hlen h) < 16"
    using hok by (simp_all add: not_less word_le_nat_alt ip_header_ok_def)
  have ser: "IPv4Header_serialize (h\<lparr>ih_cksum := c\<rparr>) = Inr (ip_fields (h\<lparr>ih_cksum := c\<rparr>) @ ?pad)" for c
    using ip_serialize_eq [of "h\<lparr>ih_cksum := c\<rparr>"] hok by simp
  define c where "c = InternetChecksum_value (InternetChecksum_add (InternetChecksum_new 0)
      (ip_fields_pre h @ [0, 0] @ ?post))"
  define hs where "hs = ip_fields (h\<lparr>ih_cksum := c\<rparr>) @ ?pad"
  have hs_len: "length hs = 4 * unat (ih_hlen h)" using l by (simp add: hs_def)
  have short: "str_ok (BufferList_concatenate (id_payload dg))" using len unat16_lt [of "ih_len h"] by linarith
  have "unat (BufferList_size (id_payload dg)) = unat (ucast (IPv4Header_payload_length h) :: u64)"
    using BufferList_size_unat [OF pok short] unat_payload_length [OF len l(2)] by simp
  then have "BufferList_size (id_payload dg) = ucast (IPv4Header_payload_length h)" by (simp add: unat_eq_iff)
  then have "IPv4Datagram_serialize dg = Inr (Buffer_of hs # id_payload dg)"
    by (simp add: IPv4Datagram_serialize_def h_def [symmetric] ser ip_fields_cksum unparse_zero16 c_def hs_def)
  moreover have "InternetChecksum_value (InternetChecksum_add (InternetChecksum_new 0) hs) = 0"
    unfolding hs_def ip_fields_cksum append_assoc c_def
    by (rule checksum_fills) (use l in simp_all)
  ultimately show thesis
    using pok hs_len l
    by (intro that [of "Buffer_of hs # id_payload dg" hs c])
      (simp_all add: hs_def [symmetric] BufferList_concatenate_eq)
qed

lemma datagram_roundtrip:
  assumes ok: "datagram_ok dg"
  obtains bl c where "IPv4Datagram_serialize dg = Inr bl" "buffer_list_ok bl"
    "length (BufferList_concatenate bl) = unat (ih_len (id_header dg))"
    "\<And>dg0 b. buffer_ok b \<Longrightarrow> Buffer_str b = BufferList_concatenate bl \<Longrightarrow>
       \<exists>dg'. IPv4Datagram_parse dg0 b = Inr (NoError, dg') \<and> same_datagram dg c dg' \<and>
         (\<exists>p. IPv4Header_parse (id_header dg0) (NetParser_new b) = Inr (NoError, id_header dg', p))"
proof -
  let ?h = "id_header dg" and ?pl = "BufferList_concatenate (id_payload dg)"
  obtain c bl hs where bl: "IPv4Datagram_serialize dg = Inr bl" "buffer_list_ok bl"
    and hs: "BufferList_concatenate bl = hs @ ?pl"
      "hs = ip_fields (?h\<lparr>ih_cksum := c\<rparr>) @ replicate (4 * unat (ih_hlen ?h) - 20) 0"
      "length hs = 4 * unat (ih_hlen ?h)"
      "InternetChecksum_value (InternetChecksum_add (InternetChecksum_new 0) hs) = 0"
    by (rule datagram_serialize_ok [OF ok])
  have hok: "ip_header_ok (?h\<lparr>ih_cksum := c\<rparr>)" "ih_ver ?h = 4" "\<not> ih_hlen ?h < 5" "unat (ih_hlen ?h) < 16"
    and len: "unat (ih_len ?h) = 4 * unat (ih_hlen ?h) + length ?pl"
    using ok by (simp_all add: datagram_ok_def ip_header_ok_def)
  have short: "str_ok ?pl" using len unat16_lt [of "ih_len ?h"] by linarith
  have "\<exists>dg'. IPv4Datagram_parse dg0 b = Inr (NoError, dg') \<and> same_datagram dg c dg' \<and>
      (\<exists>p. IPv4Header_parse (id_header dg0) (NetParser_new b) = Inr (NoError, id_header dg', p))"
    if b: "buffer_ok b" "Buffer_str b = BufferList_concatenate bl" for dg0 b
  proof -
    let ?h' = "?h\<lparr>ih_cksum := c\<rparr>"
    have at: "np_at (NetParser_new b) (ip_fields ?h' @ replicate (4 * unat (ih_hlen ?h) - 20) 0 @ ?pl)"
      using np_at_new [OF b(1)] b(2) hs(1,2) by simp
    have "unat (Buffer_size b) = 4 * unat (ih_hlen ?h') + length ?pl"
      using b(2) hs(1,3) np_at_length [OF np_at_new [OF b(1)]] by (simp add: Buffer_size_def del: size64_append)
    moreover obtain p1 where p1: "np_at p1 (replicate (4 * unat (ih_hlen ?h') - 20) 0 @ ?pl)"
      "IPv4Header_parse (id_header dg0) (NetParser_new b) = ip_check (Buffer_size b) b ?h' p1"
      using ip_parse_fields [OF at hok(1)] by (auto simp: NetParser_new_def)
    ultimately obtain p' where p': "IPv4Header_parse (id_header dg0) (NetParser_new b) = Inr (NoError, ?h', p')" "np_at p' ?pl"
      using ip_check_ok [OF p1(1), of "Buffer_size b" b] hok len hs b(2) by auto
    have "BufferList_size [np_buffer p'] = ucast (IPv4Header_payload_length ?h')"
      using p'(2) short unat_payload_length [of ?h' "length ?pl"] len hok(4)
      by (simp add: unat_eq_iff BufferList_size_eq np_at_def np_str_def)
    then show ?thesis
      using p' by (auto simp: IPv4Datagram_parse_def same_datagram_def np_at_def np_ok_def np_str_def
          BufferList_concatenate_eq Let_def)
  qed
  then show thesis using bl hs(1,3) len by (intro that [of bl c]) simp_all
qed

lemma unat_pseudo_cksum: "unat (IPv4Header_pseudo_cksum h) < 1000000"
proof -
  have half: "unat (drop_bit 16 r + (r AND 0xffff)) \<le> 131070" for r :: u32
  proof -
    have "unat r div 65536 \<le> 65535" using unat32_lt [of r] by linarith
    moreover have "unat r mod 65536 \<le> 65535" by simp
    ultimately show ?thesis unfolding unat_fold_step by linarith
  qed
  define a b c d :: u32 where "a = drop_bit 16 (ih_src h) + (ih_src h AND 0xffff)"
    and "b = drop_bit 16 (ih_dst h) + (ih_dst h AND 0xffff)" and "c = ucast (ih_proto h)"
    and "d = ucast (IPv4Header_payload_length h)"
  have "unat a \<le> 131070" "unat b \<le> 131070" unfolding a_def b_def by (rule half)+
  moreover have "unat c = unat (ih_proto h)" "unat d = unat (IPv4Header_payload_length h)"
    by (simp_all add: c_def d_def unat_ucast)
  ultimately have bound: "unat a + unat b + unat c + unat d < 1000000"
    using unat8_lt [of "ih_proto h"] unat16_lt [of "IPv4Header_payload_length h"] by linarith
  then have "unat (a + b) = unat a + unat b" by (intro unat32_add) linarith
  moreover from this bound have "unat (a + b + c) = unat a + unat b + unat c" by (subst unat32_add) linarith+
  moreover from this bound have "unat (a + b + c + d) = unat a + unat b + unat c + unat d"
    by (subst unat32_add) linarith+
  ultimately show ?thesis
    using bound by (simp add: IPv4Header_pseudo_cksum_def a_def [symmetric] b_def [symmetric] c_def [symmetric] d_def [symmetric])
qed

lemma ip_header_parse_total:
  assumes "np_ok p"
  obtains r h p' where "IPv4Header_parse h0 p = Inr (r, h, p')" "np_ok p'"
proof -
  let ?P = "\<lambda>x. \<exists>r h p'. x = Inr (r, h, p') \<and> np_ok p'"
  have last: "?P (ip_check n orig h p)" if ok: "np_ok p" for n orig h p
  proof -
    obtain p' where "NetParser_remove_prefix (ucast (ih_hlen h) * 4 - IPv4Header_LENGTH) p = Inr p'" "np_ok p'"
      using remove_prefix_total [OF ok] by metis
    with ok show ?thesis by (simp add: ip_check_def)
  qed
  have "?P (IPv4Header_parse h0 p)"
  proof (cases "Buffer_size (np_buffer p) < IPv4Header_LENGTH")
    case True
    then show ?thesis using assms by (simp add: IPv4Header_parse_def)
  next
    case False
    show ?thesis
      unfolding IPv4Header_parse_def Let_def if_not_P [OF False] using assms
      by - ((rule n16.dec_run_total [where P = ?P] n32.dec_run_total [where P = ?P] n8.dec_run_total [where P = ?P],
        assumption, unfold prod.case)+, fold ip_check_def, rule last)
  qed
  with that show thesis by blast
qed

subsection \<open>Properties\<close>

text \<open>
  C33. The round trip of an IPv4 datagram: a datagram that the format can carry is serialized,
  and parsing the bytes accepts them, with the header checksum filled in and verified, and
  gives back every field and the payload.
\<close>

theorem ipv4_datagram_roundtrip:
  assumes "datagram_ok dg"
  shows "\<exists>bl c. IPv4Datagram_serialize dg = Inr bl \<and>
     (\<forall>dg0. \<exists>dg' p. IPv4Datagram_parse dg0 (Buffer_of (BufferList_concatenate bl)) = Inr (NoError, dg') \<and>
        same_datagram dg c dg' \<and>
        IPv4Header_parse (id_header dg0) (NetParser_new (Buffer_of (BufferList_concatenate bl))) =
          Inr (NoError, id_header dg', p))"
proof -
  obtain bl c where bl: "IPv4Datagram_serialize dg = Inr bl"
    "length (BufferList_concatenate bl) = unat (ih_len (id_header dg))"
    "\<And>dg0 b. buffer_ok b \<Longrightarrow> Buffer_str b = BufferList_concatenate bl \<Longrightarrow>
       \<exists>dg'. IPv4Datagram_parse dg0 b = Inr (NoError, dg') \<and> same_datagram dg c dg' \<and>
         (\<exists>p. IPv4Header_parse (id_header dg0) (NetParser_new b) = Inr (NoError, id_header dg', p))"
    using datagram_roundtrip [OF assms] by metis
  have short: "str_ok (BufferList_concatenate bl)" using bl(2) unat16_lt [of "ih_len (id_header dg)"] by linarith
  show ?thesis
    using bl(1) bl(3) [of "Buffer_of (BufferList_concatenate bl)"] short by (metis buffer_ok_of Buffer_str_of)
qed

theorem ipv4_datagram_roundtrip_witness:
  "\<exists>bl c. IPv4Datagram_serialize \<lparr>id_header = IPv4Header_new\<lparr>ih_len := 22\<rparr>, id_payload = [Buffer_of [104, 105]]\<rparr> = Inr bl \<and>
     (\<forall>dg0. \<exists>dg' p. IPv4Datagram_parse dg0 (Buffer_of (BufferList_concatenate bl)) = Inr (NoError, dg') \<and>
        same_datagram \<lparr>id_header = IPv4Header_new\<lparr>ih_len := 22\<rparr>, id_payload = [Buffer_of [104, 105]]\<rparr> c dg' \<and>
        IPv4Header_parse (id_header dg0) (NetParser_new (Buffer_of (BufferList_concatenate bl))) =
          Inr (NoError, id_header dg', p))"
  by (rule ipv4_datagram_roundtrip)
    (simp add: datagram_ok_def ip_header_ok_def IPv4Header_new_def BufferList_concatenate_eq)



text \<open>
  A finding: \<^verbatim>\<open>IPv4Datagram::parse\<close> drops the result of \<^verbatim>\<open>IPv4Header::parse\<close>. A datagram without
  options whose length field is right is accepted with \<^verbatim>\<open>NoError\<close> whatever its version number and
  whatever its header checksum.
\<close>

theorem ipv4_header_result_dropped:
  assumes "ip_header_ok h" and "ih_hlen h = 5" and "unat (ih_len h) = 20 + length rest"
  shows "\<exists>dg'. IPv4Datagram_parse dg (Buffer_of (ip_fields h @ rest)) = Inr (NoError, dg') \<and>
     id_header dg' = h \<and> BufferList_concatenate (id_payload dg') = rest"
proof -
  let ?b = "Buffer_of (ip_fields h @ rest)"
  have short: "str_ok (ip_fields h @ rest)" using assms(3) unat16_lt [of "ih_len h"] by simp
  then have at: "np_at (NetParser_new ?b) (ip_fields h @ rest)" using np_at_new [of ?b] by simp
  obtain p where p: "np_at p rest" "IPv4Header_parse (id_header dg) (NetParser_new ?b) =
      ip_check (Buffer_size ?b) ?b h p"
    using ip_parse_fields [OF at assms(1)] by (auto simp: NetParser_new_def)
  have zero: "unat (ucast (ih_hlen h) * 4 - IPv4Header_LENGTH) = 0" using hlen_skip [of 5] assms(2) by simp
  obtain p1 where p1: "NetParser_remove_prefix (ucast (ih_hlen h) * 4 - IPv4Header_LENGTH) p = Inr p1" "np_at p1 rest"
    using remove_prefix_at [OF p(1), of "ucast (ih_hlen h) * 4 - IPv4Header_LENGTH"] zero by auto
  have "\<exists>r p'. ip_check (Buffer_size ?b) ?b h p = Inr (r, h, p') \<and> np_at p' rest"
    using p(1) p1 by (simp add: ip_check_def)
  then obtain r p' where p': "IPv4Header_parse (id_header dg) (NetParser_new ?b) = Inr (r, h, p')" "np_at p' rest"
    using p(2) by auto
  have "unat (IPv4Header_payload_length h) = length rest"
    by (rule unat_payload_length) (use assms in simp_all)
  then have "BufferList_size [np_buffer p'] = ucast (IPv4Header_payload_length h)"
    using p'(2) short by (simp add: unat_eq_iff BufferList_size_eq np_at_def np_str_def)
  with p' show ?thesis
    by (simp add: IPv4Datagram_parse_def BufferList_concatenate_eq np_at_def np_str_def)
qed

theorem ipv4_header_result_dropped_witness:
  "\<exists>dg'. IPv4Datagram_parse IPv4Datagram_new
       (Buffer_of (ip_fields (IPv4Header_new\<lparr>ih_ver := 6, ih_len := 21, ih_cksum := 0xdead\<rparr>) @ [1])) = Inr (NoError, dg') \<and>
     id_header dg' = IPv4Header_new\<lparr>ih_ver := 6, ih_len := 21, ih_cksum := 0xdead\<rparr> \<and>
     BufferList_concatenate (id_payload dg') = [1]"
  by (rule ipv4_header_result_dropped) (simp_all add: ip_header_ok_def IPv4Header_new_def)

end
