(* ===== verification/Ethernet_ARP.thy ===== *)
theory Ethernet_ARP
  imports IPv4
begin

text \<open>
  \<^verbatim>\<open>libsponge/tcp_helpers/ethernet_header.hh\<close>, \<^verbatim>\<open>ethernet_header.cc\<close>, \<^verbatim>\<open>ethernet_frame.hh\<close>,
  \<^verbatim>\<open>ethernet_frame.cc\<close>, \<^verbatim>\<open>arp_message.hh\<close> and \<^verbatim>\<open>arp_message.cc\<close>: the link layer's frames and the address
  resolution messages.
\<close>

subsection \<open>Ethernet\<close>

text \<open>An array of six bytes; \<open>addr_ok\<close> is its length.\<close>

type_synonym ethernet_address = bytes

definition addr_ok :: "ethernet_address \<Rightarrow> bool" where
  "addr_ok a \<longleftrightarrow> length a = 6"

definition ETHERNET_BROADCAST :: ethernet_address where
  "ETHERNET_BROADCAST = [0xff, 0xff, 0xff, 0xff, 0xff, 0xff]"

definition EthernetHeader_LENGTH :: u64 where
  "EthernetHeader_LENGTH = 14"

definition TYPE_IPv4 :: u16 where
  "TYPE_IPv4 = 0x800"

definition TYPE_ARP :: u16 where
  "TYPE_ARP = 0x806"

record ethernet_header =
  eh_dst :: ethernet_address
  eh_src :: ethernet_address
  eh_type :: u16

definition EthernetHeader_new :: ethernet_header where
  "EthernetHeader_new = \<lparr>eh_dst = replicate 6 0, eh_src = replicate 6 0, eh_type = 0\<rparr>"

fun parse_bytes :: "nat \<Rightarrow> netparser \<Rightarrow> (bytes \<times> netparser) res" where
  "parse_bytes 0 p = Inr ([], p)"
| "parse_bytes (Suc n) p =
     rbind (NetParser_u8 p) (\<lambda>(b, p). rbind (parse_bytes n p) (\<lambda>(bs, p). Inr (b # bs, p)))"

definition unparse_bytes :: "bytes \<Rightarrow> bytes \<Rightarrow> bytes" where
  "unparse_bytes ret bs = fold (\<lambda>b ret. NetUnparser_u8 ret b) bs ret"

definition EthernetHeader_parse ::
  "ethernet_header \<Rightarrow> netparser \<Rightarrow> (ParseResult \<times> ethernet_header \<times> netparser) res" where
  "EthernetHeader_parse h p =
     (if Buffer_size (np_buffer p) < EthernetHeader_LENGTH then Inr (PacketTooShort, h, p)
      else
        rbind (parse_bytes 6 p) (\<lambda>(dst, p).
        rbind (parse_bytes 6 p) (\<lambda>(src, p).
        rbind (NetParser_u16 p) (\<lambda>(type, p).
        Inr (np_error p, \<lparr>eh_dst = dst, eh_src = src, eh_type = type\<rparr>, p)))))"

definition EthernetHeader_serialize :: "ethernet_header \<Rightarrow> bytes" where
  "EthernetHeader_serialize h =
     (let ret = [];
          ret = unparse_bytes ret (eh_dst h);
          ret = unparse_bytes ret (eh_src h)
      in NetUnparser_u16 ret (eh_type h))"

record ethernet_frame =
  ef_header :: ethernet_header
  ef_payload :: buffer_list

definition EthernetFrame_new :: ethernet_frame where
  "EthernetFrame_new = \<lparr>ef_header = EthernetHeader_new, ef_payload = []\<rparr>"

definition EthernetFrame_parse :: "ethernet_frame \<Rightarrow> buffer \<Rightarrow> (ParseResult \<times> ethernet_frame) res" where
  "EthernetFrame_parse f buf =
     rbind (EthernetHeader_parse (ef_header f) (NetParser_new buf)) (\<lambda>(_, h, p).
     Inr (np_error p, \<lparr>ef_header = h, ef_payload = [np_buffer p]\<rparr>))"

definition EthernetFrame_serialize :: "ethernet_frame \<Rightarrow> buffer_list" where
  "EthernetFrame_serialize f =
     BufferList_append (BufferList_append [] [Buffer_of (EthernetHeader_serialize (ef_header f))]) (ef_payload f)"

subsection \<open>ARP\<close>

definition ARPMessage_LENGTH :: u64 where
  "ARPMessage_LENGTH = 28"

definition TYPE_ETHERNET :: u16 where
  "TYPE_ETHERNET = 1"

definition OPCODE_REQUEST :: u16 where
  "OPCODE_REQUEST = 1"

definition OPCODE_REPLY :: u16 where
  "OPCODE_REPLY = 2"

record arp_message =
  am_hardware_type :: u16
  am_protocol_type :: u16
  am_hardware_address_size :: u8
  am_protocol_address_size :: u8
  am_opcode :: u16
  am_sender_ethernet_address :: ethernet_address
  am_sender_ip_address :: u32
  am_target_ethernet_address :: ethernet_address
  am_target_ip_address :: u32

definition ARPMessage_new :: arp_message where
  "ARPMessage_new = \<lparr>am_hardware_type = TYPE_ETHERNET, am_protocol_type = TYPE_IPv4,
     am_hardware_address_size = 6, am_protocol_address_size = 4, am_opcode = 0,
     am_sender_ethernet_address = replicate 6 0, am_sender_ip_address = 0,
     am_target_ethernet_address = replicate 6 0, am_target_ip_address = 0\<rparr>"

definition ARPMessage_supported :: "arp_message \<Rightarrow> bool" where
  "ARPMessage_supported m \<longleftrightarrow>
     am_hardware_type m = TYPE_ETHERNET \<and> am_protocol_type m = TYPE_IPv4 \<and>
     am_hardware_address_size m = 6 \<and> am_protocol_address_size m = 4 \<and>
     (am_opcode m = OPCODE_REQUEST \<or> am_opcode m = OPCODE_REPLY)"

definition ARPMessage_parse :: "arp_message \<Rightarrow> buffer \<Rightarrow> (ParseResult \<times> arp_message) res" where
  "ARPMessage_parse m buf =
     (let p = NetParser_new buf in
      if Buffer_size (np_buffer p) < ARPMessage_LENGTH then Inr (PacketTooShort, m)
      else
        rbind (NetParser_u16 p) (\<lambda>(hardware_type, p).
        rbind (NetParser_u16 p) (\<lambda>(protocol_type, p).
        rbind (NetParser_u8 p) (\<lambda>(hardware_address_size, p).
        rbind (NetParser_u8 p) (\<lambda>(protocol_address_size, p).
        rbind (NetParser_u16 p) (\<lambda>(opcode, p).
        let m = m\<lparr>am_hardware_type := hardware_type, am_protocol_type := protocol_type,
                   am_hardware_address_size := hardware_address_size,
                   am_protocol_address_size := protocol_address_size, am_opcode := opcode\<rparr>
        in
        if \<not> ARPMessage_supported m then Inr (Unsupported, m)
        else
          rbind (parse_bytes 6 p) (\<lambda>(sender_ethernet_address, p).
          rbind (NetParser_u32 p) (\<lambda>(sender_ip_address, p).
          rbind (parse_bytes 6 p) (\<lambda>(target_ethernet_address, p).
          rbind (NetParser_u32 p) (\<lambda>(target_ip_address, p).
          Inr (np_error p, m\<lparr>am_sender_ethernet_address := sender_ethernet_address,
                 am_sender_ip_address := sender_ip_address,
                 am_target_ethernet_address := target_ethernet_address,
                 am_target_ip_address := target_ip_address\<rparr>)))))))))))"

definition ARPMessage_serialize :: "arp_message \<Rightarrow> bytes res" where
  "ARPMessage_serialize m =
     (if \<not> ARPMessage_supported m
      then Inl (Runtime_error ''ARPMessage::serialize(): unsupported field combination (must be Ethernet/IP, and request or reply)'')
      else
        let ret = [];
            ret = NetUnparser_u16 ret (am_hardware_type m);
            ret = NetUnparser_u16 ret (am_protocol_type m);
            ret = NetUnparser_u8 ret (am_hardware_address_size m);
            ret = NetUnparser_u8 ret (am_protocol_address_size m);
            ret = NetUnparser_u16 ret (am_opcode m);
            ret = unparse_bytes ret (am_sender_ethernet_address m);
            ret = NetUnparser_u32 ret (am_sender_ip_address m);
            ret = unparse_bytes ret (am_target_ethernet_address m);
            ret = NetUnparser_u32 ret (am_target_ip_address m)
        in Inr ret)"

subsection \<open>Round trips\<close>

lemma unparse_u8: "NetUnparser_unparse_int (b :: u8) = [b]"
  by (simp add: unparse_int_eq be_bytes_def)

lemma unparse_bytes_eq: "unparse_bytes ret bs = ret @ bs"
  by (induction bs arbitrary: ret) (simp_all add: unparse_bytes_def NetUnparser_u8_def unparse_u8)

lemma parse_bytes_at:
  "np_at p (a @ s) \<Longrightarrow> \<exists>p'. parse_bytes (length a) p = Inr (a, p') \<and> np_at p' s"
proof (induction a arbitrary: p)
  case (Cons b a)
  then have "np_at p (NetUnparser_unparse_int b @ a @ s)" by (simp add: unparse_u8)
  from n8.dec_enc [OF this] obtain p1 where "NetParser_u8 p = Inr (b, p1)" "np_at p1 (a @ s)" by blast
  with Cons.IH [of p1] show ?case by auto
qed simp

lemma addr_run:
  assumes "np_at p (a @ s)" and "addr_ok a" and "\<And>p'. np_at p' s \<Longrightarrow> P (f (a, p'))"
  shows "P (rbind (parse_bytes 6 p) f)"
  using parse_bytes_at [OF assms(1)] assms(2,3) by (auto simp: addr_ok_def)

lemma parse_bytes_total:
  "np_ok p \<Longrightarrow> \<exists>a p'. parse_bytes n p = Inr (a, p') \<and> np_ok p' \<and> length a = n"
proof (induction n arbitrary: p)
  case (Suc n)
  from n8.dec_total [OF Suc.prems] obtain b p1 where "NetParser_u8 p = Inr (b, p1)" "np_ok p1" by blast
  with Suc.IH [of p1] show ?case by auto
qed simp

lemma addr_run_total:
  assumes "np_ok p" and "\<And>a p'. np_ok p' \<Longrightarrow> addr_ok a \<Longrightarrow> P (f (a, p'))"
  shows "P (rbind (parse_bytes 6 p) f)"
  using parse_bytes_total [OF assms(1), of 6] assms(2) by (auto simp: addr_ok_def)

definition eth_header_ok :: "ethernet_header \<Rightarrow> bool" where
  "eth_header_ok h \<longleftrightarrow> addr_ok (eh_dst h) \<and> addr_ok (eh_src h)"

lemma eth_serialize_eq:
  "EthernetHeader_serialize h = eh_dst h @ eh_src h @ NetUnparser_unparse_int (eh_type h)"
  by (simp add: EthernetHeader_serialize_def unparse_bytes_eq NetUnparser_u16_def)

lemma eth_header_roundtrip:
  assumes at: "np_at p (EthernetHeader_serialize h @ s)" and ok: "eth_header_ok h"
  obtains p' where "EthernetHeader_parse h0 p = Inr (NoError, h, p')" "np_at p' s"
proof -
  have len: "length (EthernetHeader_serialize h) = 14"
    using ok by (simp add: eth_serialize_eq eth_header_ok_def addr_ok_def)
  have "\<not> Buffer_size (np_buffer p) < EthernetHeader_LENGTH"
    using at np_at_length [OF at] len
    by (simp add: np_at_def np_str_def Buffer_size_def EthernetHeader_LENGTH_def word_less_nat_alt del: size64_append)
  note size = if_not_P [OF this]
  let ?P = "\<lambda>x. \<exists>p'. x = Inr (NoError, h, p') \<and> np_at p' s"
  have a: "addr_ok (eh_dst h)" "addr_ok (eh_src h)" using ok by (simp_all add: eth_header_ok_def)
  have "?P (EthernetHeader_parse h0 p)"
    unfolding EthernetHeader_parse_def size using at unfolding eth_serialize_eq append_assoc
    by - (rule addr_run [where P = ?P], assumption, rule a(1), unfold prod.case,
        rule addr_run [where P = ?P], assumption, rule a(2), unfold prod.case,
        rule n16.dec_run [where P = ?P], assumption, simp add: np_at_def)
  with that show thesis by blast
qed

definition frame_ok :: "ethernet_frame \<Rightarrow> bool" where
  "frame_ok f \<longleftrightarrow> eth_header_ok (ef_header f) \<and> buffer_list_ok (ef_payload f) \<and>
     length (BufferList_concatenate (ef_payload f)) < 18446744073709551600"

definition same_frame :: "ethernet_frame \<Rightarrow> ethernet_frame \<Rightarrow> bool" where
  "same_frame f f' \<longleftrightarrow> ef_header f' = ef_header f \<and> buffer_list_ok (ef_payload f') \<and>
     BufferList_concatenate (ef_payload f') = BufferList_concatenate (ef_payload f)"

lemma frame_serialize_concat:
  assumes "frame_ok f"
  shows "BufferList_concatenate (EthernetFrame_serialize f) =
      EthernetHeader_serialize (ef_header f) @ BufferList_concatenate (ef_payload f)"
    "buffer_list_ok (EthernetFrame_serialize f)" "str_ok (BufferList_concatenate (EthernetFrame_serialize f))"
proof -
  have len: "length (EthernetHeader_serialize (ef_header f)) = 14"
    using assms by (simp add: eth_serialize_eq frame_ok_def eth_header_ok_def addr_ok_def)
  then show eq: "BufferList_concatenate (EthernetFrame_serialize f) =
      EthernetHeader_serialize (ef_header f) @ BufferList_concatenate (ef_payload f)"
    by (simp add: EthernetFrame_serialize_def BufferList_concatenate_eq)
  show "buffer_list_ok (EthernetFrame_serialize f)"
    using assms len by (simp add: EthernetFrame_serialize_def frame_ok_def)
  show "str_ok (BufferList_concatenate (EthernetFrame_serialize f))"
    unfolding eq using assms len by (simp add: frame_ok_def)
qed

lemma frame_roundtrip:
  assumes ok: "frame_ok f" and b: "buffer_ok b" "Buffer_str b = BufferList_concatenate (EthernetFrame_serialize f)"
  obtains f' where "EthernetFrame_parse f0 b = Inr (NoError, f')" "same_frame f f'"
proof -
  have "np_at (NetParser_new b) (EthernetHeader_serialize (ef_header f) @ BufferList_concatenate (ef_payload f))"
    using np_at_new [OF b(1)] b(2) frame_serialize_concat(1) [OF ok] by simp
  moreover have "eth_header_ok (ef_header f)" using ok by (simp add: frame_ok_def)
  ultimately obtain p where p: "EthernetHeader_parse (ef_header f0) (NetParser_new b) = Inr (NoError, ef_header f, p)"
    "np_at p (BufferList_concatenate (ef_payload f))" by (rule eth_header_roundtrip)
  show thesis
  proof (rule that [of "\<lparr>ef_header = ef_header f, ef_payload = [np_buffer p]\<rparr>"])
    show "EthernetFrame_parse f0 b = Inr (NoError, \<lparr>ef_header = ef_header f, ef_payload = [np_buffer p]\<rparr>)"
      using p by (simp add: EthernetFrame_parse_def np_at_def)
    show "same_frame f \<lparr>ef_header = ef_header f, ef_payload = [np_buffer p]\<rparr>"
      using p(2) by (simp add: same_frame_def np_at_def np_ok_def np_str_def BufferList_concatenate_eq)
  qed
qed

definition arp_ok :: "arp_message \<Rightarrow> bool" where
  "arp_ok m \<longleftrightarrow> ARPMessage_supported m \<and> addr_ok (am_sender_ethernet_address m) \<and> addr_ok (am_target_ethernet_address m)"

lemma arp_serialize_eq:
  "ARPMessage_supported m \<Longrightarrow> ARPMessage_serialize m =
     Inr (NetUnparser_unparse_int (am_hardware_type m) @ NetUnparser_unparse_int (am_protocol_type m) @
       NetUnparser_unparse_int (am_hardware_address_size m) @ NetUnparser_unparse_int (am_protocol_address_size m) @
       NetUnparser_unparse_int (am_opcode m) @ am_sender_ethernet_address m @
       NetUnparser_unparse_int (am_sender_ip_address m) @ am_target_ethernet_address m @
       NetUnparser_unparse_int (am_target_ip_address m))"
  by (simp add: ARPMessage_serialize_def unparse_append unparse_bytes_eq)

lemma arp_roundtrip:
  assumes ok: "arp_ok m"
  obtains s where "ARPMessage_serialize m = Inr s" "length s = 28"
    "\<And>m0 b. buffer_ok b \<Longrightarrow> Buffer_str b = s \<Longrightarrow> ARPMessage_parse m0 b = Inr (NoError, m)"
proof -
  have sup: "ARPMessage_supported m" and a: "addr_ok (am_sender_ethernet_address m)" "addr_ok (am_target_ethernet_address m)"
    using ok by (simp_all add: arp_ok_def)
  obtain s where s: "ARPMessage_serialize m = Inr s" and
    s_eq: "s = NetUnparser_unparse_int (am_hardware_type m) @ NetUnparser_unparse_int (am_protocol_type m) @
       NetUnparser_unparse_int (am_hardware_address_size m) @ NetUnparser_unparse_int (am_protocol_address_size m) @
       NetUnparser_unparse_int (am_opcode m) @ am_sender_ethernet_address m @
       NetUnparser_unparse_int (am_sender_ip_address m) @ am_target_ethernet_address m @
       NetUnparser_unparse_int (am_target_ip_address m)"
    using arp_serialize_eq [OF sup] by blast
  have len: "length s = 28" unfolding s_eq using a by (simp add: addr_ok_def)
  have "ARPMessage_parse m0 b = Inr (NoError, m)" if b: "buffer_ok b" "Buffer_str b = s" for m0 b
  proof -
    have at: "np_at (NetParser_new b) (s @ [])" using np_at_new [OF b(1)] b(2) by simp
    have "\<not> Buffer_size (np_buffer (NetParser_new b)) < ARPMessage_LENGTH"
      using b(2) len by (simp add: NetParser_new_def Buffer_size_def ARPMessage_LENGTH_def word_less_nat_alt)
    note size = if_not_P [OF this]
    let ?P = "\<lambda>x. x = Inr (NoError, m)"
    have sup': "ARPMessage_supported (m0\<lparr>am_hardware_type := am_hardware_type m, am_protocol_type := am_protocol_type m,
        am_hardware_address_size := am_hardware_address_size m,
        am_protocol_address_size := am_protocol_address_size m, am_opcode := am_opcode m\<rparr>)"
      using sup by (simp add: ARPMessage_supported_def)
    show ?thesis
      unfolding ARPMessage_parse_def Let_def size using at unfolding s_eq append_assoc
      by - ((rule n16.dec_run [where P = ?P] n8.dec_run [where P = ?P], assumption, unfold prod.case)+,
        simp only: sup' not_True_eq_False if_False,
        rule addr_run [where P = ?P], assumption, rule a(1), unfold prod.case,
        rule n32.dec_run [where P = ?P], assumption, unfold prod.case,
        rule addr_run [where P = ?P], assumption, rule a(2), unfold prod.case,
        rule n32.dec_run [where P = ?P], assumption, simp add: np_at_def)
  qed
  with s len that show thesis by blast
qed

lemma eth_header_parse_total:
  assumes "np_ok p" and "eth_header_ok h0"
  obtains r h p' where "EthernetHeader_parse h0 p = Inr (r, h, p')" "np_ok p'" "eth_header_ok h"
proof (cases "Buffer_size (np_buffer p) < EthernetHeader_LENGTH")
  case True
  then show thesis using assms by (intro that [of PacketTooShort h0 p]) (simp_all add: EthernetHeader_parse_def)
next
  case False
  let ?P = "\<lambda>x. \<exists>r h p'. x = Inr (r, h, p') \<and> np_ok p' \<and> eth_header_ok h"
  have "?P (EthernetHeader_parse h0 p)"
    unfolding EthernetHeader_parse_def if_not_P [OF False] using assms(1)
    by - (rule addr_run_total [where P = ?P], assumption, unfold prod.case,
        rule addr_run_total [where P = ?P], assumption, unfold prod.case,
        rule n16.dec_run_total [where P = ?P], assumption, simp add: eth_header_ok_def)
  with that show thesis by blast
qed

lemma frame_parse_total:
  assumes "buffer_ok b" and "eth_header_ok (ef_header f0)"
  obtains r f where "EthernetFrame_parse f0 b = Inr (r, f)" "eth_header_ok (ef_header f)" "buffer_list_ok (ef_payload f)"
    "length (ef_payload f) = 1"
proof -
  have "np_ok (NetParser_new b)" using assms(1) by (simp add: np_ok_def NetParser_new_def)
  then obtain r h p where "EthernetHeader_parse (ef_header f0) (NetParser_new b) = Inr (r, h, p)" "np_ok p" "eth_header_ok h"
    by (rule eth_header_parse_total [OF _ assms(2)])
  then show thesis
    by (intro that [of "np_error p" "\<lparr>ef_header = h, ef_payload = [np_buffer p]\<rparr>"])
      (simp_all add: EthernetFrame_parse_def np_ok_def)
qed

subsection \<open>Properties\<close>

text \<open>
  C34. The round trips of the link layer: parsing a serialized Ethernet frame gives back its
  addresses, type and payload, and parsing a serialized ARP message gives back the message,
  whatever the objects written into held before.
\<close>

theorem link_layer_roundtrip:
  assumes "frame_ok f" and "arp_ok m"
  shows "(\<exists>f'. EthernetFrame_parse f0 (Buffer_of (BufferList_concatenate (EthernetFrame_serialize f))) = Inr (NoError, f') \<and>
       same_frame f f') \<and>
     (\<exists>s. ARPMessage_serialize m = Inr s \<and> ARPMessage_parse m0 (Buffer_of s) = Inr (NoError, m))"
proof
  show "\<exists>f'. EthernetFrame_parse f0 (Buffer_of (BufferList_concatenate (EthernetFrame_serialize f))) = Inr (NoError, f') \<and>
       same_frame f f'"
    using frame_roundtrip [OF assms(1), of "Buffer_of (BufferList_concatenate (EthernetFrame_serialize f))" f0]
      frame_serialize_concat(3) [OF assms(1)] by auto
  obtain s where s: "ARPMessage_serialize m = Inr s" "length s = 28"
    "\<And>m0 b. buffer_ok b \<Longrightarrow> Buffer_str b = s \<Longrightarrow> ARPMessage_parse m0 b = Inr (NoError, m)"
    using arp_roundtrip [OF assms(2)] by metis
  with s(3) [of "Buffer_of s" m0] show "\<exists>s. ARPMessage_serialize m = Inr s \<and> ARPMessage_parse m0 (Buffer_of s) = Inr (NoError, m)"
    by simp
qed

theorem link_layer_roundtrip_witness:
  "(\<exists>f'. EthernetFrame_parse EthernetFrame_new (Buffer_of (BufferList_concatenate (EthernetFrame_serialize
        (EthernetFrame_new\<lparr>ef_payload := [Buffer_of [1, 2]]\<rparr>)))) = Inr (NoError, f') \<and>
       same_frame (EthernetFrame_new\<lparr>ef_payload := [Buffer_of [1, 2]]\<rparr>) f') \<and>
     (\<exists>s. ARPMessage_serialize (ARPMessage_new\<lparr>am_opcode := OPCODE_REPLY\<rparr>) = Inr s \<and>
        ARPMessage_parse ARPMessage_new (Buffer_of s) = Inr (NoError, ARPMessage_new\<lparr>am_opcode := OPCODE_REPLY\<rparr>))"
  by (rule link_layer_roundtrip)
    (simp_all add: frame_ok_def eth_header_ok_def addr_ok_def EthernetFrame_new_def EthernetHeader_new_def
      BufferList_concatenate_eq arp_ok_def ARPMessage_supported_def ARPMessage_new_def)

text \<open>
  A finding: a frame shorter than the Ethernet header is accepted. \<^verbatim>\<open>EthernetHeader::parse\<close>
  returns \<^verbatim>\<open>PacketTooShort\<close> without recording it in the parser, and \<^verbatim>\<open>EthernetFrame::parse\<close> returns
  only what the parser recorded: \<^verbatim>\<open>NoError\<close>, with the header left as it was and the fragment as
  payload.
\<close>

theorem short_frame_accepted:
  assumes "length s < 14"
  shows "EthernetFrame_parse f (Buffer_of s) = Inr (NoError, \<lparr>ef_header = ef_header f, ef_payload = [Buffer_of s]\<rparr>)"
proof -
  have "Buffer_size (Buffer_of s) < EthernetHeader_LENGTH"
    using assms by (simp add: Buffer_size_def EthernetHeader_LENGTH_def word_less_nat_alt)
  then show ?thesis
    by (simp add: EthernetFrame_parse_def EthernetHeader_parse_def NetParser_new_def)
qed

theorem short_frame_accepted_witness:
  "EthernetFrame_parse EthernetFrame_new (Buffer_of [1, 2, 3]) =
     Inr (NoError, \<lparr>ef_header = ef_header EthernetFrame_new, ef_payload = [Buffer_of [1, 2, 3]]\<rparr>)"
  by (rule short_frame_accepted) simp

end
