(* ===== verification/Address.thy ===== *)
theory Address
  imports Net_Parser
begin

text \<open>
  \<^verbatim>\<open>libsponge/util/address.hh\<close> and \<^verbatim>\<open>address.cc\<close>: a socket address is the bytes of the operating
  system's structure with their number. The resolver of the C library (\<^verbatim>\<open>getaddrinfo\<close>,
  \<^verbatim>\<open>getnameinfo\<close> and \<^verbatim>\<open>inet_ntoa\<close>) is a record of functions that the operations take as an argument;
  \<open>resolves\<close> is what its manual pages promise of one numeric address. Structures have the layout
  of Linux on a little-endian machine.
\<close>

subsection \<open>Decimal numbers\<close>

text \<open>\<^verbatim>\<open>std::to_string\<close> of an unsigned number and \<^verbatim>\<open>std::stoi\<close>.\<close>

fun dec_string :: "nat \<Rightarrow> string" where
  "dec_string n = (if n < 10 then [char_of (48 + n)] else dec_string (n div 10) @ [char_of (48 + n mod 10)])"

declare dec_string.simps [simp del]

definition is_digit :: "char \<Rightarrow> bool" where
  "is_digit c \<longleftrightarrow> 48 \<le> (of_char c :: nat) \<and> (of_char c :: nat) \<le> 57"

definition dec_value :: "string \<Rightarrow> nat" where
  "dec_value s = fold (\<lambda>c n. 10 * n + (of_char c - 48)) s 0"

definition is_space :: "char \<Rightarrow> bool" where
  "is_space c \<longleftrightarrow> (of_char c :: nat) = 32 \<or> 9 \<le> (of_char c :: nat) \<and> (of_char c :: nat) \<le> 13"

definition stoi :: "string \<Rightarrow> int res" where
  "stoi s =
     (let s = dropWhile is_space s;
          neg = (s \<noteq> [] \<and> hd s = CHR ''-'');
          s = (if s \<noteq> [] \<and> (hd s = CHR ''-'' \<or> hd s = CHR ''+'') then tl s else s);
          digits = takeWhile is_digit s;
          v = (if neg then - int (dec_value digits) else int (dec_value digits))
      in if digits = [] then Inl (Invalid_argument ''stoi'')
         else if v < - 2147483648 \<or> 2147483647 < v then Inl (Out_of_range ''stoi'')
         else Inr v)"

lemma dec_string_digits: "c \<in> set (dec_string n) \<Longrightarrow> is_digit c"
proof (induction n rule: dec_string.induct)
  case (1 n)
  have d: "is_digit (char_of (48 + d))" if "d < 10" for d :: nat
    using that by (simp add: is_digit_def)
  show ?case
    using 1 d [of n] d [of "n mod 10"] by (cases "n < 10") (simp_all add: dec_string.simps [of n], blast)
qed

lemma dec_string_not_Nil [simp]: "dec_string n \<noteq> []"
  by (simp add: dec_string.simps [of n])

lemma dec_value_string [simp]: "dec_value (dec_string n) = n"
proof (induction n rule: dec_string.induct)
  case (1 n)
  show ?case
  proof (cases "n < 10")
    case True
    then show ?thesis by (simp add: dec_string.simps [of n] dec_value_def)
  next
    case False
    moreover have "n mod 10 < 10" by simp
    ultimately show ?thesis using 1 by (simp add: dec_string.simps [of n] dec_value_def)
  qed
qed

lemma stoi_dec_string:
  assumes "n < 2147483648"
  shows "stoi (dec_string n) = Inr (int n)"
proof -
  have d: "\<And>c. c \<in> set (dec_string n) \<Longrightarrow> is_digit c" by (rule dec_string_digits)
  have h: "is_digit (hd (dec_string n))" using d by simp
  then have "dropWhile is_space (dec_string n) = dec_string n"
    by (cases "dec_string n") (auto simp: is_space_def is_digit_def)
  moreover have "hd (dec_string n) \<noteq> CHR ''-''" "hd (dec_string n) \<noteq> CHR ''+''"
    using h by (auto simp: is_digit_def)
  moreover have "takeWhile is_digit (dec_string n) = dec_string n" using d by (simp add: takeWhile_eq_all_conv)
  ultimately show ?thesis using assms by (simp add: stoi_def Let_def del: takeWhile_eq_all_conv)
qed

subsection \<open>Socket addresses\<close>

definition AF_INET :: u16 where
  "AF_INET = 2"

text \<open>\<^verbatim>\<open>sockaddr_in\<close> in memory: the family in host order, port and address in network order, padding.\<close>

definition sockaddr_in :: "u16 \<Rightarrow> u16 \<Rightarrow> u32 \<Rightarrow> bytes" where
  "sockaddr_in family port ip = rev (be_bytes 2 family) @ be_bytes 2 port @ be_bytes 4 ip @ replicate 8 0"

record address =
  ad_size :: u32
  ad_storage :: bytes

record addrinfo_hints =
  ai_flags :: u32
  ai_family :: u16

record resolver =
  rs_getaddrinfo :: "string \<Rightarrow> string \<Rightarrow> addrinfo_hints \<Rightarrow> int \<times> bytes option"
  rs_getnameinfo :: "bytes \<Rightarrow> int \<times> string \<times> string"
  rs_inet_ntoa :: "bytes \<Rightarrow> string"

definition AI_NUMERICHOST :: u32 where
  "AI_NUMERICHOST = 4"

definition AI_ALL :: u32 where
  "AI_ALL = 0x10"

definition AI_NUMERICSERV :: u32 where
  "AI_NUMERICSERV = 0x400"

definition Address_of_sockaddr :: "bytes \<Rightarrow> u64 \<Rightarrow> address res" where
  "Address_of_sockaddr addr n =
     (if 128 < n then Inl (Runtime_error ''invalid sockaddr size'')
      else if length addr < unat n then Inl (Undefined_behaviour ''Address: memcpy'')
      else Inr \<lparr>ad_size = ucast n, ad_storage = take (unat n) addr @ replicate (128 - unat n) 0\<rparr>)"

definition Address_lookup :: "resolver \<Rightarrow> string \<Rightarrow> string \<Rightarrow> addrinfo_hints \<Rightarrow> address res" where
  "Address_lookup rs node service hints =
     (let (gai_ret, resolved_address) = rs_getaddrinfo rs node service hints in
      if gai_ret \<noteq> 0 then Inl (System_error (''getaddrinfo('' @ node @ '', '' @ service @ '')'') gai_ret)
      else case resolved_address of
        None \<Rightarrow> Inl (Runtime_error ''getaddrinfo returned successfully but with no results'')
      | Some ai_addr \<Rightarrow> Address_of_sockaddr ai_addr (size64 ai_addr))"

definition make_hints :: "u32 \<Rightarrow> u16 \<Rightarrow> addrinfo_hints" where
  "make_hints flags family = \<lparr>ai_flags = flags, ai_family = family\<rparr>"

definition Address_of_host :: "resolver \<Rightarrow> string \<Rightarrow> string \<Rightarrow> address res" where
  "Address_of_host rs hostname service = Address_lookup rs hostname service (make_hints AI_ALL AF_INET)"

definition Address_of_ip :: "resolver \<Rightarrow> string \<Rightarrow> u16 \<Rightarrow> address res" where
  "Address_of_ip rs ip port =
     Address_lookup rs ip (dec_string (unat port)) (make_hints (AI_NUMERICHOST OR AI_NUMERICSERV) AF_INET)"

definition Address_ip_port :: "resolver \<Rightarrow> address \<Rightarrow> (string \<times> u16) res" where
  "Address_ip_port rs a =
     (let (gni_ret, ip, port) = rs_getnameinfo rs (take (unat (ad_size a)) (ad_storage a)) in
      if gni_ret \<noteq> 0 then Inl (System_error ''getnameinfo'' gni_ret)
      else rbind (stoi port) (\<lambda>port. Inr (ip, word_of_int port)))"

definition Address_ip :: "resolver \<Rightarrow> address \<Rightarrow> string res" where
  "Address_ip rs a = rbind (Address_ip_port rs a) (\<lambda>r. Inr (fst r))"

definition Address_port :: "resolver \<Rightarrow> address \<Rightarrow> u16 res" where
  "Address_port rs a = rbind (Address_ip_port rs a) (\<lambda>r. Inr (snd r))"

definition Address_to_string :: "resolver \<Rightarrow> address \<Rightarrow> string res" where
  "Address_to_string rs a =
     rbind (Address_ip_port rs a) (\<lambda>ip_and_port. Inr (fst ip_and_port @ '':'' @ dec_string (unat (snd ip_and_port))))"

definition Address_ipv4_numeric :: "address \<Rightarrow> u32 res" where
  "Address_ipv4_numeric a =
     (if be_word (rev (take 2 (ad_storage a))) 0 \<noteq> AF_INET \<or> ad_size a \<noteq> 16
      then Inl (Runtime_error ''ipv4_numeric called on non-IPV4 address'')
      else Inr (be_word (take 4 (drop 4 (ad_storage a))) 0))"

definition Address_from_ipv4_numeric :: "u32 \<Rightarrow> address res" where
  "Address_from_ipv4_numeric ip_address = Address_of_sockaddr (sockaddr_in AF_INET 0 ip_address) 16"

definition Address_eq :: "address \<Rightarrow> address \<Rightarrow> bool" where
  "Address_eq a b \<longleftrightarrow> ad_size a = ad_size b \<and>
     take (unat (ad_size a)) (ad_storage a) = take (unat (ad_size a)) (ad_storage b)"

subsection \<open>Addresses of the Internet family\<close>

definition inet_address :: "u32 \<Rightarrow> u16 \<Rightarrow> address" where
  "inet_address ip port = \<lparr>ad_size = 16, ad_storage = sockaddr_in AF_INET port ip @ replicate 112 0\<rparr>"

lemma length_sockaddr_in [simp]: "length (sockaddr_in family port ip) = 16"
  by (simp add: sockaddr_in_def)

lemma Address_of_sockaddr_in [simp]:
  "Address_of_sockaddr (sockaddr_in AF_INET port ip) 16 = Inr (inet_address ip port)"
  by (simp add: Address_of_sockaddr_def inet_address_def)

lemma Address_from_ipv4_numeric_eq [simp]: "Address_from_ipv4_numeric ip = Inr (inet_address ip 0)"
  by (simp add: Address_from_ipv4_numeric_def)

lemma be_word_bytes32: "be_word (be_bytes 4 (ip :: u32)) (0 :: u32) = ip"
  using be_word_bytes [of 4 ip] by (simp add: take_bit_word_eq_self)

lemma be_word_bytes16: "be_word (be_bytes 2 (p :: u16)) (0 :: u16) = p"
  using be_word_bytes [of 2 p] by (simp add: take_bit_word_eq_self)

lemma Address_ipv4_numeric_inet [simp]: "Address_ipv4_numeric (inet_address ip port) = Inr ip"
  by (simp add: Address_ipv4_numeric_def inet_address_def sockaddr_in_def be_word_bytes16 be_word_bytes32)

lemma inet_address_storage: "take (unat (ad_size (inet_address ip port))) (ad_storage (inet_address ip port)) =
    sockaddr_in AF_INET port ip"
  by (simp add: inet_address_def)

lemma sockaddr_in_inject: "sockaddr_in f p ip = sockaddr_in f p' ip' \<longleftrightarrow> p = p' \<and> ip = ip'"
  unfolding sockaddr_in_def
  by (simp, metis be_word_bytes16 be_word_bytes32)

lemma Address_eq_inet [simp]: "Address_eq (inet_address ip port) (inet_address ip' port') \<longleftrightarrow> ip = ip' \<and> port = port'"
  by (simp add: Address_eq_def inet_address_def sockaddr_in_inject conj_commute)

text \<open>
  What the manual pages promise for the numeric form of one address and port: \<^verbatim>\<open>getaddrinfo\<close>
  with \<^verbatim>\<open>AI_NUMERICHOST\<close> and \<^verbatim>\<open>AI_NUMERICSERV\<close> reads the string that \<^verbatim>\<open>inet_ntoa\<close> writes, and
  \<^verbatim>\<open>getnameinfo\<close> with \<^verbatim>\<open>NI_NUMERICHOST\<close> and \<^verbatim>\<open>NI_NUMERICSERV\<close> writes it again.
\<close>

definition resolves :: "resolver \<Rightarrow> u32 \<Rightarrow> u16 \<Rightarrow> bool" where
  "resolves rs ip port \<longleftrightarrow>
     rs_getaddrinfo rs (rs_inet_ntoa rs (be_bytes 4 ip)) (dec_string (unat port))
       (make_hints (AI_NUMERICHOST OR AI_NUMERICSERV) AF_INET) = (0, Some (sockaddr_in AF_INET port ip)) \<and>
     rs_getnameinfo rs (sockaddr_in AF_INET port ip) = (0, rs_inet_ntoa rs (be_bytes 4 ip), dec_string (unat port))"

lemma Address_of_ip_resolves:
  "resolves rs ip port \<Longrightarrow> Address_of_ip rs (rs_inet_ntoa rs (be_bytes 4 ip)) port = Inr (inet_address ip port)"
  using Address_of_sockaddr_in [of port ip]
  by (simp add: resolves_def Address_of_ip_def Address_lookup_def size64_def)

lemma Address_ip_port_resolves:
  assumes "resolves rs ip port"
  shows "Address_ip_port rs (inet_address ip port) = Inr (rs_inet_ntoa rs (be_bytes 4 ip), port)"
proof -
  have "unat port < 2147483648" using unat16_lt [of port] by linarith
  then show ?thesis
    using assms by (simp add: Address_ip_port_def inet_address_storage resolves_def stoi_dec_string)
qed

lemma Address_port_resolves [simp]: "resolves rs ip port \<Longrightarrow> Address_port rs (inet_address ip port) = Inr port"
  by (simp add: Address_port_def Address_ip_port_resolves)

lemma Address_ip_resolves:
  "resolves rs ip port \<Longrightarrow> Address_ip rs (inet_address ip port) = Inr (rs_inet_ntoa rs (be_bytes 4 ip))"
  by (simp add: Address_ip_def Address_ip_port_resolves)

subsection \<open>A resolver for dotted quads\<close>

text \<open>A concrete resolver that knows numeric addresses only.\<close>

definition quad_string :: "bytes \<Rightarrow> string" where
  "quad_string b = concat (map (\<lambda>x. dec_string (unat x) @ ''.'') (butlast b)) @ dec_string (unat (last b))"

fun split_dots :: "string \<Rightarrow> string \<Rightarrow> string list" where
  "split_dots acc [] = [rev acc]"
| "split_dots acc (c # s) = (if c = CHR ''.'' then rev acc # split_dots [] s else split_dots (c # acc) s)"

definition quad_bytes :: "string \<Rightarrow> bytes" where
  "quad_bytes s = map (\<lambda>p. of_nat (dec_value p)) (split_dots [] s)"

definition dotted_resolver :: resolver where
  "dotted_resolver = \<lparr>rs_getaddrinfo = (\<lambda>node service hints.
       (0, Some (sockaddr_in (ai_family hints) (of_nat (dec_value service)) (be_word (quad_bytes node) 0)))),
     rs_getnameinfo = (\<lambda>a. (0, quad_string (take 4 (drop 4 a)), dec_string (unat (be_word (take 2 (drop 2 a)) 0 :: u16)))),
     rs_inet_ntoa = quad_string\<rparr>"

lemma split_dots_digits:
  "(\<And>c. c \<in> set s \<Longrightarrow> is_digit c) \<Longrightarrow> split_dots acc (s @ t) = split_dots (rev s @ acc) t"
proof (induction s arbitrary: acc)
  case (Cons c s)
  moreover have "c \<noteq> CHR ''.''" using Cons.prems [of c] by (auto simp: is_digit_def)
  ultimately show ?case by simp
qed simp

lemma split_dots_quad:
  "b \<noteq> [] \<Longrightarrow> split_dots [] (quad_string b) = map (\<lambda>x. dec_string (unat x)) b"
proof (induction b)
  case (Cons x b)
  show ?case
  proof (cases "b = []")
    case True
    then show ?thesis using split_dots_digits [of "dec_string (unat x)" "[]" "[]"] dec_string_digits
      by (simp add: quad_string_def)
  next
    case False
    then have "quad_string (x # b) = dec_string (unat x) @ CHR ''.'' # quad_string b" by (simp add: quad_string_def)
    with Cons False split_dots_digits [of "dec_string (unat x)" "[]" "CHR ''.'' # quad_string b"] dec_string_digits
    show ?thesis by simp
  qed
qed simp

lemma dotted_resolves: "resolves dotted_resolver ip port"
proof -
  have "quad_bytes (quad_string (be_bytes 4 ip)) = be_bytes 4 ip"
    using split_dots_quad [of "be_bytes 4 ip"] length_be_bytes [of 4 ip]
    by (cases "be_bytes 4 ip") (simp_all add: quad_bytes_def comp_def del: length_be_bytes)
  then show ?thesis
    by (simp add: resolves_def dotted_resolver_def make_hints_def sockaddr_in_def be_word_bytes16 be_word_bytes32)
qed

end
