(* ===== verification/Network_Interface.thy ===== *)
theory Network_Interface
  imports Ethernet_ARP Address
begin

text \<open>
  \<^verbatim>\<open>libsponge/network_interface.hh\<close> and \<^verbatim>\<open>network_interface.cc\<close>: the interface between IP and
  Ethernet. It queues datagrams until the address of the next hop is known, asks for it with ARP,
  answers requests and forgets what it has learned. The maps are ordered association lists, the
  queues lists.
\<close>

subsection \<open>State and operations\<close>

record network_interface =
  ni_ethernet_address :: ethernet_address
  ni_ip_address :: address
  ni_frames_out :: "ethernet_frame list"
  ni_ip_to_eth_table :: "(u32 \<times> ethernet_address) list"
  ni_ip_timeout_table :: "(u32 \<times> u64) list"
  ni_dg_map :: "(u32 \<times> ipv4_datagram list) list"
  ni_system_time :: u64

definition FIVE_THOUSANDS_MS :: u64 where
  "FIVE_THOUSANDS_MS = 5000"

definition THIRTY_THOUSANDS_MS :: u64 where
  "THIRTY_THOUSANDS_MS = 30000"

text \<open>The constructor prints the address; that may throw.\<close>

definition NetworkInterface_new :: "resolver \<Rightarrow> ethernet_address \<Rightarrow> address \<Rightarrow> network_interface res" where
  "NetworkInterface_new rs ethernet_address ip_address =
     rbind (Address_ip rs ip_address) (\<lambda>_.
     Inr \<lparr>ni_ethernet_address = ethernet_address, ni_ip_address = ip_address, ni_frames_out = [],
       ni_ip_to_eth_table = [], ni_ip_timeout_table = [], ni_dg_map = [], ni_system_time = 0\<rparr>)"

text \<open>\<^verbatim>\<open>_dg_map[ip]\<close>: a missing entry is an empty queue that the access inserts.\<close>

definition dg_queue :: "(u32 \<times> ipv4_datagram list) list \<Rightarrow> u32 \<Rightarrow> ipv4_datagram list" where
  "dg_queue m ip = (case omap_find m ip of None \<Rightarrow> [] | Some q \<Rightarrow> q)"

definition dg_push :: "u32 \<Rightarrow> ipv4_datagram \<Rightarrow> (u32 \<times> ipv4_datagram list) list \<Rightarrow> (u32 \<times> ipv4_datagram list) list" where
  "dg_push ip dgram m = omap_assign ip (dg_queue m ip @ [dgram]) m"

fun flush_queue :: "ipv4_datagram list \<Rightarrow> u32 \<Rightarrow> ethernet_address \<Rightarrow> network_interface \<Rightarrow> network_interface res" where
  "flush_queue [] ip_addr eth_addr ni = Inr ni"
| "flush_queue (dg # q) ip_addr eth_addr ni =
     rbind (IPv4Datagram_serialize dg) (\<lambda>payload.
     let eth_fr = \<lparr>ef_header = \<lparr>eh_dst = eth_addr, eh_src = ni_ethernet_address ni, eh_type = TYPE_IPv4\<rparr>,
                    ef_payload = payload\<rparr>
     in flush_queue q ip_addr eth_addr
          (ni\<lparr>ni_dg_map := omap_assign ip_addr q (ni_dg_map ni),
              ni_frames_out := ni_frames_out ni @ [eth_fr]\<rparr>))"

definition NetworkInterface_flush_buffer ::
  "u32 \<Rightarrow> ethernet_address \<Rightarrow> network_interface \<Rightarrow> network_interface res" where
  "NetworkInterface_flush_buffer ip_addr eth_addr ni =
     (let ni = ni\<lparr>ni_dg_map := omap_insert ip_addr [] (ni_dg_map ni)\<rparr>
      in flush_queue (dg_queue (ni_dg_map ni) ip_addr) ip_addr eth_addr ni)"

definition send_arp_request :: "u32 \<Rightarrow> network_interface \<Rightarrow> network_interface res" where
  "send_arp_request next_hop_ip ni =
     rbind (Address_ipv4_numeric (ni_ip_address ni)) (\<lambda>own_ip.
     let arp_req = ARPMessage_new\<lparr>am_opcode := OPCODE_REQUEST,
           am_sender_ethernet_address := ni_ethernet_address ni, am_sender_ip_address := own_ip,
           am_target_ip_address := next_hop_ip\<rparr>
     in rbind (ARPMessage_serialize arp_req) (\<lambda>s.
        Inr (ni\<lparr>ni_frames_out := ni_frames_out ni @
          [\<lparr>ef_header = \<lparr>eh_dst = ETHERNET_BROADCAST, eh_src = ni_ethernet_address ni, eh_type = TYPE_ARP\<rparr>,
             ef_payload = BufferList_of_string s\<rparr>]\<rparr>)))"

definition NetworkInterface_send_datagram ::
  "ipv4_datagram \<Rightarrow> address \<Rightarrow> network_interface \<Rightarrow> network_interface res" where
  "NetworkInterface_send_datagram dgram next_hop ni =
     rbind (Address_ipv4_numeric next_hop) (\<lambda>next_hop_ip.
     let ni = ni\<lparr>ni_dg_map := omap_insert next_hop_ip [] (ni_dg_map ni)\<rparr>;
         to_it = omap_find (ni_ip_timeout_table ni) next_hop_ip;
         ip_it = omap_find (ni_ip_to_eth_table ni) next_hop_ip;
         ni = ni\<lparr>ni_dg_map := dg_push next_hop_ip dgram (ni_dg_map ni)\<rparr>
     in case ip_it of
          Some eth \<Rightarrow> NetworkInterface_flush_buffer next_hop_ip eth ni
        | None \<Rightarrow>
            (case to_it of
               None \<Rightarrow> rbind (send_arp_request next_hop_ip ni) (\<lambda>ni.
                  Inr (ni\<lparr>ni_ip_timeout_table :=
                    omap_insert next_hop_ip (ni_system_time ni) (ni_ip_timeout_table ni)\<rparr>))
             | Some t \<Rightarrow>
                 if FIVE_THOUSANDS_MS < ni_system_time ni - t then send_arp_request next_hop_ip ni
                 else Inr ni))"

definition learn_mapping :: "u32 \<Rightarrow> ethernet_address \<Rightarrow> network_interface \<Rightarrow> network_interface" where
  "learn_mapping ip eth ni =
     (case omap_find (ni_ip_to_eth_table ni) ip of
        Some _ \<Rightarrow> ni
      | None \<Rightarrow> ni\<lparr>ni_ip_to_eth_table := omap_insert ip eth (ni_ip_to_eth_table ni),
                   ni_ip_timeout_table := omap_insert ip (ni_system_time ni) (ni_ip_timeout_table ni)\<rparr>)"

definition send_arp_reply :: "ethernet_address \<Rightarrow> u32 \<Rightarrow> u32 \<Rightarrow> network_interface \<Rightarrow> network_interface res" where
  "send_arp_reply to own_ip target_ip ni =
     (let arp_reply = ARPMessage_new\<lparr>am_opcode := OPCODE_REPLY,
            am_sender_ethernet_address := ni_ethernet_address ni, am_target_ethernet_address := to,
            am_sender_ip_address := own_ip, am_target_ip_address := target_ip\<rparr>
      in rbind (ARPMessage_serialize arp_reply) (\<lambda>s.
         Inr (ni\<lparr>ni_frames_out := ni_frames_out ni @
           [\<lparr>ef_header = \<lparr>eh_dst = to, eh_src = ni_ethernet_address ni, eh_type = TYPE_ARP\<rparr>,
              ef_payload = BufferList_of_string s\<rparr>]\<rparr>)))"

definition NetworkInterface_recv_frame ::
  "ethernet_frame \<Rightarrow> network_interface \<Rightarrow> (ipv4_datagram option \<times> network_interface) res" where
  "NetworkInterface_recv_frame frame ni =
     (let payload = Buffer_of (BufferList_concatenate (ef_payload frame)) in
      if eh_dst (ef_header frame) \<noteq> ETHERNET_BROADCAST \<and> eh_dst (ef_header frame) \<noteq> ni_ethernet_address ni
      then Inr (None, ni)
      else if eh_type (ef_header frame) = TYPE_IPv4 then
        rbind (IPv4Datagram_parse IPv4Datagram_new payload) (\<lambda>(r, dgram).
        if r = NoError then Inr (Some dgram, ni) else Inr (None, ni))
      else if eh_type (ef_header frame) = TYPE_ARP then
        rbind (ARPMessage_parse ARPMessage_new payload) (\<lambda>(r, arp_req).
        if r = NoError then
          let ni = learn_mapping (am_sender_ip_address arp_req) (eh_src (ef_header frame)) ni in
          rbind (Address_ipv4_numeric (ni_ip_address ni)) (\<lambda>own_ip.
          if am_target_ip_address arp_req = own_ip \<and> am_opcode arp_req = OPCODE_REQUEST then
            rbind (send_arp_reply (eh_src (ef_header frame)) own_ip (am_sender_ip_address arp_req) ni) (\<lambda>ni.
            Inr (None, ni))
          else if am_target_ip_address arp_req = own_ip \<and> am_opcode arp_req = OPCODE_REPLY then
            rbind (NetworkInterface_flush_buffer (am_sender_ip_address arp_req) (am_sender_ethernet_address arp_req) ni) (\<lambda>ni.
            Inr (None, ni))
          else Inr (None, ni))
        else Inr (None, ni))
      else Inr (None, ni))"

definition expired_ips :: "u64 \<Rightarrow> (u32 \<times> u64) list \<Rightarrow> u32 list" where
  "expired_ips now table = map fst (filter (\<lambda>(_, t). THIRTY_THOUSANDS_MS < now - t) table)"

definition NetworkInterface_tick :: "u64 \<Rightarrow> network_interface \<Rightarrow> network_interface" where
  "NetworkInterface_tick ms_since_last_tick ni =
     (let now = ni_system_time ni + ms_since_last_tick;
          q = expired_ips now (ni_ip_timeout_table ni)
      in ni\<lparr>ni_system_time := now,
            ni_ip_to_eth_table := fold omap_erase q (ni_ip_to_eth_table ni),
            ni_ip_timeout_table := fold omap_erase q (ni_ip_timeout_table ni)\<rparr>)"

end
