(* ===== verification/Interface_Runs.thy ===== *)
theory Interface_Runs
  imports Network_Interface
begin

text \<open>
  Runs of one network interface: what every operation does to the queues, the frames and the
  tables, the invariant of all runs, and the exchange between two interfaces that resolves an
  address and delivers a datagram.
\<close>

subsection \<open>Sending queued datagrams\<close>

text \<open>The frame that carries a datagram to an Ethernet address.\<close>

definition sent_as :: "ethernet_address \<Rightarrow> u32 \<times> ethernet_address \<times> ipv4_datagram \<Rightarrow> ethernet_frame \<Rightarrow> bool" where
  "sent_as own s f \<longleftrightarrow> ef_header f = \<lparr>eh_dst = fst (snd s), eh_src = own, eh_type = TYPE_IPv4\<rparr> \<and>
     IPv4Datagram_serialize (snd (snd s)) = Inr (ef_payload f)"

definition is_ip :: "ethernet_frame \<Rightarrow> bool" where
  "is_ip f \<longleftrightarrow> eh_type (ef_header f) = TYPE_IPv4"

definition sent_to :: "u32 \<Rightarrow> (u32 \<times> ethernet_address \<times> ipv4_datagram) list \<Rightarrow> ipv4_datagram list" where
  "sent_to ip sent = map (snd \<circ> snd) (filter (\<lambda>s. fst s = ip) sent)"

definition handed_for :: "u32 \<Rightarrow> (u32 \<times> ipv4_datagram) list \<Rightarrow> ipv4_datagram list" where
  "handed_for ip subs = map snd (filter (\<lambda>s. fst s = ip) subs)"

lemma sent_to_simps [simp]:
  "sent_to ip [] = []" "sent_to ip (a @ b) = sent_to ip a @ sent_to ip b"
  "sent_to ip (map (\<lambda>dg. (ip', eth, dg)) q) = (if ip' = ip then q else [])"
  by (simp_all add: sent_to_def filter_map comp_def)

lemma handed_for_simps [simp]:
  "handed_for ip [] = []" "handed_for ip (a @ b) = handed_for ip a @ handed_for ip b"
  "handed_for ip [(ip', dg)] = (if ip' = ip then [dg] else [])"
  by (simp_all add: handed_for_def)

lemma sent_is_ip: "list_all2 (sent_as own) sent fs \<Longrightarrow> filter is_ip fs = fs"
  by (induction rule: list_all2_induct) (simp_all add: sent_as_def is_ip_def)

text \<open>
  An operation that is handed the datagrams \<open>new\<close> sends the datagrams \<open>sent\<close>: it takes from the
  front of the queues and adds at their end.
\<close>

definition moves ::
  "network_interface \<Rightarrow> (u32 \<times> ipv4_datagram) list \<Rightarrow> (u32 \<times> ethernet_address \<times> ipv4_datagram) list \<Rightarrow> network_interface \<Rightarrow> bool"
where
  "moves ni new sent ni' \<longleftrightarrow> omap_ok (ni_dg_map ni') \<and>
     ni_ethernet_address ni' = ni_ethernet_address ni \<and> ni_ip_address ni' = ni_ip_address ni \<and>
     ni_system_time ni' = ni_system_time ni \<and>
     (\<exists>fs. ni_frames_out ni' = ni_frames_out ni @ fs \<and>
        list_all2 (sent_as (ni_ethernet_address ni)) sent (filter is_ip fs)) \<and>
     (\<forall>ip. sent_to ip sent @ dg_queue (ni_dg_map ni') ip = dg_queue (ni_dg_map ni) ip @ handed_for ip new)"

lemma dg_queue_insert [simp]: "omap_ok m \<Longrightarrow> dg_queue (omap_insert ip [] m) x = dg_queue m x"
  by (auto simp: dg_queue_def om.find_insert split: option.splits)

lemma dg_queue_assign [simp]: "omap_ok m \<Longrightarrow> dg_queue (omap_assign ip q m) x = (if x = ip then q else dg_queue m x)"
  by (simp add: dg_queue_def om.find_assign)

lemma dg_push_simps [simp]:
  "omap_ok m \<Longrightarrow> omap_ok (dg_push ip dg m)"
  "omap_ok m \<Longrightarrow> dg_queue (dg_push ip dg m) x = dg_queue m x @ (if x = ip then [dg] else [])"
  by (simp_all add: dg_push_def)

lemma flush_queue_moves:
  assumes "flush_queue q ip eth ni = Inr ni'" and "omap_ok (ni_dg_map ni)" and "dg_queue (ni_dg_map ni) ip = q"
  shows "moves ni [] (map (\<lambda>dg. (ip, eth, dg)) q) ni' \<and> ni_ip_to_eth_table ni' = ni_ip_to_eth_table ni \<and>
     ni_ip_timeout_table ni' = ni_ip_timeout_table ni"
  using assms
proof (induction q ip eth ni rule: flush_queue.induct)
  case (1 ip eth ni)
  then show ?case by (auto simp: moves_def)
next
  case (2 dg q ip eth ni)
  from 2(2) obtain p where p: "IPv4Datagram_serialize dg = Inr p" by (auto simp: rbind_eq_Inr)
  let ?f = "\<lparr>ef_header = \<lparr>eh_dst = eth, eh_src = ni_ethernet_address ni, eh_type = TYPE_IPv4\<rparr>, ef_payload = p\<rparr>"
  let ?ni = "ni\<lparr>ni_dg_map := omap_assign ip q (ni_dg_map ni), ni_frames_out := ni_frames_out ni @ [?f]\<rparr>"
  from 2(2) p have step: "flush_queue q ip eth ?ni = Inr ni'" by simp
  have m: "moves ?ni [] (map (\<lambda>dg. (ip, eth, dg)) q) ni'" "ni_ip_to_eth_table ni' = ni_ip_to_eth_table ni"
    "ni_ip_timeout_table ni' = ni_ip_timeout_table ni"
    using 2(1) [OF p refl step] 2(3) by simp_all
  have f: "sent_as (ni_ethernet_address ni) (ip, eth, dg) ?f" using p by (simp add: sent_as_def)
  from m(1) obtain fs where fs: "ni_frames_out ni' = ni_frames_out ni @ ?f # fs"
    "list_all2 (sent_as (ni_ethernet_address ni)) (map (\<lambda>dg. (ip, eth, dg)) q) (filter is_ip fs)"
    by (auto simp: moves_def)
  have q: "sent_to x (map (\<lambda>dg. (ip, eth, dg)) (dg # q)) @ dg_queue (ni_dg_map ni') x = dg_queue (ni_dg_map ni) x" for x
  proof -
    have "sent_to x (map (\<lambda>dg. (ip, eth, dg)) q) @ dg_queue (ni_dg_map ni') x = dg_queue (ni_dg_map ?ni) x"
      using m(1) by (simp add: moves_def)
    then show ?thesis using 2(3,4) unfolding sent_to_simps by (cases "x = ip") auto
  qed
  have "\<exists>gs. ni_frames_out ni' = ni_frames_out ni @ gs \<and>
      list_all2 (sent_as (ni_ethernet_address ni)) (map (\<lambda>dg. (ip, eth, dg)) (dg # q)) (filter is_ip gs)"
    using fs f by (intro exI [of _ "?f # fs"]) (simp add: is_ip_def)
  then show ?case using m q by (simp add: moves_def del: list.map sent_to_simps(3))
qed

lemma flush_buffer_moves:
  assumes "NetworkInterface_flush_buffer ip eth ni = Inr ni'" and "omap_ok (ni_dg_map ni)"
  shows "moves ni [] (map (\<lambda>dg. (ip, eth, dg)) (dg_queue (ni_dg_map ni) ip)) ni'"
    "ni_ip_to_eth_table ni' = ni_ip_to_eth_table ni" "ni_ip_timeout_table ni' = ni_ip_timeout_table ni"
  using flush_queue_moves [OF assms(1) [unfolded NetworkInterface_flush_buffer_def Let_def]] assms(2)
  by (simp_all add: moves_def)

lemma send_arp_request_frames:
  assumes "send_arp_request ip ni = Inr ni'"
  obtains f where "ni' = ni\<lparr>ni_frames_out := ni_frames_out ni @ [f]\<rparr>" "\<not> is_ip f"
    "ef_header f = \<lparr>eh_dst = ETHERNET_BROADCAST, eh_src = ni_ethernet_address ni, eh_type = TYPE_ARP\<rparr>"
  using assms by (auto simp: send_arp_request_def rbind_eq_Inr Let_def is_ip_def TYPE_ARP_def TYPE_IPv4_def)

lemma send_arp_reply_frames:
  assumes "send_arp_reply to own ip ni = Inr ni'"
  obtains f where "ni' = ni\<lparr>ni_frames_out := ni_frames_out ni @ [f]\<rparr>" "\<not> is_ip f"
  using assms by (auto simp: send_arp_reply_def rbind_eq_Inr Let_def is_ip_def TYPE_ARP_def TYPE_IPv4_def)

text \<open>The table of mappings is kept, and that of times gets at most the current one.\<close>

definition times_grow :: "network_interface \<Rightarrow> network_interface \<Rightarrow> bool" where
  "times_grow ni ni' \<longleftrightarrow> ni_ip_timeout_table ni' = ni_ip_timeout_table ni \<or>
     (\<exists>ip. ni_ip_timeout_table ni' = omap_insert ip (ni_system_time ni) (ni_ip_timeout_table ni))"

definition ni_queued :: "u32 \<Rightarrow> ipv4_datagram \<Rightarrow> network_interface \<Rightarrow> network_interface" where
  "ni_queued ip dgram ni = ni\<lparr>ni_dg_map := dg_push ip dgram (omap_insert ip [] (ni_dg_map ni))\<rparr>"

lemma ni_queued_simps [simp]:
  "ni_ip_to_eth_table (ni_queued ip dg ni) = ni_ip_to_eth_table ni"
  "ni_ip_timeout_table (ni_queued ip dg ni) = ni_ip_timeout_table ni"
  "ni_frames_out (ni_queued ip dg ni) = ni_frames_out ni" "ni_system_time (ni_queued ip dg ni) = ni_system_time ni"
  "ni_ethernet_address (ni_queued ip dg ni) = ni_ethernet_address ni" "ni_ip_address (ni_queued ip dg ni) = ni_ip_address ni"
  "omap_ok (ni_dg_map ni) \<Longrightarrow> omap_ok (ni_dg_map (ni_queued ip dg ni))"
  "omap_ok (ni_dg_map ni) \<Longrightarrow> dg_queue (ni_dg_map (ni_queued ip dg ni)) x = dg_queue (ni_dg_map ni) x @ handed_for x [(ip, dg)]"
  by (simp_all add: ni_queued_def)

lemma send_datagram_cases:
  assumes "Address_ipv4_numeric next_hop = Inr ip"
  shows "omap_find (ni_ip_to_eth_table ni) ip = Some eth \<Longrightarrow>
      NetworkInterface_send_datagram dgram next_hop ni = NetworkInterface_flush_buffer ip eth (ni_queued ip dgram ni)"
    "omap_find (ni_ip_to_eth_table ni) ip = None \<Longrightarrow> omap_find (ni_ip_timeout_table ni) ip = None \<Longrightarrow>
      NetworkInterface_send_datagram dgram next_hop ni = rbind (send_arp_request ip (ni_queued ip dgram ni))
        (\<lambda>ni. Inr (ni\<lparr>ni_ip_timeout_table := omap_insert ip (ni_system_time ni) (ni_ip_timeout_table ni)\<rparr>))"
    "omap_find (ni_ip_to_eth_table ni) ip = None \<Longrightarrow> omap_find (ni_ip_timeout_table ni) ip = Some t \<Longrightarrow>
      NetworkInterface_send_datagram dgram next_hop ni =
        (if FIVE_THOUSANDS_MS < ni_system_time ni - t then send_arp_request ip (ni_queued ip dgram ni)
         else Inr (ni_queued ip dgram ni))"
  using assms by (simp_all add: NetworkInterface_send_datagram_def Let_def ni_queued_def)

lemma send_datagram_unknown:
  assumes ip: "Address_ipv4_numeric next_hop = Inr ip" and none: "omap_find (ni_ip_to_eth_table ni) ip = None"
    and step: "NetworkInterface_send_datagram dgram next_hop ni = Inr ni'"
  obtains fs ts where "ni' = (ni_queued ip dgram ni)\<lparr>ni_frames_out := ni_frames_out ni @ fs, ni_ip_timeout_table := ts\<rparr>"
    "filter is_ip fs = []" "ts = ni_ip_timeout_table ni \<or> ts = omap_insert ip (ni_system_time ni) (ni_ip_timeout_table ni)"
proof (cases "omap_find (ni_ip_timeout_table ni) ip")
  case None
  then obtain ni1 where ni1: "send_arp_request ip (ni_queued ip dgram ni) = Inr ni1"
    "ni' = ni1\<lparr>ni_ip_timeout_table := omap_insert ip (ni_system_time ni1) (ni_ip_timeout_table ni1)\<rparr>"
    using step send_datagram_cases(2) [OF ip none, where dgram = dgram] by (auto simp: rbind_eq_Inr)
  from ni1(1) obtain f where "ni1 = (ni_queued ip dgram ni)\<lparr>ni_frames_out := ni_frames_out (ni_queued ip dgram ni) @ [f]\<rparr>" "\<not> is_ip f"
    by (rule send_arp_request_frames)
  with ni1(2) show thesis
    by (intro that [of "omap_insert ip (ni_system_time ni) (ni_ip_timeout_table ni)" "[f]"]) simp_all
next
  case (Some t)
  note eq = send_datagram_cases(3) [OF ip none Some, of dgram]
  show thesis
  proof (cases "FIVE_THOUSANDS_MS < ni_system_time ni - t")
    case True
    with step eq have "send_arp_request ip (ni_queued ip dgram ni) = Inr ni'" by simp
    then obtain f where "ni' = (ni_queued ip dgram ni)\<lparr>ni_frames_out := ni_frames_out (ni_queued ip dgram ni) @ [f]\<rparr>" "\<not> is_ip f"
      by (rule send_arp_request_frames)
    then show thesis by (intro that [of "ni_ip_timeout_table ni" "[f]"]) (simp_all add: ni_queued_def)
  next
    case False
    with step eq have "ni' = ni_queued ip dgram ni" by simp
    then show thesis by (intro that [of "ni_ip_timeout_table ni" "[]"]) (simp_all add: ni_queued_def)
  qed
qed

definition datagrams_released :: "u32 \<Rightarrow> ipv4_datagram \<Rightarrow> network_interface \<Rightarrow> (u32 \<times> ethernet_address \<times> ipv4_datagram) list" where
  "datagrams_released ip dgram ni = (case omap_find (ni_ip_to_eth_table ni) ip of
     Some eth \<Rightarrow> map (\<lambda>dg. (ip, eth, dg)) (dg_queue (ni_dg_map ni) ip @ [dgram]) | None \<Rightarrow> [])"

lemma send_datagram_moves:
  assumes step: "NetworkInterface_send_datagram dgram next_hop ni = Inr ni'" and ip: "Address_ipv4_numeric next_hop = Inr ip"
    and ok: "omap_ok (ni_dg_map ni)"
  shows "moves ni [(ip, dgram)] (datagrams_released ip dgram ni) ni' \<and> ni_ip_to_eth_table ni' = ni_ip_to_eth_table ni \<and>
     times_grow ni ni'"
proof (cases "omap_find (ni_ip_to_eth_table ni) ip")
  case (Some eth)
  with step send_datagram_cases(1) [OF ip Some] have "NetworkInterface_flush_buffer ip eth (ni_queued ip dgram ni) = Inr ni'" by simp
  from flush_buffer_moves [OF this] Some ok show ?thesis
    by (simp add: moves_def times_grow_def datagrams_released_def)
next
  case None
  from ip None step obtain fs ts where
    "ni' = (ni_queued ip dgram ni)\<lparr>ni_frames_out := ni_frames_out ni @ fs, ni_ip_timeout_table := ts\<rparr>"
    "filter is_ip fs = []" "ts = ni_ip_timeout_table ni \<or> ts = omap_insert ip (ni_system_time ni) (ni_ip_timeout_table ni)"
    by (rule send_datagram_unknown)
  with None ok show ?thesis by (auto simp: moves_def times_grow_def datagrams_released_def)
qed

text \<open>The ARP message in a frame for this interface.\<close>

definition arp_in :: "network_interface \<Rightarrow> ethernet_frame \<Rightarrow> arp_message option" where
  "arp_in ni f =
     (if (eh_dst (ef_header f) = ETHERNET_BROADCAST \<or> eh_dst (ef_header f) = ni_ethernet_address ni) \<and>
         eh_type (ef_header f) = TYPE_ARP
      then (case ARPMessage_parse ARPMessage_new (Buffer_of (BufferList_concatenate (ef_payload f))) of
              Inr (NoError, m) \<Rightarrow> Some m | _ \<Rightarrow> None)
      else None)"

lemma learn_mapping_simps [simp]:
  "ni_dg_map (learn_mapping ip e ni) = ni_dg_map ni" "ni_frames_out (learn_mapping ip e ni) = ni_frames_out ni"
  "ni_system_time (learn_mapping ip e ni) = ni_system_time ni"
  "ni_ethernet_address (learn_mapping ip e ni) = ni_ethernet_address ni"
  "ni_ip_address (learn_mapping ip e ni) = ni_ip_address ni"
  by (simp_all add: learn_mapping_def split: option.splits)

lemma moves_refl [simp]: "omap_ok (ni_dg_map ni) \<Longrightarrow> moves ni [] [] ni"
  by (simp add: moves_def)

lemma recv_frame_other:
  assumes "NetworkInterface_recv_frame f ni = Inr (r, ni')" and "arp_in ni f = None"
  shows "ni' = ni"
proof (cases "eh_type (ef_header f) = TYPE_ARP \<and> (eh_dst (ef_header f) = ETHERNET_BROADCAST \<or> eh_dst (ef_header f) = ni_ethernet_address ni)")
  case True
  have n: "TYPE_ARP \<noteq> TYPE_IPv4" by (simp add: TYPE_ARP_def TYPE_IPv4_def)
  have d: "\<not> (eh_dst (ef_header f) \<noteq> ETHERNET_BROADCAST \<and> eh_dst (ef_header f) \<noteq> ni_ethernet_address ni)" using True by blast
  let ?p = "ARPMessage_parse ARPMessage_new (Buffer_of (BufferList_concatenate (ef_payload f)))"
  obtain e m where p: "?p = Inr (e, m)"
    using assms(1) True n unfolding NetworkInterface_recv_frame_def Let_def if_not_P [OF d] by (cases ?p) auto
  then have "e \<noteq> NoError" using assms(2) True by (auto simp: arp_in_def)
  then show ?thesis
    using assms(1) True n p unfolding NetworkInterface_recv_frame_def Let_def if_not_P [OF d] by simp
next
  case False
  then show ?thesis
    using assms(1) by (auto simp: NetworkInterface_recv_frame_def Let_def rbind_eq_Inr split: if_splits)
qed

lemma recv_frame_arp_eq:
  assumes "arp_in ni f = Some m"
  defines "ni1 \<equiv> learn_mapping (am_sender_ip_address m) (eh_src (ef_header f)) ni"
  shows "NetworkInterface_recv_frame f ni = rbind (Address_ipv4_numeric (ni_ip_address ni)) (\<lambda>own_ip.
      if am_target_ip_address m = own_ip \<and> am_opcode m = OPCODE_REQUEST then
        rbind (send_arp_reply (eh_src (ef_header f)) own_ip (am_sender_ip_address m) ni1) (\<lambda>ni. Inr (None, ni))
      else if am_target_ip_address m = own_ip \<and> am_opcode m = OPCODE_REPLY then
        rbind (NetworkInterface_flush_buffer (am_sender_ip_address m) (am_sender_ethernet_address m) ni1) (\<lambda>ni. Inr (None, ni))
      else Inr (None, ni1))"
proof -
  have p: "ARPMessage_parse ARPMessage_new (Buffer_of (BufferList_concatenate (ef_payload f))) = Inr (NoError, m)"
    and t: "eh_type (ef_header f) = TYPE_ARP"
    and d: "\<not> (eh_dst (ef_header f) \<noteq> ETHERNET_BROADCAST \<and> eh_dst (ef_header f) \<noteq> ni_ethernet_address ni)"
    using assms(1) by (auto simp: arp_in_def split: if_splits sum.splits prod.splits ParseResult.splits)
  have n: "TYPE_ARP \<noteq> TYPE_IPv4" by (simp add: TYPE_ARP_def TYPE_IPv4_def)
  show ?thesis
    unfolding NetworkInterface_recv_frame_def Let_def if_not_P [OF d] t p if_not_P [OF n] ni1_def by simp
qed

lemma recv_frame_arp:
  assumes "NetworkInterface_recv_frame f ni = Inr (r, ni')" and m: "arp_in ni f = Some m"
  obtains own ni1 where "Address_ipv4_numeric (ni_ip_address ni) = Inr own"
    "ni1 = learn_mapping (am_sender_ip_address m) (eh_src (ef_header f)) ni" "r = None"
    "send_arp_reply (eh_src (ef_header f)) own (am_sender_ip_address m) ni1 = Inr ni' \<or>
     NetworkInterface_flush_buffer (am_sender_ip_address m) (am_sender_ethernet_address m) ni1 = Inr ni' \<or> ni' = ni1"
proof -
  from assms(1) [unfolded recv_frame_arp_eq [OF m]] obtain own where
    own: "Address_ipv4_numeric (ni_ip_address ni) = Inr own" by (auto simp: rbind_eq_Inr)
  show thesis
    by (rule that [OF own refl]) (use assms(1) own in \<open>auto simp: recv_frame_arp_eq [OF m] rbind_eq_Inr split: if_splits\<close>)
qed

lemma recv_frame_moves:
  assumes "NetworkInterface_recv_frame f ni = Inr (r, ni')" and "arp_in ni f = Some m" and ok: "omap_ok (ni_dg_map ni)"
  obtains sent where "moves ni [] sent ni'"
    "\<And>ip eth dg. (ip, eth, dg) \<in> set sent \<Longrightarrow> ip = am_sender_ip_address m \<and> eth = am_sender_ethernet_address m"
    "ni_ip_to_eth_table ni' = ni_ip_to_eth_table (learn_mapping (am_sender_ip_address m) (eh_src (ef_header f)) ni)"
    "ni_ip_timeout_table ni' = ni_ip_timeout_table (learn_mapping (am_sender_ip_address m) (eh_src (ef_header f)) ni)"
proof -
  obtain own ni1 where ni1: "ni1 = learn_mapping (am_sender_ip_address m) (eh_src (ef_header f)) ni"
    and c: "send_arp_reply (eh_src (ef_header f)) own (am_sender_ip_address m) ni1 = Inr ni' \<or>
      NetworkInterface_flush_buffer (am_sender_ip_address m) (am_sender_ethernet_address m) ni1 = Inr ni' \<or> ni' = ni1"
    using recv_frame_arp [OF assms(1,2)] by metis
  have ok1: "omap_ok (ni_dg_map ni1)" using ok ni1 by simp
  from c consider
      (reply) "send_arp_reply (eh_src (ef_header f)) own (am_sender_ip_address m) ni1 = Inr ni'"
    | (flush) "NetworkInterface_flush_buffer (am_sender_ip_address m) (am_sender_ethernet_address m) ni1 = Inr ni'"
    | (quiet) "ni' = ni1" by blast
  then show thesis
  proof cases
    case reply
    then obtain g where g: "ni' = ni1\<lparr>ni_frames_out := ni_frames_out ni1 @ [g]\<rparr>" "\<not> is_ip g"
      by (rule send_arp_reply_frames)
    with ok1 ni1 show thesis by (intro that [of "[]"]) (auto simp: moves_def)
  next
    case flush
    from flush_buffer_moves [OF this ok1] ni1 show thesis
      by (intro that [of "map (\<lambda>dg. (am_sender_ip_address m, am_sender_ethernet_address m, dg))
          (dg_queue (ni_dg_map ni1) (am_sender_ip_address m))"]) (auto simp: moves_def)
  next
    case quiet
    with ok1 ni1 show thesis by (intro that [of "[]"]) (auto simp: moves_def)
  qed
qed

subsection \<open>Runs\<close>

text \<open>
  A run of an interface: datagrams are handed to it, frames arrive, time passes and the owner
  takes frames from the output queue. The state carries the history: what was handed over for
  which next hop, the frames taken, and the frames that arrived with the time of their arrival.
  The clock of 64 bits does not wrap around during a run.
\<close>

type_synonym if_state =
  "network_interface \<times> (u32 \<times> ipv4_datagram) list \<times> ethernet_frame list \<times> (u64 \<times> ethernet_frame) set"

inductive if_step :: "if_state \<Rightarrow> if_state \<Rightarrow> bool" where
  if_send: "Address_ipv4_numeric next_hop = Inr ip \<Longrightarrow> NetworkInterface_send_datagram dgram next_hop ni = Inr ni' \<Longrightarrow>
     if_step (ni, subs, out, rcvd) (ni', subs @ [(ip, dgram)], out, rcvd)"
| if_recv: "NetworkInterface_recv_frame f ni = Inr (r, ni') \<Longrightarrow>
     if_step (ni, subs, out, rcvd) (ni', subs, out, insert (ni_system_time ni, f) rcvd)"
| if_tick: "unat (ni_system_time ni) + unat ms < 18446744073709551616 \<Longrightarrow>
     if_step (ni, subs, out, rcvd) (NetworkInterface_tick ms ni, subs, out, rcvd)"
| if_pop: "ni_frames_out ni = f # fs \<Longrightarrow>
     if_step (ni, subs, out, rcvd) (ni\<lparr>ni_frames_out := fs\<rparr>, subs, out @ [f], rcvd)"

definition if_init :: "resolver \<Rightarrow> ethernet_address \<Rightarrow> address \<Rightarrow> if_state \<Rightarrow> bool" where
  "if_init rs eth ip s \<longleftrightarrow> (\<exists>ni. NetworkInterface_new rs eth ip = Inr ni \<and> s = (ni, [], [], {}))"

text \<open>An ARP message that arrived claims an Ethernet address for an IP address.\<close>

definition claimed :: "network_interface \<Rightarrow> (u64 \<times> ethernet_frame) set \<Rightarrow> u32 \<Rightarrow> ethernet_address \<Rightarrow> bool" where
  "claimed ni rcvd ip eth \<longleftrightarrow> (\<exists>t f m. (t, f) \<in> rcvd \<and> arp_in ni f = Some m \<and> am_sender_ip_address m = ip \<and>
     (eth = eh_src (ef_header f) \<or> eth = am_sender_ethernet_address m))"

definition conserved :: "if_state \<Rightarrow> bool" where
  "conserved = (\<lambda>(ni, subs, out, rcvd). omap_ok (ni_dg_map ni) \<and>
     (\<exists>sent. list_all2 (sent_as (ni_ethernet_address ni)) sent (filter is_ip (out @ ni_frames_out ni)) \<and>
        (\<forall>ip. sent_to ip sent @ dg_queue (ni_dg_map ni) ip = handed_for ip subs) \<and>
        (\<forall>ip eth dg. (ip, eth, dg) \<in> set sent \<longrightarrow> claimed ni rcvd ip eth)))"

text \<open>A mapping is as old as its entry in the table of times, or younger, and that entry is not older than thirty seconds.\<close>

definition learned_at :: "network_interface \<Rightarrow> (u64 \<times> ethernet_frame) set \<Rightarrow> u32 \<Rightarrow> ethernet_address \<Rightarrow> u64 \<Rightarrow> bool" where
  "learned_at ni rcvd ip eth t \<longleftrightarrow> (\<exists>f m. (t, f) \<in> rcvd \<and> arp_in ni f = Some m \<and> am_sender_ip_address m = ip \<and>
     eth = eh_src (ef_header f))"

definition recent :: "u64 \<Rightarrow> u64 \<Rightarrow> bool" where
  "recent now t \<longleftrightarrow> unat t \<le> unat now \<and> unat now - unat t \<le> 30000"

definition fresh_tables :: "if_state \<Rightarrow> bool" where
  "fresh_tables = (\<lambda>(ni, subs, out, rcvd). omap_ok (ni_ip_to_eth_table ni) \<and> omap_ok (ni_ip_timeout_table ni) \<and>
     (\<forall>ip t. omap_find (ni_ip_timeout_table ni) ip = Some t \<longrightarrow> recent (ni_system_time ni) t) \<and>
     (\<forall>ip eth. omap_find (ni_ip_to_eth_table ni) ip = Some eth \<longrightarrow>
        (\<exists>t t0. learned_at ni rcvd ip eth t \<and> unat t \<le> unat (ni_system_time ni) \<and>
           omap_find (ni_ip_timeout_table ni) ip = Some t0 \<and> unat t0 \<le> unat t)))"

definition if_inv :: "ethernet_address \<Rightarrow> address \<Rightarrow> if_state \<Rightarrow> bool" where
  "if_inv eth ip s \<longleftrightarrow> ni_ethernet_address (fst s) = eth \<and> ni_ip_address (fst s) = ip \<and> conserved s \<and> fresh_tables s"

lemma arp_in_cong: "ni_ethernet_address ni' = ni_ethernet_address ni \<Longrightarrow> arp_in ni' = arp_in ni"
  by (simp add: arp_in_def fun_eq_iff)

lemma claimed_mono:
  "claimed ni rcvd ip eth \<Longrightarrow> ni_ethernet_address ni' = ni_ethernet_address ni \<Longrightarrow> rcvd \<subseteq> rcvd' \<Longrightarrow> claimed ni' rcvd' ip eth"
  unfolding claimed_def using arp_in_cong by (metis subsetD)

lemma learned_at_mono:
  "learned_at ni rcvd ip eth t \<Longrightarrow> ni_ethernet_address ni' = ni_ethernet_address ni \<Longrightarrow> rcvd \<subseteq> rcvd' \<Longrightarrow>
     learned_at ni' rcvd' ip eth t"
  unfolding learned_at_def using arp_in_cong by (metis subsetD)

lemma conserved_moves:
  assumes c: "conserved (ni, subs, out, rcvd)" and m: "moves ni new sent ni'" and r: "rcvd \<subseteq> rcvd'"
    and cl: "\<And>ip eth dg. (ip, eth, dg) \<in> set sent \<Longrightarrow> claimed ni rcvd' ip eth"
  shows "conserved (ni', subs @ new, out, rcvd')"
proof -
  from c obtain past where past: "list_all2 (sent_as (ni_ethernet_address ni)) past (filter is_ip (out @ ni_frames_out ni))"
    "\<And>ip. sent_to ip past @ dg_queue (ni_dg_map ni) ip = handed_for ip subs"
    "\<And>ip eth dg. (ip, eth, dg) \<in> set past \<Longrightarrow> claimed ni rcvd ip eth" unfolding conserved_def prod.case by blast
  from m obtain fs where fs: "ni_frames_out ni' = ni_frames_out ni @ fs"
    "list_all2 (sent_as (ni_ethernet_address ni)) sent (filter is_ip fs)"
    "\<And>ip. sent_to ip sent @ dg_queue (ni_dg_map ni') ip = dg_queue (ni_dg_map ni) ip @ handed_for ip new"
    and e: "ni_ethernet_address ni' = ni_ethernet_address ni" and ok: "omap_ok (ni_dg_map ni')"
    by (auto simp: moves_def)
  have "list_all2 (sent_as (ni_ethernet_address ni')) (past @ sent) (filter is_ip (out @ ni_frames_out ni'))"
    using list_all2_appendI [OF past(1) fs(2)] fs(1) e by simp
  moreover have "sent_to ip (past @ sent) @ dg_queue (ni_dg_map ni') ip = handed_for ip (subs @ new)" for ip
    using past(2) [of ip] fs(3) [of ip] by (metis append_assoc handed_for_simps(2) sent_to_simps(2))
  moreover have "claimed ni' rcvd' ip eth" if "(ip, eth, dg) \<in> set (past @ sent)" for ip eth dg
    using that past(3) cl claimed_mono [OF _ e] r by (metis Un_iff order_refl set_append)
  ultimately show ?thesis using ok unfolding conserved_def by blast
qed

lemma fresh_times_grow:
  assumes f: "fresh_tables (ni, subs, out, rcvd)" and g: "times_grow ni ni'"
    and k: "ni_ip_to_eth_table ni' = ni_ip_to_eth_table ni" "ni_system_time ni' = ni_system_time ni"
      "ni_ethernet_address ni' = ni_ethernet_address ni"
  shows "fresh_tables (ni', subs', out', rcvd)"
proof -
  from f have o: "omap_ok (ni_ip_to_eth_table ni)" "omap_ok (ni_ip_timeout_table ni)"
    "\<And>ip t. omap_find (ni_ip_timeout_table ni) ip = Some t \<Longrightarrow> recent (ni_system_time ni) t"
    "\<And>ip eth. omap_find (ni_ip_to_eth_table ni) ip = Some eth \<Longrightarrow>
        \<exists>t t0. learned_at ni rcvd ip eth t \<and> unat t \<le> unat (ni_system_time ni) \<and>
           omap_find (ni_ip_timeout_table ni) ip = Some t0 \<and> unat t0 \<le> unat t"
    by (auto simp: fresh_tables_def)
  have find: "omap_find (ni_ip_timeout_table ni') ip = omap_find (ni_ip_timeout_table ni) ip \<or>
      omap_find (ni_ip_timeout_table ni) ip = None \<and> omap_find (ni_ip_timeout_table ni') ip = Some (ni_system_time ni)" for ip
    using g o(2) by (auto simp: times_grow_def om.find_insert split: if_splits)
  have "omap_ok (ni_ip_timeout_table ni')" using g o(2) by (auto simp: times_grow_def)
  moreover have "recent (ni_system_time ni') t" if "omap_find (ni_ip_timeout_table ni') ip = Some t" for ip t
    using find [of ip] o(3) [of ip t] that k(2) by (auto simp: recent_def)
  moreover have "\<exists>t t0. learned_at ni' rcvd ip eth t \<and> unat t \<le> unat (ni_system_time ni') \<and>
      omap_find (ni_ip_timeout_table ni') ip = Some t0 \<and> unat t0 \<le> unat t"
    if "omap_find (ni_ip_to_eth_table ni') ip = Some eth" for ip eth
    using o(4) [of ip eth] that find [of ip] k learned_at_mono [OF _ k(3) order_refl] by fastforce
  ultimately show ?thesis using o(1) k(1) by (simp add: fresh_tables_def)
qed

lemma fresh_learn:
  assumes f: "fresh_tables (ni, subs, out, rcvd)" and m: "arp_in ni f = Some m"
    and t: "ni_ip_to_eth_table ni' = ni_ip_to_eth_table (learn_mapping (am_sender_ip_address m) (eh_src (ef_header f)) ni)"
      "ni_ip_timeout_table ni' = ni_ip_timeout_table (learn_mapping (am_sender_ip_address m) (eh_src (ef_header f)) ni)"
    and k: "ni_system_time ni' = ni_system_time ni" "ni_ethernet_address ni' = ni_ethernet_address ni"
  shows "fresh_tables (ni', subs', out', insert (ni_system_time ni, f) rcvd)"
proof (cases "omap_find (ni_ip_to_eth_table ni) (am_sender_ip_address m)")
  case (Some e)
  then have tb: "ni_ip_to_eth_table ni' = ni_ip_to_eth_table ni" "ni_ip_timeout_table ni' = ni_ip_timeout_table ni"
    using t by (simp_all add: learn_mapping_def)
  have "learned_at ni rcvd ip eth t \<Longrightarrow> learned_at ni' (insert (ni_system_time ni, f) rcvd) ip eth t" for ip eth t
    using learned_at_mono k(2) by blast
  then show ?thesis using f tb k(1) unfolding fresh_tables_def by fastforce
next
  case None
  let ?ip = "am_sender_ip_address m" and ?now = "ni_system_time ni" and ?r = "insert (ni_system_time ni, f) rcvd"
  have tb: "ni_ip_to_eth_table ni' = omap_insert ?ip (eh_src (ef_header f)) (ni_ip_to_eth_table ni)"
    "ni_ip_timeout_table ni' = omap_insert ?ip ?now (ni_ip_timeout_table ni)"
    using t None by (simp_all add: learn_mapping_def)
  from f have o: "omap_ok (ni_ip_to_eth_table ni)" "omap_ok (ni_ip_timeout_table ni)" by (simp_all add: fresh_tables_def)
  have tg: "times_grow ni (ni'\<lparr>ni_ip_to_eth_table := ni_ip_to_eth_table ni\<rparr>)" using tb(2) by (auto simp: times_grow_def)
  have base: "fresh_tables (ni'\<lparr>ni_ip_to_eth_table := ni_ip_to_eth_table ni\<rparr>, subs', out', rcvd)"
    using fresh_times_grow [OF f tg] k by simp
  obtain t0 where t0: "omap_find (ni_ip_timeout_table ni') ?ip = Some t0" "unat t0 \<le> unat ?now"
    using base tb(2) o(2) k(1) by (fastforce simp: fresh_tables_def om.find_insert recent_def split: if_splits)
  have new: "learned_at ni' ?r ?ip (eh_src (ef_header f)) ?now"
    using m arp_in_cong [OF k(2)] by (auto simp: learned_at_def)
  have mono: "learned_at (ni'\<lparr>ni_ip_to_eth_table := ni_ip_to_eth_table ni\<rparr>) rcvd ip eth t \<Longrightarrow> learned_at ni' ?r ip eth t" for ip eth t
    using learned_at_mono [of "ni'\<lparr>ni_ip_to_eth_table := ni_ip_to_eth_table ni\<rparr>" rcvd ip eth t ni' ?r] by auto
  have "\<exists>t t0. learned_at ni' ?r ip eth t \<and> unat t \<le> unat (ni_system_time ni') \<and>
      omap_find (ni_ip_timeout_table ni') ip = Some t0 \<and> unat t0 \<le> unat t"
    if "omap_find (ni_ip_to_eth_table ni') ip = Some eth" for ip eth
  proof (cases "ip = ?ip")
    case True
    with that None have "eth = eh_src (ef_header f)" using o(1) by (simp add: tb(1) om.find_insert)
    with True new t0 k(1) show ?thesis by auto
  next
    case False
    with that have "omap_find (ni_ip_to_eth_table ni) ip = Some eth" using o(1) by (simp add: tb(1) om.find_insert)
    with base mono show ?thesis by (fastforce simp: fresh_tables_def)
  qed
  then show ?thesis using base o(1) by (simp add: fresh_tables_def tb(1))
qed

lemma find_expired:
  assumes "omap_ok m"
  shows "omap_find m ip = Some t \<Longrightarrow> ip \<in> set (expired_ips now m) \<longleftrightarrow> THIRTY_THOUSANDS_MS < now - t"
proof -
  assume f: "omap_find m ip = Some t"
  have "distinct (map fst m)" using assms by (simp add: omap_ok_def strict_sorted_iff)
  then have "(ip, t') \<in> set m \<longleftrightarrow> t' = t" for t' using f by (metis map_of_eq_Some_iff omap_find_def option.inject)
  then show ?thesis by (force simp: expired_ips_def)
qed

lemma fresh_tick:
  assumes f: "fresh_tables (ni, subs, out, rcvd)" and ms: "unat (ni_system_time ni) + unat ms < 18446744073709551616"
  shows "fresh_tables (NetworkInterface_tick ms ni, subs, out, rcvd)"
proof -
  let ?now = "ni_system_time ni + ms" and ?q = "expired_ips (ni_system_time ni + ms) (ni_ip_timeout_table ni)"
  from f have o: "omap_ok (ni_ip_to_eth_table ni)" "omap_ok (ni_ip_timeout_table ni)" by (simp_all add: fresh_tables_def)
  have now: "unat ?now = unat (ni_system_time ni) + unat ms" using ms by (rule unat_add_nowrap)
  have young: "recent ?now t" if "omap_find (ni_ip_timeout_table ni) ip = Some t" "ip \<notin> set ?q" for ip t
  proof -
    have le: "unat t \<le> unat ?now" using f that(1) now by (force simp: fresh_tables_def recent_def)
    then have "unat (?now - t) = unat ?now - unat t" by (intro unat_sub_nowrap)
    moreover have "\<not> THIRTY_THOUSANDS_MS < ?now - t" using find_expired [OF o(2) that(1)] that(2) by blast
    ultimately show ?thesis using le by (simp add: recent_def THIRTY_THOUSANDS_MS_def word_less_nat_alt not_less)
  qed
  have e: "omap_ok (fold omap_erase ?q (ni_ip_to_eth_table ni))" "omap_ok (fold omap_erase ?q (ni_ip_timeout_table ni))"
    "\<And>ip. omap_find (fold omap_erase ?q (ni_ip_to_eth_table ni)) ip = (if ip \<in> set ?q then None else omap_find (ni_ip_to_eth_table ni) ip)"
    "\<And>ip. omap_find (fold omap_erase ?q (ni_ip_timeout_table ni)) ip = (if ip \<in> set ?q then None else omap_find (ni_ip_timeout_table ni) ip)"
    using om.find_fold_erase [OF o(1)] om.find_fold_erase [OF o(2)] by simp_all
  have l: "learned_at (NetworkInterface_tick ms ni) rcvd ip eth t = learned_at ni rcvd ip eth t" for ip eth t
    by (simp add: learned_at_def arp_in_def NetworkInterface_tick_def Let_def)
  have keep: "\<exists>t t0. learned_at ni rcvd ip eth t \<and> unat t \<le> unat ?now \<and>
      omap_find (ni_ip_timeout_table ni) ip = Some t0 \<and> unat t0 \<le> unat t"
    if "omap_find (ni_ip_to_eth_table ni) ip = Some eth" for ip eth
    using f that now by (fastforce simp: fresh_tables_def)
  show ?thesis
    unfolding fresh_tables_def prod.case l
    unfolding NetworkInterface_tick_def Let_def by (auto simp: e intro: young split: if_splits) (use keep in fastforce)
qed

lemma conserved_keep:
  assumes "conserved (ni, subs, out, rcvd)" and "ni_dg_map ni' = ni_dg_map ni" and "rcvd \<subseteq> rcvd'"
    and "ni_ethernet_address ni' = ni_ethernet_address ni" and "out' @ ni_frames_out ni' = out @ ni_frames_out ni"
  shows "conserved (ni', subs, out', rcvd')"
  using assms claimed_mono [OF _ assms(4,3)] unfolding conserved_def prod.case by metis

lemma fresh_mono:
  assumes "fresh_tables (ni, subs, out, rcvd)" and "rcvd \<subseteq> rcvd'"
  shows "fresh_tables (ni, subs', out', rcvd')"
  using assms learned_at_mono [OF _ refl assms(2)] unfolding fresh_tables_def prod.case by meson

lemma if_inv_step:
  assumes "if_inv eth ip s" and "if_step s s'"
  shows "if_inv eth ip s'"
  using assms(2,1)
proof (cases rule: if_step.cases)
  case (if_send next_hop nip dgram ni ni' subs out rcvd)
  have c: "conserved (ni, subs, out, rcvd)" "fresh_tables (ni, subs, out, rcvd)" using assms(1) if_send by (simp_all add: if_inv_def)
  then have "omap_ok (ni_dg_map ni)" by (simp add: conserved_def)
  note mv = send_datagram_moves [OF if_send(4,3) this]
  have "claimed ni rcvd i e" if "(i, e, d) \<in> set (datagrams_released nip dgram ni)" for i e d
  proof -
    have "i = nip" "omap_find (ni_ip_to_eth_table ni) nip = Some e"
      using that by (auto simp: datagrams_released_def split: option.splits)
    then show ?thesis using c(2) by (fastforce simp: fresh_tables_def claimed_def learned_at_def)
  qed
  then have "conserved (ni', subs @ [(nip, dgram)], out, rcvd)" using conserved_moves [OF c(1) _ order_refl] mv by blast
  moreover have k: "ni_system_time ni' = ni_system_time ni" "ni_ethernet_address ni' = ni_ethernet_address ni"
    "ni_ip_address ni' = ni_ip_address ni" using mv by (simp_all add: moves_def)
  moreover have "fresh_tables (ni', subs @ [(nip, dgram)], out, rcvd)" using fresh_times_grow [OF c(2)] mv k by simp
  ultimately show ?thesis using assms(1) if_send(1,2) by (simp add: if_inv_def)
next
  case (if_recv f ni r ni' subs out rcvd)
  have c: "conserved (ni, subs, out, rcvd)" "fresh_tables (ni, subs, out, rcvd)" using assms(1) if_recv by (simp_all add: if_inv_def)
  show ?thesis
  proof (cases "arp_in ni f")
    case None
    then have "ni' = ni" using recv_frame_other if_recv by blast
    moreover have "rcvd \<subseteq> insert (ni_system_time ni, f) rcvd" by blast
    ultimately show ?thesis
      using assms(1) if_recv conserved_keep [OF c(1), of ni] fresh_mono [OF c(2)] by (simp add: if_inv_def)
  next
    case (Some m)
    from c have ok: "omap_ok (ni_dg_map ni)" by (simp add: conserved_def)
    obtain sent where s: "moves ni [] sent ni'"
      "\<And>ip eth dg. (ip, eth, dg) \<in> set sent \<Longrightarrow> ip = am_sender_ip_address m \<and> eth = am_sender_ethernet_address m"
      "ni_ip_to_eth_table ni' = ni_ip_to_eth_table (learn_mapping (am_sender_ip_address m) (eh_src (ef_header f)) ni)"
      "ni_ip_timeout_table ni' = ni_ip_timeout_table (learn_mapping (am_sender_ip_address m) (eh_src (ef_header f)) ni)"
      using recv_frame_moves [OF if_recv(3) Some ok] by metis
    have cl: "claimed ni (insert (ni_system_time ni, f) rcvd) i e" if "(i, e, d) \<in> set sent" for i e d
      using s(2) [OF that] Some by (auto simp: claimed_def)
    have k: "ni_system_time ni' = ni_system_time ni" "ni_ethernet_address ni' = ni_ethernet_address ni"
      "ni_ip_address ni' = ni_ip_address ni" using s(1) by (simp_all add: moves_def)
    have "conserved (ni', subs @ [], out, insert (ni_system_time ni, f) rcvd)"
      using s(1) cl by (intro conserved_moves [OF c(1)]) auto
    moreover have "fresh_tables (ni', subs, out, insert (ni_system_time ni, f) rcvd)"
      by (rule fresh_learn [OF c(2) Some s(3,4) k(1,2)])
    ultimately show ?thesis using assms(1) if_recv(1,2) k by (simp add: if_inv_def)
  qed
next
  case (if_tick ni ms subs out rcvd)
  then show ?thesis
    using assms(1) fresh_tick [of ni subs out rcvd ms] conserved_keep [of ni subs out rcvd "NetworkInterface_tick ms ni" rcvd out]
    by (simp add: if_inv_def NetworkInterface_tick_def Let_def)
next
  case (if_pop ni f fs subs out rcvd)
  have "fresh_tables (ni\<lparr>ni_frames_out := fs\<rparr>, subs, out @ [f], rcvd)" if "fresh_tables (ni, subs, out, rcvd)"
    using fresh_times_grow [OF that, of "ni\<lparr>ni_frames_out := fs\<rparr>"] by (simp add: times_grow_def)
  with if_pop show ?thesis
    using assms(1) conserved_keep [of ni subs out rcvd "ni\<lparr>ni_frames_out := fs\<rparr>" rcvd "out @ [f]"] by (simp add: if_inv_def)
qed

interpretation nif: invariant_system "if_init rs eth ip" if_step "if_inv eth ip"
proof
  fix s assume "if_init rs eth ip s"
  then show "if_inv eth ip s"
    by (auto simp: if_init_def if_inv_def conserved_def fresh_tables_def NetworkInterface_new_def rbind_eq_Inr
        dg_queue_def omap_find_def)
next
  fix s t assume "if_inv eth ip s" "if_step s t"
  then show "if_inv eth ip t" by (rule if_inv_step)
qed

subsection \<open>Properties of all runs\<close>

text \<open>
  C26. In every run of a network interface the datagrams handed over for one next hop are sent in
  that order, each exactly once, and the ones not yet sent are waiting in the queue of that next
  hop: none is lost, duplicated or overtaken. Every IPv4 frame put out carries one of them, comes
  from the interface's own Ethernet address and goes to an address that an ARP message received
  before claims for the next hop.
\<close>

theorem interface_in_order:
  assumes "reach (if_init rs eth ip) if_step (ni, subs, out, rcvd)"
  shows "\<exists>sent. list_all2 (sent_as eth) sent (filter is_ip (out @ ni_frames_out ni)) \<and>
     (\<forall>ip. sent_to ip sent @ dg_queue (ni_dg_map ni) ip = handed_for ip subs) \<and>
     (\<forall>ip e dg. (ip, e, dg) \<in> set sent \<longrightarrow> claimed ni rcvd ip e)"
  using nif.reach_inv [OF assms] by (auto simp: if_inv_def conserved_def)


text \<open>A run: a datagram waits for the reply to the request and is sent.\<close>

definition demo_eth :: "nat \<Rightarrow> ethernet_address" where
  "demo_eth n = [2, 0, 0, 0, 0, of_nat n]"

definition demo_dgram :: ipv4_datagram where
  "demo_dgram = \<lparr>id_header = IPv4Header_new\<lparr>ih_len := 22, ih_src := 1, ih_dst := 2\<rparr>, id_payload = [Buffer_of [7, 8]]\<rparr>"

definition demo_reply :: ethernet_frame where
  "demo_reply = \<lparr>ef_header = \<lparr>eh_dst = demo_eth 1, eh_src = demo_eth 2, eh_type = TYPE_ARP\<rparr>,
     ef_payload = (case ARPMessage_serialize (ARPMessage_new\<lparr>am_opcode := OPCODE_REPLY,
       am_sender_ethernet_address := demo_eth 2, am_sender_ip_address := 2,
       am_target_ethernet_address := demo_eth 1, am_target_ip_address := 1\<rparr>) of
         Inr s \<Rightarrow> BufferList_of_string s | Inl e \<Rightarrow> [])\<rparr>"

lemma demo_interface:
  obtains ni out where "reach (if_init dotted_resolver (demo_eth 1) (inet_address 1 0)) if_step
      (ni, [(2, demo_dgram)], out, {(0, demo_reply)})"
    "omap_find (ni_ip_to_eth_table ni) 2 = Some (demo_eth 2)" "length (filter is_ip (ni_frames_out ni)) = 1" "out = []"
proof -
  let ?R = "reach (if_init dotted_resolver (demo_eth 1) (inet_address 1 0)) if_step"
  define go where "go = rbind (NetworkInterface_new dotted_resolver (demo_eth 1) (inet_address 1 0)) (\<lambda>n0.
    rbind (NetworkInterface_send_datagram demo_dgram (inet_address 2 0) n0) (\<lambda>n1.
    rbind (NetworkInterface_recv_frame demo_reply n1) (\<lambda>(r, n2). Inr (n1, r, n2))))"
  have "(case go of Inr (n1, r, n2) \<Rightarrow> ni_system_time n1 = 0 \<and> omap_find (ni_ip_to_eth_table n2) 2 = Some (demo_eth 2) \<and>
      length (filter is_ip (ni_frames_out n2)) = 1 | _ \<Rightarrow> False)" unfolding go_def by code_simp
  then obtain n0 n1 r n2 where n: "NetworkInterface_new dotted_resolver (demo_eth 1) (inet_address 1 0) = Inr n0"
    "NetworkInterface_send_datagram demo_dgram (inet_address 2 0) n0 = Inr n1"
    "NetworkInterface_recv_frame demo_reply n1 = Inr (r, n2)" "ni_system_time n1 = 0"
    "omap_find (ni_ip_to_eth_table n2) 2 = Some (demo_eth 2)" "length (filter is_ip (ni_frames_out n2)) = 1"
    by (auto simp: go_def rbind_eq_Inr split: sum.splits)
  have "?R (n0, [], [], {})" using n(1) by (intro reach_init) (simp add: if_init_def)
  then have "?R (n1, [(2, demo_dgram)], [], {})"
  proof (rule reach_step)
    show "if_step (n0, [], [], {}) (n1, [(2, demo_dgram)], [], {})"
      using if_send [OF Address_ipv4_numeric_inet n(2), of "[]" "[]" "{}"] by simp
  qed
  then have "?R (n2, [(2, demo_dgram)], [], {(0, demo_reply)})"
  proof (rule reach_step)
    show "if_step (n1, [(2, demo_dgram)], [], {}) (n2, [(2, demo_dgram)], [], {(0, demo_reply)})"
      using if_recv [OF n(3), of "[(2, demo_dgram)]" "[]" "{}"] n(4) by simp
  qed
  with n that show thesis by blast
qed

theorem interface_in_order_witness:
  "\<exists>(ni :: network_interface) sent. length sent = 1 \<and> list_all2 (sent_as (demo_eth 1)) sent (filter is_ip (ni_frames_out ni)) \<and>
     sent_to 2 sent @ dg_queue (ni_dg_map ni) 2 = [demo_dgram]"
proof -
  obtain ni out where r: "reach (if_init dotted_resolver (demo_eth 1) (inet_address 1 0)) if_step
      (ni, [(2, demo_dgram)], out, {(0, demo_reply)})" "length (filter is_ip (ni_frames_out ni)) = 1" "out = []"
    using demo_interface by metis
  from interface_in_order [OF r(1)] r(3) obtain sent where
    s: "list_all2 (sent_as (demo_eth 1)) sent (filter is_ip (ni_frames_out ni))"
      "sent_to 2 sent @ dg_queue (ni_dg_map ni) 2 = handed_for 2 [(2, demo_dgram)]" by auto
  from list_all2_lengthD [OF s(1)] s r(2) show ?thesis by (intro exI [of _ ni] exI [of _ sent]) simp
qed


end
