(* ===== verification/Address_Resolution.thy ===== *)
theory Address_Resolution
  imports Interface_Runs
begin

text \<open>
  Two network interfaces on one Ethernet: the request that the first datagram causes, the reply
  to it, and the datagram that the reply sets free, each frame carried from one interface to the
  other.
\<close>

lemma arp_in_frame:
  assumes ok: "arp_ok m" and s: "ARPMessage_serialize m = Inr s"
    and h: "ef_header f = \<lparr>eh_dst = d, eh_src = e, eh_type = TYPE_ARP\<rparr>" "d = ETHERNET_BROADCAST \<or> d = ni_ethernet_address ni"
    and p: "ef_payload f = BufferList_of_string s"
  shows "arp_in ni f = Some m"
proof -
  have len: "length s = 28" and parse: "\<And>m0 b. buffer_ok b \<Longrightarrow> Buffer_str b = s \<Longrightarrow> ARPMessage_parse m0 b = Inr (NoError, m)"
    using arp_roundtrip [OF ok] s by (metis sum.inject(2))+
  then have "BufferList_concatenate (ef_payload f) = s" using p by (simp add: BufferList_of_string_def BufferList_concatenate_eq)
  with parse [of "Buffer_of s" ARPMessage_new] len h show ?thesis by (simp add: arp_in_def)
qed

text \<open>The two messages of an exchange.\<close>

definition arp_request_for :: "ethernet_address \<Rightarrow> u32 \<Rightarrow> u32 \<Rightarrow> arp_message" where
  "arp_request_for eth own ip = ARPMessage_new\<lparr>am_opcode := OPCODE_REQUEST, am_sender_ethernet_address := eth,
     am_sender_ip_address := own, am_target_ip_address := ip\<rparr>"

definition arp_reply_to :: "ethernet_address \<Rightarrow> u32 \<Rightarrow> ethernet_address \<Rightarrow> u32 \<Rightarrow> arp_message" where
  "arp_reply_to eth own dest ip = ARPMessage_new\<lparr>am_opcode := OPCODE_REPLY, am_sender_ethernet_address := eth,
     am_target_ethernet_address := dest, am_sender_ip_address := own, am_target_ip_address := ip\<rparr>"

lemma arp_messages_ok:
  "addr_ok eth \<Longrightarrow> arp_ok (arp_request_for eth own ip)"
  "addr_ok eth \<Longrightarrow> addr_ok dest \<Longrightarrow> arp_ok (arp_reply_to eth own dest ip)"
  by (simp_all add: arp_ok_def ARPMessage_supported_def ARPMessage_new_def arp_request_for_def arp_reply_to_def addr_ok_def)

lemma send_arp_request_ok:
  assumes "addr_ok (ni_ethernet_address ni)" and "Address_ipv4_numeric (ni_ip_address ni) = Inr own"
  obtains f where "send_arp_request ip ni = Inr (ni\<lparr>ni_frames_out := ni_frames_out ni @ [f]\<rparr>)"
    "eh_src (ef_header f) = ni_ethernet_address ni"
    "\<And>nj. arp_in nj f = Some (arp_request_for (ni_ethernet_address ni) own ip)"
proof -
  let ?m = "arp_request_for (ni_ethernet_address ni) own ip"
  obtain s where s: "ARPMessage_serialize ?m = Inr s" using arp_roundtrip [OF arp_messages_ok(1) [OF assms(1)]] by metis
  let ?f = "\<lparr>ef_header = \<lparr>eh_dst = ETHERNET_BROADCAST, eh_src = ni_ethernet_address ni, eh_type = TYPE_ARP\<rparr>,
    ef_payload = BufferList_of_string s\<rparr>"
  have "arp_in nj ?f = Some ?m" for nj by (rule arp_in_frame [OF arp_messages_ok(1) [OF assms(1)] s, where d = ETHERNET_BROADCAST]) simp_all
  then show thesis using assms(2) s by (intro that [of ?f]) (simp_all add: send_arp_request_def Let_def arp_request_for_def)
qed

lemma send_arp_reply_ok:
  assumes "addr_ok (ni_ethernet_address ni)" and "addr_ok dest"
  obtains f where "send_arp_reply dest own ip ni = Inr (ni\<lparr>ni_frames_out := ni_frames_out ni @ [f]\<rparr>)"
    "eh_src (ef_header f) = ni_ethernet_address ni"
    "\<And>nj. ni_ethernet_address nj = dest \<Longrightarrow> arp_in nj f = Some (arp_reply_to (ni_ethernet_address ni) own dest ip)"
proof -
  let ?m = "arp_reply_to (ni_ethernet_address ni) own dest ip"
  obtain s where s: "ARPMessage_serialize ?m = Inr s" using arp_roundtrip [OF arp_messages_ok(2) [OF assms]] by metis
  let ?f = "\<lparr>ef_header = \<lparr>eh_dst = dest, eh_src = ni_ethernet_address ni, eh_type = TYPE_ARP\<rparr>, ef_payload = BufferList_of_string s\<rparr>"
  have "arp_in nj ?f = Some ?m" if "ni_ethernet_address nj = dest" for nj
    by (rule arp_in_frame [OF arp_messages_ok(2) [OF assms] s, where d = dest]) (simp_all add: that)
  then show thesis using s by (intro that [of ?f]) (simp_all add: send_arp_reply_def Let_def arp_reply_to_def)
qed

text \<open>The frame of a datagram is handed to the network layer of the interface it is addressed to.\<close>

lemma recv_frame_datagram:
  assumes ok: "datagram_ok dg" and f: "sent_as src (ip, ni_ethernet_address ni, dg) f"
  obtains dg' c where "NetworkInterface_recv_frame f ni = Inr (Some dg', ni)" "same_datagram dg c dg'"
proof -
  obtain bl c where bl: "IPv4Datagram_serialize dg = Inr bl" "length (BufferList_concatenate bl) = unat (ih_len (id_header dg))"
    "\<And>dg0 b. buffer_ok b \<Longrightarrow> Buffer_str b = BufferList_concatenate bl \<Longrightarrow>
       \<exists>dg'. IPv4Datagram_parse dg0 b = Inr (NoError, dg') \<and> same_datagram dg c dg'"
    using datagram_roundtrip [OF ok] by metis
  have short: "str_ok (BufferList_concatenate bl)" using bl(2) unat16_lt [of "ih_len (id_header dg)"] by linarith
  have p: "ef_payload f = bl" "ef_header f = \<lparr>eh_dst = ni_ethernet_address ni, eh_src = src, eh_type = TYPE_IPv4\<rparr>"
    using f bl(1) by (simp_all add: sent_as_def)
  obtain dg' where "IPv4Datagram_parse IPv4Datagram_new (Buffer_of (BufferList_concatenate bl)) = Inr (NoError, dg')"
    "same_datagram dg c dg'" using bl(3) [of "Buffer_of (BufferList_concatenate bl)" IPv4Datagram_new] short by auto
  with p show thesis by (intro that [of dg' c]) (simp_all add: NetworkInterface_recv_frame_def Let_def)
qed

lemma flush_buffer_single:
  assumes ok: "datagram_ok dg" "omap_ok (ni_dg_map ni)" and q: "dg_queue (ni_dg_map ni) ip = [dg]"
  obtains f m where "NetworkInterface_flush_buffer ip eth ni = Inr (ni\<lparr>ni_dg_map := m, ni_frames_out := ni_frames_out ni @ [f]\<rparr>)"
    "sent_as (ni_ethernet_address ni) (ip, eth, dg) f"
proof -
  obtain bl where bl: "IPv4Datagram_serialize dg = Inr bl" using datagram_roundtrip [OF ok(1)] by metis
  let ?f = "\<lparr>ef_header = \<lparr>eh_dst = eth, eh_src = ni_ethernet_address ni, eh_type = TYPE_IPv4\<rparr>, ef_payload = bl\<rparr>"
  show thesis
    using ok(2) q bl
    by (intro that [of ?f "omap_assign ip [] (omap_insert ip [] (ni_dg_map ni))"])
      (simp_all add: NetworkInterface_flush_buffer_def Let_def sent_as_def)
qed

text \<open>Both interfaces of an exchange; the first one has not asked for the address of the second yet.\<close>

definition may_ask :: "network_interface \<Rightarrow> u32 \<Rightarrow> u32 \<Rightarrow> bool" where
  "may_ask ni own ip \<longleftrightarrow> addr_ok (ni_ethernet_address ni) \<and> Address_ipv4_numeric (ni_ip_address ni) = Inr own \<and>
     omap_ok (ni_dg_map ni) \<and> dg_queue (ni_dg_map ni) ip = [] \<and>
     omap_find (ni_ip_to_eth_table ni) ip = None \<and> omap_find (ni_ip_timeout_table ni) ip = None"

lemma recv_request:
  assumes m: "arp_in ni f = Some (arp_request_for e own ip)" and "eh_src (ef_header f) = e" and "addr_ok e"
    and "addr_ok (ni_ethernet_address ni)" and "Address_ipv4_numeric (ni_ip_address ni) = Inr ip"
  obtains g ni' where "NetworkInterface_recv_frame f ni = Inr (None, ni')"
    "ni_ethernet_address ni' = ni_ethernet_address ni" "ni_frames_out ni' = ni_frames_out ni @ [g]"
    "eh_src (ef_header g) = ni_ethernet_address ni"
    "\<And>nj. ni_ethernet_address nj = e \<Longrightarrow> arp_in nj g = Some (arp_reply_to (ni_ethernet_address ni) ip e own)"
proof -
  let ?ni = "learn_mapping own e ni"
  obtain g where g: "send_arp_reply e ip own ?ni = Inr (?ni\<lparr>ni_frames_out := ni_frames_out ?ni @ [g]\<rparr>)"
    "eh_src (ef_header g) = ni_ethernet_address ?ni"
    "\<And>nj. ni_ethernet_address nj = e \<Longrightarrow> arp_in nj g = Some (arp_reply_to (ni_ethernet_address ?ni) ip e own)"
    using send_arp_reply_ok [of ?ni e ip own] assms(3,4) by (metis learn_mapping_simps(4))
  have "NetworkInterface_recv_frame f ni = Inr (None, ?ni\<lparr>ni_frames_out := ni_frames_out ?ni @ [g]\<rparr>)"
    using assms(2,5) g(1) by (simp add: recv_frame_arp_eq [OF m] arp_request_for_def)
  then show thesis using g(2,3) by (intro that [of "?ni\<lparr>ni_frames_out := ni_frames_out ?ni @ [g]\<rparr>" g]) simp_all
qed

lemma recv_reply:
  assumes m: "arp_in ni g = Some (arp_reply_to e ip d own)" and "eh_src (ef_header g) = e"
    and "Address_ipv4_numeric (ni_ip_address ni) = Inr own" and "omap_ok (ni_dg_map ni)"
    and "dg_queue (ni_dg_map ni) ip = [dg]" and "datagram_ok dg"
  obtains h ni' where "NetworkInterface_recv_frame g ni = Inr (None, ni')" "ni_frames_out ni' = ni_frames_out ni @ [h]"
    "sent_as (ni_ethernet_address ni) (ip, e, dg) h"
proof -
  let ?ni = "learn_mapping ip e ni"
  have q: "omap_ok (ni_dg_map ?ni)" "dg_queue (ni_dg_map ?ni) ip = [dg]" using assms(4,5) by simp_all
  from assms(6) q obtain h mp where
    h: "NetworkInterface_flush_buffer ip e ?ni = Inr (?ni\<lparr>ni_dg_map := mp, ni_frames_out := ni_frames_out ?ni @ [h]\<rparr>)"
    "sent_as (ni_ethernet_address ?ni) (ip, e, dg) h" by (rule flush_buffer_single)
  have "NetworkInterface_recv_frame g ni = Inr (None, ?ni\<lparr>ni_dg_map := mp, ni_frames_out := ni_frames_out ?ni @ [h]\<rparr>)"
    using assms(2,3) h(1)
    by (simp add: recv_frame_arp_eq [OF m] arp_reply_to_def OPCODE_REPLY_def OPCODE_REQUEST_def)
  then show thesis using h(2)
    by (intro that [of "?ni\<lparr>ni_dg_map := mp, ni_frames_out := ni_frames_out ?ni @ [h]\<rparr>" h]) simp_all
qed

text \<open>
  C27. Address resolution delivers the datagram. When an interface sends a datagram to a neighbour
  whose Ethernet address it does not know, it broadcasts one request; the neighbour answers it
  with one reply; the reply makes the first interface send exactly the datagram, to the
  neighbour's address; and the neighbour hands up the same datagram, with the checksum of its
  header filled in.
\<close>

theorem resolution_delivers:
  assumes "may_ask A ia ib" and "addr_ok (ni_ethernet_address B)" and "Address_ipv4_numeric (ni_ip_address B) = Inr ib"
    and "Address_ipv4_numeric next_hop = Inr ib" and "datagram_ok dg"
  shows "\<exists>A1 request B1 reply A2 f dg' c.
     NetworkInterface_send_datagram dg next_hop A = Inr A1 \<and> ni_frames_out A1 = ni_frames_out A @ [request] \<and>
     NetworkInterface_recv_frame request B = Inr (None, B1) \<and> ni_frames_out B1 = ni_frames_out B @ [reply] \<and>
     NetworkInterface_recv_frame reply A1 = Inr (None, A2) \<and> ni_frames_out A2 = ni_frames_out A1 @ [f] \<and>
     sent_as (ni_ethernet_address A) (ib, ni_ethernet_address B, dg) f \<and>
     NetworkInterface_recv_frame f B1 = Inr (Some dg', B1) \<and> same_datagram dg c dg'"
proof -
  let ?Q = "ni_queued ib dg A" and ?ea = "ni_ethernet_address A" and ?eb = "ni_ethernet_address B"
  have a: "addr_ok ?ea" "Address_ipv4_numeric (ni_ip_address A) = Inr ia" "omap_ok (ni_dg_map A)" "dg_queue (ni_dg_map A) ib = []"
    "omap_find (ni_ip_to_eth_table A) ib = None" "omap_find (ni_ip_timeout_table A) ib = None"
    using assms(1) by (simp_all add: may_ask_def)
  obtain f where f: "send_arp_request ib ?Q = Inr (?Q\<lparr>ni_frames_out := ni_frames_out ?Q @ [f]\<rparr>)" "eh_src (ef_header f) = ?ea"
    "\<And>nj. arp_in nj f = Some (arp_request_for ?ea ia ib)"
    using send_arp_request_ok [of ?Q ia ib] a(1,2) by (metis ni_queued_simps(5,6))
  define A1 where "A1 = ?Q\<lparr>ni_frames_out := ni_frames_out A @ [f], ni_ip_timeout_table := omap_insert ib (ni_system_time A) (ni_ip_timeout_table A)\<rparr>"
  have A1: "NetworkInterface_send_datagram dg next_hop A = Inr A1"
    using send_datagram_cases(2) [OF assms(4) a(5,6)] f(1) by (simp add: A1_def)
  obtain g B1 where g: "NetworkInterface_recv_frame f B = Inr (None, B1)" "ni_ethernet_address B1 = ?eb"
    "ni_frames_out B1 = ni_frames_out B @ [g]" "eh_src (ef_header g) = ?eb"
    "\<And>nj. ni_ethernet_address nj = ?ea \<Longrightarrow> arp_in nj g = Some (arp_reply_to ?eb ib ?ea ia)"
    using recv_request [OF f(3,2) a(1) assms(2,3)] by metis
  have A1': "ni_ethernet_address A1 = ?ea" "Address_ipv4_numeric (ni_ip_address A1) = Inr ia" "omap_ok (ni_dg_map A1)"
    "dg_queue (ni_dg_map A1) ib = [dg]" "ni_frames_out A1 = ni_frames_out A @ [f]"
    using a by (simp_all add: A1_def)
  obtain h A2 where h: "NetworkInterface_recv_frame g A1 = Inr (None, A2)" "ni_frames_out A2 = ni_frames_out A1 @ [h]"
    "sent_as ?ea (ib, ?eb, dg) h"
    using recv_reply [OF g(5) [OF A1'(1)] g(4) A1'(2-4) assms(5)] A1'(1) by metis
  have "sent_as ?ea (ib, ni_ethernet_address B1, dg) h" using h(3) g(2) by simp
  with assms(5) obtain dg' c where "NetworkInterface_recv_frame h B1 = Inr (Some dg', B1)" "same_datagram dg c dg'"
    by (rule recv_frame_datagram)
  with A1 A1'(5) g(1,3) h show ?thesis by blast
qed

definition demo_interface_at :: "nat \<Rightarrow> u32 \<Rightarrow> network_interface" where
  "demo_interface_at n ip = \<lparr>ni_ethernet_address = demo_eth n, ni_ip_address = inet_address ip 0, ni_frames_out = [],
     ni_ip_to_eth_table = [], ni_ip_timeout_table = [], ni_dg_map = [], ni_system_time = 0\<rparr>"

theorem resolution_delivers_witness:
  "\<exists>A1 request B1 reply A2 f dg' c.
     NetworkInterface_send_datagram demo_dgram (inet_address 2 0) (demo_interface_at 1 1) = Inr A1 \<and>
     ni_frames_out A1 = ni_frames_out (demo_interface_at 1 1) @ [request] \<and>
     NetworkInterface_recv_frame request (demo_interface_at 2 2) = Inr (None, B1) \<and>
     ni_frames_out B1 = ni_frames_out (demo_interface_at 2 2) @ [reply] \<and>
     NetworkInterface_recv_frame reply A1 = Inr (None, A2) \<and> ni_frames_out A2 = ni_frames_out A1 @ [f] \<and>
     sent_as (ni_ethernet_address (demo_interface_at 1 1)) (2, ni_ethernet_address (demo_interface_at 2 2), demo_dgram) f \<and>
     NetworkInterface_recv_frame f B1 = Inr (Some dg', B1) \<and> same_datagram demo_dgram c dg'"
  by (rule resolution_delivers [where ia = 1])
    (simp_all add: may_ask_def demo_interface_at_def demo_eth_def addr_ok_def dg_queue_def omap_find_def demo_dgram_def
      datagram_ok_def ip_header_ok_def IPv4Header_new_def BufferList_concatenate_eq)

text \<open>
  A finding: the time of a request is never renewed. Once more than five seconds have passed
  since the first request for an address that stays silent, every further datagram for it
  broadcasts another request, without any pause, until the entry expires; the interval of five
  seconds only delays the second request.
\<close>

theorem requests_repeat:
  assumes "addr_ok (ni_ethernet_address ni)" and "Address_ipv4_numeric (ni_ip_address ni) = Inr own"
    and "Address_ipv4_numeric next_hop = Inr ip" and "omap_find (ni_ip_to_eth_table ni) ip = None"
    and "omap_find (ni_ip_timeout_table ni) ip = Some t" and "5000 < ni_system_time ni - t"
  shows "\<exists>ni' fs. fold (\<lambda>dg r. rbind r (NetworkInterface_send_datagram dg next_hop)) dgs (Inr ni) = Inr ni' \<and>
     ni_frames_out ni' = ni_frames_out ni @ fs \<and> length fs = length dgs \<and>
     (\<forall>f \<in> set fs. \<forall>nj. arp_in nj f = Some (arp_request_for (ni_ethernet_address ni) own ip))"
  using assms
proof (induction dgs arbitrary: ni)
  case (Cons dg dgs)
  let ?Q = "ni_queued ip dg ni"
  obtain f where f: "send_arp_request ip ?Q = Inr (?Q\<lparr>ni_frames_out := ni_frames_out ?Q @ [f]\<rparr>)"
    "\<And>nj. arp_in nj f = Some (arp_request_for (ni_ethernet_address ni) own ip)"
    using send_arp_request_ok [of ?Q own ip] Cons.prems(1,2) by (metis ni_queued_simps(5,6))
  let ?ni = "?Q\<lparr>ni_frames_out := ni_frames_out ?Q @ [f]\<rparr>"
  have step: "NetworkInterface_send_datagram dg next_hop ni = Inr ?ni"
    using send_datagram_cases(3) [OF Cons.prems(3-5)] Cons.prems(6) f(1) by (simp add: FIVE_THOUSANDS_MS_def)
  have "\<exists>ni' fs. fold (\<lambda>dg r. rbind r (NetworkInterface_send_datagram dg next_hop)) dgs (Inr ?ni) = Inr ni' \<and>
      ni_frames_out ni' = ni_frames_out ?ni @ fs \<and> length fs = length dgs \<and>
      (\<forall>f \<in> set fs. \<forall>nj. arp_in nj f = Some (arp_request_for (ni_ethernet_address ?ni) own ip))"
    using Cons.prems by (intro Cons.IH) simp_all
  then obtain ni' fs where "fold (\<lambda>dg r. rbind r (NetworkInterface_send_datagram dg next_hop)) dgs (Inr ?ni) = Inr ni'"
    "ni_frames_out ni' = ni_frames_out ni @ f # fs" "length fs = length dgs"
    "\<forall>f \<in> set fs. \<forall>nj. arp_in nj f = Some (arp_request_for (ni_ethernet_address ni) own ip)" by auto
  with step f(2) show ?case by (intro exI [of _ ni'] exI [of _ "f # fs"]) simp
qed simp

theorem requests_repeat_witness:
  "\<exists>ni' fs. fold (\<lambda>dg r. rbind r (NetworkInterface_send_datagram dg (inet_address 2 0))) (replicate 3 demo_dgram)
       (Inr ((demo_interface_at 1 1)\<lparr>ni_ip_timeout_table := [(2, 0)], ni_system_time := 6000\<rparr>)) = Inr ni' \<and>
     ni_frames_out ni' = fs \<and> length fs = 3"
proof -
  let ?ni = "(demo_interface_at 1 1)\<lparr>ni_ip_timeout_table := [(2, 0)], ni_system_time := 6000\<rparr>"
  have "addr_ok (ni_ethernet_address ?ni)" "Address_ipv4_numeric (ni_ip_address ?ni) = Inr 1"
    "omap_find (ni_ip_to_eth_table ?ni) 2 = None" "omap_find (ni_ip_timeout_table ?ni) 2 = Some 0"
    "5000 < ni_system_time ?ni - 0" "ni_frames_out ?ni = []"
    by (simp_all add: demo_interface_at_def demo_eth_def addr_ok_def omap_find_def)
  with requests_repeat [of ?ni 1 "inet_address 2 0" 2 0 "replicate 3 demo_dgram"] show ?thesis by auto
qed

end
