(* ===== verification/Router.thy ===== *)
theory Router
  imports Address_Resolution
begin

text \<open>
  \<^verbatim>\<open>libsponge/router.hh\<close> and \<^verbatim>\<open>router.cc\<close>: the interface that keeps received datagrams, the routing
  table and the router that moves datagrams between its interfaces. The routing table is a
  \<^verbatim>\<open>std::map\<close> with a comparison that holds of equal prefix lengths. The standard leaves such a map
  undefined; the model is what the search tree does with that comparison: an entry goes before
  the first one that it compares to, and none is ever recognised as already present.
\<close>

subsection \<open>State and operations\<close>

type_synonym routing_info = "u8 \<times> u32"

type_synonym next_hop = "address option \<times> u64"

definition compare_prefix_length :: "routing_info \<Rightarrow> routing_info \<Rightarrow> bool" where
  "compare_prefix_length rf1 rf2 = (if fst rf1 \<le> fst rf2 then True else False)"

fun rtable_insert :: "routing_info \<Rightarrow> next_hop \<Rightarrow> (routing_info \<times> next_hop) list \<Rightarrow> (routing_info \<times> next_hop) list" where
  "rtable_insert k v [] = [(k, v)]"
| "rtable_insert k v (e # m) =
     (if compare_prefix_length k (fst e) then (k, v) # e # m else e # rtable_insert k v m)"

record async_interface =
  ai_interface :: network_interface
  ai_datagrams_out :: "ipv4_datagram list"

definition AsyncNetworkInterface_new :: "network_interface \<Rightarrow> async_interface" where
  "AsyncNetworkInterface_new ni = \<lparr>ai_interface = ni, ai_datagrams_out = []\<rparr>"

definition AsyncNetworkInterface_recv_frame :: "ethernet_frame \<Rightarrow> async_interface \<Rightarrow> async_interface res" where
  "AsyncNetworkInterface_recv_frame frame ai =
     rbind (NetworkInterface_recv_frame frame (ai_interface ai)) (\<lambda>(optional_dgram, ni).
     Inr (case optional_dgram of
            None \<Rightarrow> ai\<lparr>ai_interface := ni\<rparr>
          | Some dgram \<Rightarrow> ai\<lparr>ai_interface := ni, ai_datagrams_out := ai_datagrams_out ai @ [dgram]\<rparr>))"

record router =
  rt_interfaces :: "async_interface list"
  rt_rtable :: "(routing_info \<times> next_hop) list"

definition Router_new :: router where
  "Router_new = \<lparr>rt_interfaces = [], rt_rtable = []\<rparr>"

definition Router_add_interface :: "async_interface \<Rightarrow> router \<Rightarrow> u64 \<times> router" where
  "Router_add_interface ai r =
     (let r = r\<lparr>rt_interfaces := rt_interfaces r @ [ai]\<rparr> in (size64 (rt_interfaces r) - 1, r))"

definition Router_interface :: "u64 \<Rightarrow> router \<Rightarrow> async_interface res" where
  "Router_interface N r =
     (if N < size64 (rt_interfaces r) then Inr (rt_interfaces r ! unat N) else Inl (Out_of_range ''at''))"

definition Router_add_route ::
  "resolver \<Rightarrow> u32 \<Rightarrow> u8 \<Rightarrow> address option \<Rightarrow> u64 \<Rightarrow> router \<Rightarrow> router res" where
  "Router_add_route rs route_prefix prefix_length next_hop interface_num r =
     rbind (Address_from_ipv4_numeric route_prefix) (\<lambda>a.
     rbind (Address_ip rs a) (\<lambda>_.
     rbind (case next_hop of None \<Rightarrow> Inr ''(direct)'' | Some h \<Rightarrow> Address_ip rs h) (\<lambda>_.
     let r_info = (prefix_length, route_prefix); n_hop = (next_hop, interface_num)
     in Inr (r\<lparr>rt_rtable := rtable_insert r_info n_hop (rt_rtable r)\<rparr>))))"

text \<open>
  For a prefix of one bit, \<^verbatim>\<open>1 << 31\<close> is the smallest \<^verbatim>\<open>int\<close>, and taking one from it overflows.
\<close>

definition mask_net :: "u32 \<Rightarrow> u8 \<Rightarrow> u32 res" where
  "mask_net ip prefix_length =
     (if 32 < prefix_length then Inr 0
      else if 0 < prefix_length then
        if prefix_length = 1 then Inl (Undefined_behaviour ''mask_net: signed overflow'')
        else Inr (ip AND (0xFFFFFFFF - (push_bit (32 - unat prefix_length) 1 - 1)))
      else Inr 0)"

fun find_route :: "u32 \<Rightarrow> (routing_info \<times> next_hop) list \<Rightarrow> next_hop option res" where
  "find_route ip [] = Inr None"
| "find_route ip (it # its) =
     rbind (mask_net ip (fst (fst it))) (\<lambda>m.
     if snd (fst it) = m then Inr (Some (snd it)) else find_route ip its)"

definition send_from :: "u64 \<Rightarrow> ipv4_datagram \<Rightarrow> address \<Rightarrow> router \<Rightarrow> router res" where
  "send_from n dgram hop r =
     (if n < size64 (rt_interfaces r) then
        rbind (NetworkInterface_send_datagram dgram hop (ai_interface (rt_interfaces r ! unat n))) (\<lambda>ni.
        Inr (r\<lparr>rt_interfaces := (rt_interfaces r)[unat n := (rt_interfaces r ! unat n)\<lparr>ai_interface := ni\<rparr>]\<rparr>))
      else Inl (Undefined_behaviour ''Router: _interfaces''))"

definition Router_route_one_datagram :: "ipv4_datagram \<Rightarrow> router \<Rightarrow> router res" where
  "Router_route_one_datagram dgram r =
     (let ip = ih_dst (id_header dgram) in
      rbind (find_route ip (rev (rt_rtable r))) (\<lambda>it.
      case it of
        None \<Rightarrow> Inr r
      | Some (hop, n) \<Rightarrow>
          let dgram = (if 0 < ih_ttl (id_header dgram)
                then dgram\<lparr>id_header := (id_header dgram)\<lparr>ih_ttl := ih_ttl (id_header dgram) - 1\<rparr>\<rparr> else dgram)
          in
          if ih_ttl (id_header dgram) = 0 then Inr r
          else case hop of
            Some a \<Rightarrow> send_from n dgram a r
          | None \<Rightarrow> rbind (Address_from_ipv4_numeric (ih_dst (id_header dgram))) (\<lambda>a. send_from n dgram a r)))"

text \<open>The queue of one interface, from its front, and all interfaces in turn.\<close>

fun route_queue :: "nat \<Rightarrow> ipv4_datagram list \<Rightarrow> router \<Rightarrow> router res" where
  "route_queue i [] r = Inr r"
| "route_queue i (dgram # q) r =
     rbind (Router_route_one_datagram dgram r) (\<lambda>r.
     route_queue i q (r\<lparr>rt_interfaces := (rt_interfaces r)[i := (rt_interfaces r ! i)\<lparr>ai_datagrams_out := q\<rparr>]\<rparr>))"

fun route_interfaces :: "nat list \<Rightarrow> router \<Rightarrow> router res" where
  "route_interfaces [] r = Inr r"
| "route_interfaces (i # is) r =
     rbind (route_queue i (ai_datagrams_out (rt_interfaces r ! i)) r) (\<lambda>r. route_interfaces is r)"

definition Router_route :: "router \<Rightarrow> router res" where
  "Router_route r = route_interfaces [0 ..< length (rt_interfaces r)] r"

subsection \<open>Prefixes\<close>

text \<open>A prefix covers an address when it is the address with the remaining bits cleared.\<close>

definition covers :: "u32 \<Rightarrow> u8 \<Rightarrow> u32 \<Rightarrow> bool" where
  "covers prefix len ip \<longleftrightarrow> (\<forall>n < 32. bit prefix n \<longleftrightarrow> bit ip n \<and> 32 \<le> n + unat len)"

text \<open>Prefix lengths that the mask is defined for.\<close>

definition len_ok :: "u8 \<Rightarrow> bool" where
  "len_ok len \<longleftrightarrow> len \<le> 32 \<and> len \<noteq> 1"

lemma mask_net_covers:
  assumes "len_ok len"
  shows "\<exists>m. mask_net ip len = Inr m \<and> (prefix = m \<longleftrightarrow> covers prefix len ip)"
proof (cases "len = 0")
  case True
  have "bit prefix n \<Longrightarrow> n < 32" for n by (drule bit_imp_le_length) simp
  moreover have "unat len = 0" using True by simp
  ultimately have "prefix = 0 \<longleftrightarrow> covers prefix len ip"
    unfolding covers_def bit_eq_iff [of prefix] by auto
  with True show ?thesis by (simp add: mask_net_def)
next
  case False
  let ?k = "32 - unat len"
  have l: "unat len \<le> 32" "0 < unat len" "0 < len" "\<not> 32 < len" "len \<noteq> 1"
    using assms False by (simp_all add: len_ok_def word_le_nat_alt word_neq_0_conv unat_gt_0 not_less)
  have "(0xFFFFFFFF :: u32) - (push_bit ?k 1 - 1) = NOT (mask ?k)"
    unfolding mask_eq_exp_minus_1 push_bit_eq_mult not_eq_complement by simp
  then have m: "mask_net ip len = Inr (ip AND NOT (mask ?k))" using l by (simp add: mask_net_def)
  have "prefix = ip AND NOT (mask ?k) \<longleftrightarrow> (\<forall>n < 32. bit prefix n \<longleftrightarrow> bit ip n \<and> \<not> n < ?k)"
    by (auto simp: bit_word_eqI bit_eq_iff bit_simps)
  also have "\<dots> \<longleftrightarrow> covers prefix len ip" using l(1) by (auto simp: covers_def)
  finally show ?thesis using m by blast
qed

subsection \<open>The routing table\<close>

definition entry_covers :: "u32 \<Rightarrow> routing_info \<times> next_hop \<Rightarrow> bool" where
  "entry_covers ip e \<longleftrightarrow> covers (snd (fst e)) (fst (fst e)) ip"

lemma find_route_eq:
  assumes "\<And>e. e \<in> set its \<Longrightarrow> len_ok (fst (fst e))"
  shows "find_route ip its = Inr (map_option snd (find (entry_covers ip) its))"
  using assms
proof (induction its)
  case (Cons e its)
  obtain m where "mask_net ip (fst (fst e)) = Inr m" "snd (fst e) = m \<longleftrightarrow> entry_covers ip e"
    using mask_net_covers [of "fst (fst e)" ip "snd (fst e)"] Cons.prems by (auto simp: entry_covers_def)
  with Cons show ?case by simp
qed simp

lemma find_append: "find P (xs @ ys) = (case find P xs of Some x \<Rightarrow> Some x | None \<Rightarrow> find P ys)"
  by (induction xs) simp_all

lemma set_rtable_insert: "set (rtable_insert k v m) = insert (k, v) (set m)"
  by (induction m) auto

definition rtable_sorted :: "(routing_info \<times> next_hop) list \<Rightarrow> bool" where
  "rtable_sorted m \<longleftrightarrow> sorted (map (fst \<circ> fst) m)"

lemma rtable_sorted_insert: "rtable_sorted m \<Longrightarrow> rtable_sorted (rtable_insert k v m)"
  by (induction m) (auto simp: rtable_sorted_def compare_prefix_length_def set_rtable_insert)

text \<open>From the back of the table, a new entry is found before shorter ones and after longer and equal ones.\<close>

lemma find_rtable_insert:
  assumes "rtable_sorted m"
  shows "find P (rev (rtable_insert k v m)) = (case find P (rev m) of
      Some e \<Rightarrow> if P (k, v) \<and> fst (fst e) < fst k then Some (k, v) else Some e
    | None \<Rightarrow> if P (k, v) then Some (k, v) else None)"
  using assms
proof (induction m)
  case (Cons e m)
  have s: "rtable_sorted m" "\<And>x. x \<in> set m \<Longrightarrow> fst (fst e) \<le> fst (fst x)"
    using Cons.prems by (auto simp: rtable_sorted_def)
  have in_m: "x \<in> set m" if "find P (rev m) = Some x" for x using that by (auto simp: find_Some_iff in_set_conv_nth rev_nth)
      (metis diff_Suc_less length_greater_0_conv list.size(3) not_less_zero)
  show ?case
  proof (cases "fst k \<le> fst (fst e)")
    case True
    then have "\<not> fst (fst x) < fst k" if "find P (rev m) = Some x" for x using s(2) [OF in_m [OF that]] by simp
    with True show ?thesis by (auto simp: compare_prefix_length_def find_append split: option.splits)
  next
    case False
    with Cons.IH [OF s(1)] show ?thesis by (auto simp: compare_prefix_length_def find_append split: option.splits)
  qed
qed simp

type_synonym route = "u32 \<times> u8 \<times> address option \<times> u64"

definition add_routes :: "resolver \<Rightarrow> route list \<Rightarrow> router \<Rightarrow> router res" where
  "add_routes rs routes r = fold (\<lambda>(p, l, h, n) r. rbind r (Router_add_route rs p l h n)) routes (Inr r)"

definition route_covers :: "u32 \<Rightarrow> route \<Rightarrow> bool" where
  "route_covers ip = (\<lambda>(p, l, h, n). covers p l ip)"

definition entry_of :: "route \<Rightarrow> routing_info \<times> next_hop" where
  "entry_of = (\<lambda>(p, l, h, n). ((l, p), (h, n)))"

text \<open>The longest covering prefix, and of several the one that was added first.\<close>

definition best_route :: "route list \<Rightarrow> u32 \<Rightarrow> route \<Rightarrow> bool" where
  "best_route routes ip b \<longleftrightarrow> (\<exists>pre post. routes = pre @ b # post \<and> route_covers ip b \<and>
     (\<forall>x \<in> set pre. route_covers ip x \<longrightarrow> fst (snd x) < fst (snd b)) \<and>
     (\<forall>x \<in> set post. route_covers ip x \<longrightarrow> fst (snd x) \<le> fst (snd b)))"

lemma best_route_extend:
  assumes "best_route routes ip b" and "route_covers ip x \<Longrightarrow> fst (snd x) \<le> fst (snd b)"
  shows "best_route (routes @ [x]) ip b"
proof -
  from assms(1) obtain pre post where "routes = pre @ b # post" "route_covers ip b"
    "\<forall>x \<in> set pre. route_covers ip x \<longrightarrow> fst (snd x) < fst (snd b)"
    "\<forall>x \<in> set post. route_covers ip x \<longrightarrow> fst (snd x) \<le> fst (snd b)" by (auto simp: best_route_def)
  with assms(2) show ?thesis unfolding best_route_def by (intro exI [of _ pre] exI [of _ "post @ [x]"]) simp
qed

lemma best_route_new:
  assumes "route_covers ip x" and "\<And>y. y \<in> set routes \<Longrightarrow> route_covers ip y \<Longrightarrow> fst (snd y) < fst (snd x)"
  shows "best_route (routes @ [x]) ip x"
  using assms unfolding best_route_def by (intro exI [of _ routes] exI [of _ "[]"]) simp

lemma best_route_top:
  assumes "best_route routes ip b" and "y \<in> set routes" and "route_covers ip y"
  shows "fst (snd y) \<le> fst (snd b)"
  using assms unfolding best_route_def by fastforce

lemma Router_add_route_eq:
  assumes "Router_add_route rs p l h n r = Inr r'"
  shows "r' = r\<lparr>rt_rtable := rtable_insert (l, p) (h, n) (rt_rtable r)\<rparr>"
  using assms by (auto simp: Router_add_route_def rbind_eq_Inr Let_def)

lemma add_routes_table:
  assumes "add_routes rs routes r0 = Inr r" and "rt_rtable r0 = []"
  shows "rtable_sorted (rt_rtable r) \<and> set (rt_rtable r) = entry_of ` set routes \<and> rt_interfaces r = rt_interfaces r0 \<and>
    (case find (entry_covers ip) (rev (rt_rtable r)) of
       None \<Rightarrow> \<forall>x \<in> set routes. \<not> route_covers ip x
     | Some e \<Rightarrow> \<exists>b. e = entry_of b \<and> best_route routes ip b)"
  using assms(1)
proof (induction routes arbitrary: r rule: rev_induct)
  case Nil
  then show ?case using assms(2) by (simp add: add_routes_def rtable_sorted_def)
next
  case (snoc x routes)
  obtain p l h n where x: "x = (p, l, h, n)" by (cases x)
  from snoc.prems obtain r1 where r1: "add_routes rs routes r0 = Inr r1" "Router_add_route rs p l h n r1 = Inr r"
    by (auto simp: add_routes_def x rbind_eq_Inr)
  note IH = snoc.IH [OF r1(1)]
  have r: "r = r1\<lparr>rt_rtable := rtable_insert (l, p) (h, n) (rt_rtable r1)\<rparr>" by (rule Router_add_route_eq [OF r1(2)])
  have e: "entry_of x = ((l, p), (h, n))" "entry_covers ip ((l, p), (h, n)) \<longleftrightarrow> route_covers ip x"
    by (simp_all add: x entry_of_def entry_covers_def route_covers_def)
  have len: "fst (fst (entry_of b)) = fst (snd b)" for b by (simp add: entry_of_def split: prod.splits)
  show ?case
  proof (cases "find (entry_covers ip) (rev (rt_rtable r1))")
    case None
    with IH have none: "\<forall>x \<in> set routes. \<not> route_covers ip x" by simp
    then have "\<exists>b. ((l, p), (h, n)) = entry_of b \<and> best_route (routes @ [x]) ip b" if "route_covers ip x"
      using that e(1) best_route_new [of ip x routes] by metis
    with IH None none show ?thesis
      using e by (simp add: r find_rtable_insert rtable_sorted_insert set_rtable_insert)
  next
    case (Some f)
    with IH obtain b where b: "f = entry_of b" "best_route routes ip b" by auto
    show ?thesis
    proof (cases "route_covers ip x \<and> fst (snd b) < l")
      case True
      then have "best_route (routes @ [x]) ip x" using best_route_top [OF b(2)] by (intro best_route_new) (force simp: x)+
      then have "\<exists>b. ((l, p), (h, n)) = entry_of b \<and> best_route (routes @ [x]) ip b" using e(1) by metis
      then show ?thesis using IH Some True e b(1) len [of b]
        by (simp add: r find_rtable_insert rtable_sorted_insert set_rtable_insert)
    next
      case False
      then have "best_route (routes @ [x]) ip b" using b(2) by (intro best_route_extend) (auto simp: x)
      then have "\<exists>b. f = entry_of b \<and> best_route (routes @ [x]) ip b" using b(1) by metis
      moreover have "\<not> (route_covers ip x \<and> fst (fst f) < l)" using False b(1) len [of b] by simp
      ultimately show ?thesis using IH Some e
        by (simp add: r find_rtable_insert rtable_sorted_insert set_rtable_insert) blast
    qed
  qed
qed

subsection \<open>Routing one datagram\<close>

definition hop_ttl :: "ipv4_datagram \<Rightarrow> ipv4_datagram" where
  "hop_ttl dgram = dgram\<lparr>id_header := (id_header dgram)\<lparr>ih_ttl := ih_ttl (id_header dgram) - 1\<rparr>\<rparr>"

definition hop_address :: "ipv4_datagram \<Rightarrow> address option \<Rightarrow> address" where
  "hop_address dgram hop = (case hop of Some a \<Rightarrow> a | None \<Rightarrow> inet_address (ih_dst (id_header dgram)) 0)"

lemma route_one_eq:
  assumes "find_route (ih_dst (id_header dgram)) (rev (rt_rtable r)) = Inr it"
  shows "Router_route_one_datagram dgram r = (case it of
      None \<Rightarrow> Inr r
    | Some (hop, n) \<Rightarrow> if ih_ttl (id_header dgram) \<le> 1 then Inr r else send_from n (hop_ttl dgram) (hop_address dgram hop) r)"
proof -
  have "ih_ttl (id_header dgram) \<le> 1 \<longleftrightarrow> ih_ttl (id_header dgram) = 0 \<or> ih_ttl (id_header dgram) - 1 = 0"
  proof -
    have "w \<le> 1 \<longleftrightarrow> w = 0 \<or> w = 1" for w :: u8 using unat_eq_iff [of w 1] by (auto simp: word_le_nat_alt le_Suc_eq unat_eq_0)
    then show ?thesis by simp
  qed
  then show ?thesis
    using assms
    by (auto simp: Router_route_one_datagram_def Let_def hop_ttl_def hop_address_def word_gt_0 split: option.splits)
qed


text \<open>A default route, a network and a host in it.\<close>

definition demo_routes :: "route list" where
  "demo_routes = [(0, 0, Some (inet_address 1 0), 0), (0x0a000000, 8, Some (inet_address 2 0), 0), (0x0a000007, 32, None, 0)]"

definition demo_router :: router where
  "demo_router = Router_new\<lparr>rt_interfaces := [AsyncNetworkInterface_new (demo_interface_at 1 1)]\<rparr>"

lemma demo_routes_added: "\<exists>r. add_routes dotted_resolver demo_routes demo_router = Inr r"
  by (simp add: add_routes_def demo_routes_def Router_add_route_def Address_ip_resolves dotted_resolves)


subsection \<open>Routing all datagrams\<close>

definition interface_ok :: "network_interface \<Rightarrow> bool" where
  "interface_ok ni \<longleftrightarrow> addr_ok (ni_ethernet_address ni) \<and> (\<exists>own. Address_ipv4_numeric (ni_ip_address ni) = Inr own) \<and>
     omap_ok (ni_dg_map ni) \<and> (\<forall>ip. \<forall>dg \<in> set (dg_queue (ni_dg_map ni) ip). datagram_ok dg)"

lemma flush_queue_total: "\<forall>dg \<in> set q. datagram_ok dg \<Longrightarrow> \<exists>ni'. flush_queue q ip eth ni = Inr ni'"
proof (induction q arbitrary: ni)
  case (Cons dg q)
  then have "datagram_ok dg" by simp
  then obtain bl where "IPv4Datagram_serialize dg = Inr bl" using datagram_roundtrip by metis
  with Cons show ?case by (simp add: Let_def)
qed simp

lemma send_datagram_total:
  assumes ok: "interface_ok ni" and dg: "datagram_ok dg" and ip: "Address_ipv4_numeric hop = Inr ip"
  shows "\<exists>ni'. NetworkInterface_send_datagram dg hop ni = Inr ni' \<and> interface_ok ni'"
proof -
  from ok obtain own where o: "addr_ok (ni_ethernet_address ni)" "Address_ipv4_numeric (ni_ip_address ni) = Inr own"
    "omap_ok (ni_dg_map ni)" "\<And>x d. d \<in> set (dg_queue (ni_dg_map ni) x) \<Longrightarrow> datagram_ok d" by (auto simp: interface_ok_def)
  let ?Q = "ni_queued ip dg ni"
  obtain f where f: "send_arp_request ip ?Q = Inr (?Q\<lparr>ni_frames_out := ni_frames_out ?Q @ [f]\<rparr>)"
    using send_arp_request_ok [of ?Q own ip] o(1,2) by (metis ni_queued_simps(5,6))
  have "\<exists>ni'. NetworkInterface_send_datagram dg hop ni = Inr ni'"
  proof (cases "omap_find (ni_ip_to_eth_table ni) ip")
    case (Some eth)
    have "\<forall>d \<in> set (dg_queue (ni_dg_map ?Q) ip). datagram_ok d" using o(3,4) dg by auto
    then show ?thesis
      using send_datagram_cases(1) [OF ip Some] o(3) flush_queue_total
      by (simp add: NetworkInterface_flush_buffer_def Let_def)
  next
    case None
    show ?thesis
      using send_datagram_cases(2,3) [OF ip None] f by (cases "omap_find (ni_ip_timeout_table ni) ip") simp_all
  qed
  then obtain ni' where ni': "NetworkInterface_send_datagram dg hop ni = Inr ni'" by blast
  from send_datagram_moves [OF this ip o(3)] have m: "moves ni [(ip, dg)] (datagrams_released ip dg ni) ni'" by blast
  have "datagram_ok d" if "d \<in> set (dg_queue (ni_dg_map ni') x)" for d x
  proof -
    have "sent_to x (datagrams_released ip dg ni) @ dg_queue (ni_dg_map ni') x = dg_queue (ni_dg_map ni) x @ handed_for x [(ip, dg)]"
      using m by (simp add: moves_def)
    then have "d \<in> set (dg_queue (ni_dg_map ni) x @ handed_for x [(ip, dg)])" using that by (metis Un_iff set_append)
    then show ?thesis using o(4) dg by (auto split: if_splits)
  qed
  with ni' m o show ?thesis by (auto simp: interface_ok_def moves_def)
qed

text \<open>Interfaces are well formed, and every route has a defined mask, an existing interface and a usable next hop.\<close>

definition entry_ok :: "nat \<Rightarrow> routing_info \<times> next_hop \<Rightarrow> bool" where
  "entry_ok k e \<longleftrightarrow> len_ok (fst (fst e)) \<and> unat (snd (snd e)) < k \<and>
     (case fst (snd e) of None \<Rightarrow> True | Some a \<Rightarrow> \<exists>ip. Address_ipv4_numeric a = Inr ip)"

definition router_ok :: "router \<Rightarrow> bool" where
  "router_ok r \<longleftrightarrow> str_ok (rt_interfaces r) \<and> (\<forall>ai \<in> set (rt_interfaces r). interface_ok (ai_interface ai)) \<and>
     (\<forall>e \<in> set (rt_rtable r). entry_ok (length (rt_interfaces r)) e)"

definition waiting :: "router \<Rightarrow> ipv4_datagram list list" where
  "waiting r = map ai_datagrams_out (rt_interfaces r)"

lemma length_waiting [simp]: "length (waiting r) = length (rt_interfaces r)"
  by (simp add: waiting_def)

lemma send_from_total:
  assumes ok: "router_ok r" and n: "unat n < length (rt_interfaces r)" and dg: "datagram_ok dg"
    and ip: "Address_ipv4_numeric hop = Inr ip"
  shows "\<exists>r'. send_from n dg hop r = Inr r' \<and> router_ok r' \<and> rt_rtable r' = rt_rtable r \<and> waiting r' = waiting r"
proof -
  let ?ai = "rt_interfaces r ! unat n"
  have lt: "n < size64 (rt_interfaces r)" using ok n by (simp add: router_ok_def word_less_nat_alt)
  obtain ni where ni: "NetworkInterface_send_datagram dg hop (ai_interface ?ai) = Inr ni" "interface_ok ni"
    using send_datagram_total [OF _ dg ip] ok n by (metis nth_mem router_ok_def)
  let ?r = "r\<lparr>rt_interfaces := (rt_interfaces r)[unat n := ?ai\<lparr>ai_interface := ni\<rparr>]\<rparr>"
  have "router_ok ?r" using ok ni(2) by (auto simp: router_ok_def dest!: set_update_subset_insert [THEN subsetD])
  moreover have "waiting ?r = waiting r" using n by (simp add: waiting_def map_update list_update_same_conv)
  ultimately show ?thesis using lt ni(1) by (simp add: send_from_def)
qed

lemma route_one_total:
  assumes ok: "router_ok r" and dg: "datagram_ok dg"
  shows "\<exists>r'. Router_route_one_datagram dg r = Inr r' \<and> router_ok r' \<and> rt_rtable r' = rt_rtable r \<and> waiting r' = waiting r"
proof -
  let ?dst = "ih_dst (id_header dg)"
  have "len_ok (fst (fst e))" if "e \<in> set (rev (rt_rtable r))" for e using that ok by (auto simp: router_ok_def entry_ok_def)
  note eq = route_one_eq [OF find_route_eq [OF this]]
  show ?thesis
  proof (cases "find (entry_covers ?dst) (rev (rt_rtable r))")
    case None
    with eq ok show ?thesis by simp
  next
    case (Some e)
    then have "e \<in> set (rt_rtable r)" by (metis find_Some_iff nth_mem set_rev)
    with ok have e: "entry_ok (length (rt_interfaces r)) e" by (simp add: router_ok_def)
    obtain len p hop n where en: "e = ((len, p), hop, n)" by (cases e) auto
    have "datagram_ok (hop_ttl dg)" using dg by (simp add: datagram_ok_def hop_ttl_def ip_header_ok_def)
    moreover obtain ip where "Address_ipv4_numeric (hop_address dg hop) = Inr ip"
      using e en by (auto simp: entry_ok_def hop_address_def split: option.splits)
    moreover have "unat n < length (rt_interfaces r)" using e en by (simp add: entry_ok_def)
    ultimately show ?thesis using send_from_total [OF ok] eq Some en ok by simp
  qed
qed

lemma route_queue_total:
  assumes "router_ok r" and "i < length (rt_interfaces r)" and "\<forall>dg \<in> set q. datagram_ok dg" and "waiting r ! i = q"
  shows "\<exists>r'. route_queue i q r = Inr r' \<and> router_ok r' \<and> rt_rtable r' = rt_rtable r \<and> waiting r' = (waiting r)[i := []]"
  using assms
proof (induction q arbitrary: r)
  case Nil
  then have "(waiting r)[i := []] = waiting r" by (metis list_update_id)
  with Nil show ?case by simp
next
  case (Cons dg q)
  then obtain r1 where r1: "Router_route_one_datagram dg r = Inr r1" "router_ok r1" "rt_rtable r1 = rt_rtable r" "waiting r1 = waiting r"
    using route_one_total [of r dg] by auto
  let ?r = "r1\<lparr>rt_interfaces := (rt_interfaces r1)[i := (rt_interfaces r1 ! i)\<lparr>ai_datagrams_out := q\<rparr>]\<rparr>"
  have i: "i < length (rt_interfaces r1)" using Cons.prems(2) r1(4) by (metis length_waiting)
  have "router_ok ?r"
    using r1(2) i nth_mem [OF i] by (auto simp: router_ok_def dest!: set_update_subset_insert [THEN subsetD])
  moreover have w: "waiting ?r = (waiting r)[i := q]" using r1(4) by (simp add: waiting_def map_update)
  ultimately have "\<exists>r'. route_queue i q ?r = Inr r' \<and> router_ok r' \<and> rt_rtable r' = rt_rtable ?r \<and> waiting r' = (waiting ?r)[i := []]"
    using Cons.prems i by (intro Cons.IH) simp_all
  with r1 w show ?case by simp
qed

lemma route_interfaces_total:
  assumes "router_ok r" and "\<forall>i \<in> set is. i < length (rt_interfaces r)" and "\<forall>q \<in> set (waiting r). \<forall>dg \<in> set q. datagram_ok dg"
  shows "\<exists>r'. route_interfaces is r = Inr r' \<and> router_ok r' \<and> rt_rtable r' = rt_rtable r \<and>
     length (rt_interfaces r') = length (rt_interfaces r) \<and>
     (\<forall>i < length (rt_interfaces r). waiting r' ! i = (if i \<in> set is then [] else waiting r ! i))"
  using assms
proof (induction "is" arbitrary: r)
  case (Cons i "is")
  then have i: "i < length (rt_interfaces r)" by simp
  let ?q = "ai_datagrams_out (rt_interfaces r ! i)"
  have q: "waiting r ! i = ?q" using i by (simp add: waiting_def)
  have "\<forall>dg \<in> set ?q. datagram_ok dg" using Cons.prems(3) i q by (metis length_waiting nth_mem)
  from route_queue_total [OF Cons.prems(1) i this q] obtain r1 where r1: "route_queue i ?q r = Inr r1" "router_ok r1"
    "rt_rtable r1 = rt_rtable r" "waiting r1 = (waiting r)[i := []]" by blast
  have len: "length (rt_interfaces r1) = length (rt_interfaces r)" using r1(4) by (metis length_list_update length_waiting)
  have "\<forall>q \<in> set (waiting r1). \<forall>dg \<in> set q. datagram_ok dg"
    using Cons.prems(3) r1(4) by (auto dest!: set_update_subset_insert [THEN subsetD])
  with Cons.IH [OF r1(2)] Cons.prems(2) len obtain r2 where r2: "route_interfaces is r1 = Inr r2" "router_ok r2"
    "rt_rtable r2 = rt_rtable r1" "length (rt_interfaces r2) = length (rt_interfaces r1)"
    "\<forall>j < length (rt_interfaces r1). waiting r2 ! j = (if j \<in> set is then [] else waiting r1 ! j)" by auto
  then show ?case using r1 len by (intro exI [of _ r2]) (auto simp: nth_list_update)
qed simp

text \<open>
  C29. Routing returns and leaves nothing behind: when the interfaces and routes are well formed
  and the datagrams that wait are valid, \<^verbatim>\<open>route()\<close> throws nothing, routes every datagram of every
  interface, leaves all queues of received datagrams empty and keeps the router well formed, with
  the same table and interfaces, ready for the next call.
\<close>

theorem route_drains:
  assumes "router_ok r" and "\<forall>ai \<in> set (rt_interfaces r). \<forall>dg \<in> set (ai_datagrams_out ai). datagram_ok dg"
  shows "\<exists>r'. Router_route r = Inr r' \<and> router_ok r' \<and> rt_rtable r' = rt_rtable r \<and>
     length (rt_interfaces r') = length (rt_interfaces r) \<and> (\<forall>ai \<in> set (rt_interfaces r'). ai_datagrams_out ai = [])"
proof -
  have w: "\<forall>q \<in> set (waiting r). \<forall>dg \<in> set q. datagram_ok dg" using assms(2) by (auto simp: waiting_def)
  obtain r' where r': "Router_route r = Inr r'" "router_ok r'" "rt_rtable r' = rt_rtable r"
    "length (rt_interfaces r') = length (rt_interfaces r)" "\<And>i. i < length (rt_interfaces r) \<Longrightarrow> waiting r' ! i = []"
    using route_interfaces_total [OF assms(1) _ w, of "[0 ..< length (rt_interfaces r)]"] by (auto simp: Router_route_def)
  have "ai_datagrams_out ai = []" if ai: "ai \<in> set (rt_interfaces r')" for ai
  proof -
    obtain i where "i < length (rt_interfaces r')" "rt_interfaces r' ! i = ai" using ai by (auto simp: in_set_conv_nth)
    with r'(4,5) show ?thesis by (auto simp: waiting_def)
  qed
  with r' show ?thesis by blast
qed

theorem route_drains_witness:
  "\<exists>r'. Router_route \<lparr>rt_interfaces = [\<lparr>ai_interface = demo_interface_at 1 1, ai_datagrams_out = [demo_dgram, demo_dgram]\<rparr>],
       rt_rtable = [((0, 0), (None, 0))]\<rparr> = Inr r' \<and> (\<forall>ai \<in> set (rt_interfaces r'). ai_datagrams_out ai = [])"
proof -
  let ?r = "\<lparr>rt_interfaces = [\<lparr>ai_interface = demo_interface_at 1 1, ai_datagrams_out = [demo_dgram, demo_dgram]\<rparr>],
       rt_rtable = [((0, 0), (None, 0))]\<rparr>"
  have "router_ok ?r"
    by (simp add: router_ok_def interface_ok_def entry_ok_def len_ok_def demo_interface_at_def demo_eth_def addr_ok_def
        dg_queue_def omap_find_def)
  moreover have "datagram_ok demo_dgram"
    by (simp add: demo_dgram_def datagram_ok_def ip_header_ok_def IPv4Header_new_def BufferList_concatenate_eq)
  ultimately show ?thesis using route_drains [of ?r] by auto
qed

subsection \<open>Malformed headers\<close>

text \<open>
  C39. A finding: one malformed frame stops the router. A frame whose IPv4 header has a wrong
  version is handed up, since \<^verbatim>\<open>IPv4Datagram::parse\<close> drops the result of the header's parser; when
  a route covers its destination and the Ethernet address of the next hop is known, sending it on
  serializes the header again, which throws for that version, and \<^verbatim>\<open>route()\<close> does not catch it.
\<close>

theorem malformed_header_stops_router:
  assumes "NetworkInterface_recv_frame f ni = Inr (Some dg, ni')" and "ih_ver (id_header dg) \<noteq> 4"
    and "find_route (ih_dst (id_header dg)) (rev (rt_rtable r)) = Inr (Some (hop, n))" and "1 < ih_ttl (id_header dg)"
    and "n < size64 (rt_interfaces r)" and "Address_ipv4_numeric (hop_address dg hop) = Inr ip"
    and "omap_ok (ni_dg_map (ai_interface (rt_interfaces r ! unat n)))"
    and "omap_find (ni_ip_to_eth_table (ai_interface (rt_interfaces r ! unat n))) ip = Some eth"
    and "dg_queue (ni_dg_map (ai_interface (rt_interfaces r ! unat n))) ip = []"
  shows "Router_route_one_datagram dg r = Inl (Runtime_error ''wrong IP version'')"
proof -
  let ?ni = "ai_interface (rt_interfaces r ! unat n)" and ?h = "id_header (hop_ttl dg)"
  have "IPv4Datagram_parse IPv4Datagram_new (Buffer_of (BufferList_concatenate (ef_payload f))) = Inr (NoError, dg)"
    using assms(1) by (auto simp: NetworkInterface_recv_frame_def Let_def rbind_eq_Inr split: if_splits)
  then have "BufferList_size (id_payload dg) = ucast (IPv4Header_payload_length (id_header dg))"
    by (auto simp: IPv4Datagram_parse_def Let_def rbind_eq_Inr split: if_splits)
  then have size: "BufferList_size (id_payload (hop_ttl dg)) = ucast (IPv4Header_payload_length ?h)"
    by (simp add: hop_ttl_def IPv4Header_payload_length_def)
  have ser: "IPv4Datagram_serialize (hop_ttl dg) = Inl (Runtime_error ''wrong IP version'')"
    using assms(2) unfolding IPv4Datagram_serialize_def size by (simp add: IPv4Header_serialize_def hop_ttl_def Let_def)
  have "NetworkInterface_send_datagram (hop_ttl dg) (hop_address dg hop) ?ni = Inl (Runtime_error ''wrong IP version'')"
    using send_datagram_cases(1) [OF assms(6,8)] assms(7,9) ser by (simp add: NetworkInterface_flush_buffer_def Let_def)
  then show ?thesis
    using route_one_eq [OF assms(3)] assms(4,5) by (simp add: send_from_def)
qed

definition demo_bad_frame :: ethernet_frame where
  "demo_bad_frame = \<lparr>ef_header = \<lparr>eh_dst = demo_eth 1, eh_src = demo_eth 3, eh_type = TYPE_IPv4\<rparr>,
     ef_payload = [Buffer_of [0x65, 0, 0, 22, 0, 0, 0, 0, 64, 6, 0, 0, 0, 0, 0, 1, 0, 0, 0, 2, 7, 8]]\<rparr>"

definition demo_bad_router :: router where
  "demo_bad_router = \<lparr>rt_interfaces = [AsyncNetworkInterface_new
      ((demo_interface_at 1 1)\<lparr>ni_ip_to_eth_table := [(2, demo_eth 2)]\<rparr>)], rt_rtable = [((0, 0), (None, 0))]\<rparr>"

theorem malformed_header_stops_router_witness:
  "\<exists>dg ni'. NetworkInterface_recv_frame demo_bad_frame (demo_interface_at 1 1) = Inr (Some dg, ni') \<and>
     Router_route_one_datagram dg demo_bad_router = Inl (Runtime_error ''wrong IP version'')"
proof -
  have "case NetworkInterface_recv_frame demo_bad_frame (demo_interface_at 1 1) of
      Inr (Some dg, ni') \<Rightarrow> ih_ver (id_header dg) \<noteq> 4 \<and> ih_dst (id_header dg) = 2 \<and> 1 < ih_ttl (id_header dg) | _ \<Rightarrow> False"
    by code_simp
  then obtain dg ni' where dg: "NetworkInterface_recv_frame demo_bad_frame (demo_interface_at 1 1) = Inr (Some dg, ni')"
    "ih_ver (id_header dg) \<noteq> 4" "ih_dst (id_header dg) = 2" "1 < ih_ttl (id_header dg)"
    by (auto split: sum.splits option.splits)
  have "Router_route_one_datagram dg demo_bad_router = Inl (Runtime_error ''wrong IP version'')"
    by (rule malformed_header_stops_router [OF dg(1,2) _ dg(4), where hop = None and n = 0 and ip = 2 and eth = "demo_eth 2"])
      (use dg(3) in \<open>simp_all add: demo_bad_router_def mask_net_def AsyncNetworkInterface_new_def demo_interface_at_def
        hop_address_def dg_queue_def omap_find_def size64_def\<close>)
  with dg(1) show ?thesis by blast
qed

end
