(* ===== verification/TCP_Over_IP.thy ===== *)
theory TCP_Over_IP
  imports IPv4 Address
begin

text \<open>
  \<^verbatim>\<open>FdAdapterConfig\<close> of \<^verbatim>\<open>libsponge/tcp_helpers/tcp_config.hh\<close>, \<^verbatim>\<open>FdAdapterBase\<close> of \<^verbatim>\<open>fd_adapter.hh\<close>, and
  \<^verbatim>\<open>tcp_over_ip.cc\<close>: TCP segments in IPv4 datagrams. The adapter fills in the addresses and ports of
  the connection on the way out and filters by them on the way in; while it listens, the first
  SYN fixes them.
\<close>

subsection \<open>State and operations\<close>

record fd_adapter_config =
  fc_source :: address
  fc_destination :: address
  fc_loss_rate_dn :: u16
  fc_loss_rate_up :: u16

definition FdAdapterConfig_new :: "resolver \<Rightarrow> fd_adapter_config res" where
  "FdAdapterConfig_new rs =
     rbind (Address_of_ip rs ''0'' 0) (\<lambda>source.
     rbind (Address_of_ip rs ''0'' 0) (\<lambda>destination.
     Inr \<lparr>fc_source = source, fc_destination = destination, fc_loss_rate_dn = 0, fc_loss_rate_up = 0\<rparr>))"

record fd_adapter_base =
  fa_cfg :: fd_adapter_config
  fa_listen :: bool

definition FdAdapterBase_new :: "resolver \<Rightarrow> fd_adapter_base res" where
  "FdAdapterBase_new rs = rbind (FdAdapterConfig_new rs) (\<lambda>cfg. Inr \<lparr>fa_cfg = cfg, fa_listen = False\<rparr>)"

definition FdAdapterBase_set_listening :: "bool \<Rightarrow> fd_adapter_base \<Rightarrow> fd_adapter_base" where
  "FdAdapterBase_set_listening l fa = fa\<lparr>fa_listen := l\<rparr>"

definition FdAdapterBase_tick :: "u64 \<Rightarrow> fd_adapter_base \<Rightarrow> fd_adapter_base" where
  "FdAdapterBase_tick ms fa = fa"

definition accept_peer :: "resolver \<Rightarrow> ipv4_datagram \<Rightarrow> tcp_segment \<Rightarrow> fd_adapter_base \<Rightarrow> fd_adapter_base res" where
  "accept_peer rs ip_dgram tcp_seg fa =
     rbind (Address_port rs (fc_source (fa_cfg fa))) (\<lambda>port.
     rbind (Address_of_ip rs (rs_inet_ntoa rs (be_bytes 4 (ih_dst (id_header ip_dgram)))) port) (\<lambda>source.
     rbind (Address_of_ip rs (rs_inet_ntoa rs (be_bytes 4 (ih_src (id_header ip_dgram)))) (th_sport (ts_header tcp_seg))) (\<lambda>destination.
     Inr (FdAdapterBase_set_listening False
       (fa\<lparr>fa_cfg := (fa_cfg fa)\<lparr>fc_source := source, fc_destination := destination\<rparr>\<rparr>)))))"

definition check_peer :: "resolver \<Rightarrow> tcp_segment \<Rightarrow> fd_adapter_base \<Rightarrow> (tcp_segment option \<times> fd_adapter_base) res" where
  "check_peer rs tcp_seg fa =
     rbind (Address_port rs (fc_destination (fa_cfg fa))) (\<lambda>port.
     if th_sport (ts_header tcp_seg) \<noteq> port then Inr (None, fa) else Inr (Some tcp_seg, fa))"

definition unwrap_payload ::
  "resolver \<Rightarrow> ipv4_datagram \<Rightarrow> fd_adapter_base \<Rightarrow> (tcp_segment option \<times> fd_adapter_base) res" where
  "unwrap_payload rs ip_dgram fa =
     (if ih_proto (id_header ip_dgram) \<noteq> IPv4Header_PROTO_TCP then Inr (None, fa)
      else
        rbind (BufferList_to_Buffer (id_payload ip_dgram)) (\<lambda>payload.
        rbind (TCPSegment_parse TCPSegment_new payload (IPv4Header_pseudo_cksum (id_header ip_dgram))) (\<lambda>(r, tcp_seg).
        if r \<noteq> NoError then Inr (None, fa)
        else
          rbind (Address_port rs (fc_source (fa_cfg fa))) (\<lambda>port.
          if th_dport (ts_header tcp_seg) \<noteq> port then Inr (None, fa)
          else if fa_listen fa then
            if th_syn (ts_header tcp_seg) \<and> \<not> th_rst (ts_header tcp_seg)
            then rbind (accept_peer rs ip_dgram tcp_seg fa) (\<lambda>fa. check_peer rs tcp_seg fa)
            else Inr (None, fa)
          else check_peer rs tcp_seg fa))))"

definition unwrap_tcp_in_ip ::
  "resolver \<Rightarrow> ipv4_datagram \<Rightarrow> fd_adapter_base \<Rightarrow> (tcp_segment option \<times> fd_adapter_base) res" where
  "unwrap_tcp_in_ip rs ip_dgram fa =
     (if fa_listen fa then unwrap_payload rs ip_dgram fa
      else
        rbind (Address_ipv4_numeric (fc_source (fa_cfg fa))) (\<lambda>own.
        if ih_dst (id_header ip_dgram) \<noteq> own then Inr (None, fa)
        else
          rbind (Address_ipv4_numeric (fc_destination (fa_cfg fa))) (\<lambda>peer.
          if ih_src (id_header ip_dgram) \<noteq> peer then Inr (None, fa) else unwrap_payload rs ip_dgram fa)))"

text \<open>The segment is changed in place and so is a part of the result.\<close>

definition wrap_tcp_in_ip :: "resolver \<Rightarrow> tcp_segment \<Rightarrow> fd_adapter_base \<Rightarrow> (ipv4_datagram \<times> tcp_segment) res" where
  "wrap_tcp_in_ip rs seg fa =
     rbind (Address_port rs (fc_source (fa_cfg fa))) (\<lambda>sport.
     rbind (Address_port rs (fc_destination (fa_cfg fa))) (\<lambda>dport.
     rbind (Address_ipv4_numeric (fc_source (fa_cfg fa))) (\<lambda>src.
     rbind (Address_ipv4_numeric (fc_destination (fa_cfg fa))) (\<lambda>dst.
     let seg = seg\<lparr>ts_header := (ts_header seg)\<lparr>th_sport := sport, th_dport := dport\<rparr>\<rparr>;
         h = (id_header IPv4Datagram_new)\<lparr>ih_src := src, ih_dst := dst\<rparr>;
         h = h\<lparr>ih_len := ucast (ucast (ih_hlen h) * 4 + ucast (th_doff (ts_header seg)) * 4 + Buffer_size (ts_payload seg) :: u64)\<rparr>
     in rbind (TCPSegment_serialize seg (IPv4Header_pseudo_cksum h)) (\<lambda>payload.
        Inr (\<lparr>id_header = h, id_payload = payload\<rparr>, seg))))))"

subsection \<open>Connected adapters\<close>

text \<open>One end of a connection, by the addresses and ports of both.\<close>

definition endpoint_cfg :: "resolver \<Rightarrow> u32 \<times> u16 \<Rightarrow> u32 \<times> u16 \<Rightarrow> fd_adapter_base \<Rightarrow> bool" where
  "endpoint_cfg rs own peer fa \<longleftrightarrow> fc_source (fa_cfg fa) = inet_address (fst own) (snd own) \<and>
     fc_destination (fa_cfg fa) = inet_address (fst peer) (snd peer) \<and>
     resolves rs (fst own) (snd own) \<and> resolves rs (fst peer) (snd peer)"

text \<open>A listening adapter: only the port of its source address is used.\<close>

definition listens_on :: "resolver \<Rightarrow> u16 \<Rightarrow> fd_adapter_base \<Rightarrow> bool" where
  "listens_on rs port fa \<longleftrightarrow> fa_listen fa \<and> Address_port rs (fc_source (fa_cfg fa)) = Inr port"

definition segment_fits :: "tcp_segment \<Rightarrow> bool" where
  "segment_fits seg \<longleftrightarrow> segment_ok seg \<and> 20 + 4 * unat (th_doff (ts_header seg)) + length (Buffer_str (ts_payload seg)) \<le> 65535"

definition addressed :: "u32 \<times> u16 \<Rightarrow> u32 \<times> u16 \<Rightarrow> tcp_segment \<Rightarrow> tcp_segment" where
  "addressed own peer seg = seg\<lparr>ts_header := (ts_header seg)\<lparr>th_sport := snd own, th_dport := snd peer\<rparr>\<rparr>"

lemma segment_fits_addressed [simp]: "segment_fits (addressed own peer seg) = segment_fits seg"
  by (simp add: segment_fits_def addressed_def segment_ok_def)

text \<open>The datagram that carries a segment.\<close>

definition carries :: "u32 \<times> u16 \<Rightarrow> u32 \<times> u16 \<Rightarrow> tcp_segment \<Rightarrow> ipv4_datagram \<Rightarrow> bool" where
  "carries own peer seg dg \<longleftrightarrow> ih_src (id_header dg) = fst own \<and> ih_dst (id_header dg) = fst peer \<and>
     ih_proto (id_header dg) = IPv4Header_PROTO_TCP \<and>
     (\<exists>b. BufferList_to_Buffer (id_payload dg) = Inr b \<and>
        (\<forall>seg0. \<exists>seg' c. TCPSegment_parse seg0 b (IPv4Header_pseudo_cksum (id_header dg)) = Inr (NoError, seg') \<and>
           same_segment (addressed own peer seg) c seg'))"

definition wrapped_header :: "u32 \<Rightarrow> u32 \<Rightarrow> tcp_segment \<Rightarrow> ipv4_header" where
  "wrapped_header src dst seg = IPv4Header_new\<lparr>ih_src := src, ih_dst := dst,
     ih_len := ucast (20 + ucast (th_doff (ts_header seg)) * 4 + Buffer_size (ts_payload seg) :: u64)\<rparr>"

lemma wrapped_length:
  assumes "segment_fits seg"
  shows "unat (ih_len (wrapped_header src dst seg)) =
     20 + (4 * unat (th_doff (ts_header seg)) + length (Buffer_str (ts_payload seg)))"
proof -
  let ?d = "th_doff (ts_header seg)" and ?n = "4 * unat (th_doff (ts_header seg)) + length (Buffer_str (ts_payload seg))"
  have n: "20 + ?n < 65536" using assms by (simp add: segment_fits_def)
  have u: "unat (ucast ?d :: u64) = unat ?d" by (simp add: unat_ucast)
  then have d: "unat (ucast ?d * 4 :: u64) = 4 * unat ?d"
    using unat_mult_nowrap [of "ucast ?d :: u64" 4] unat8_lt [of ?d] by simp
  have s: "unat (Buffer_size (ts_payload seg)) = length (Buffer_str (ts_payload seg))"
    using n by (simp add: Buffer_size_def)
  have "unat (20 + ucast ?d * 4 :: u64) = 20 + 4 * unat ?d" using d n by (subst unat_add_nowrap) simp_all
  then have "unat (20 + ucast ?d * 4 + Buffer_size (ts_payload seg) :: u64) = 20 + ?n"
    using s n by (subst unat_add_nowrap) simp_all
  then show ?thesis using n by (simp add: wrapped_header_def unat_ucast)
qed

lemma wrap_in_ip_eq:
  assumes "endpoint_cfg rs own peer fa"
  shows "wrap_tcp_in_ip rs seg fa = rbind (TCPSegment_serialize (addressed own peer seg)
      (IPv4Header_pseudo_cksum (wrapped_header (fst own) (fst peer) seg)))
    (\<lambda>payload. Inr (\<lparr>id_header = wrapped_header (fst own) (fst peer) seg, id_payload = payload\<rparr>, addressed own peer seg))"
  using assms by (simp add: endpoint_cfg_def wrap_tcp_in_ip_def Let_def addressed_def wrapped_header_def
      IPv4Datagram_new_def IPv4Header_new_def)

lemma wrap_ok:
  assumes cfg: "endpoint_cfg rs own peer fa" and fits: "segment_fits seg"
  obtains dg where "wrap_tcp_in_ip rs seg fa = Inr (dg, addressed own peer seg)" "datagram_ok dg"
    "\<And>c dg'. same_datagram dg c dg' \<Longrightarrow> carries own peer seg dg'"
proof -
  let ?s = "addressed own peer seg" and ?h = "wrapped_header (fst own) (fst peer) seg"
  have ok: "segment_ok ?s" using fits by (simp add: segment_fits_def addressed_def segment_ok_def)
  obtain bl c where bl: "TCPSegment_serialize ?s (IPv4Header_pseudo_cksum ?h) = Inr bl" "buffer_list_ok bl"
    "length (BufferList_concatenate bl) = 4 * unat (th_doff (ts_header ?s)) + length (Buffer_str (ts_payload ?s))"
    and parse: "\<And>seg0 b. buffer_ok b \<Longrightarrow> Buffer_str b = BufferList_concatenate bl \<Longrightarrow>
       \<exists>seg'. TCPSegment_parse seg0 b (IPv4Header_pseudo_cksum ?h) = Inr (NoError, seg') \<and> same_segment ?s c seg'"
    using segment_roundtrip [OF ok unat_pseudo_cksum] by metis
  let ?dg = "\<lparr>id_header = ?h, id_payload = bl\<rparr>"
  show thesis
  proof (rule that [of ?dg])
    show "wrap_tcp_in_ip rs seg fa = Inr (?dg, ?s)" using wrap_in_ip_eq [OF cfg] bl(1) by simp
    have "ip_header_ok ?h" "ih_ver ?h = 4" "ih_hlen ?h = 5"
      by (simp_all add: wrapped_header_def IPv4Header_new_def ip_header_ok_def)
    then show "datagram_ok ?dg" using bl(2,3) wrapped_length [OF fits] by (simp add: datagram_ok_def addressed_def)
    fix c' dg' assume same: "same_datagram ?dg c' dg'"
    then obtain b where b: "id_payload dg' = [b]" by (auto simp: same_datagram_def length_Suc_conv)
    have h: "id_header dg' = ?h\<lparr>ih_cksum := c'\<rparr>" and "buffer_ok b" "Buffer_str b = BufferList_concatenate bl"
      using same b by (simp_all add: same_datagram_def BufferList_concatenate_eq)
    moreover have "IPv4Header_pseudo_cksum (id_header dg') = IPv4Header_pseudo_cksum ?h"
      unfolding h by (simp add: IPv4Header_pseudo_cksum_def IPv4Header_payload_length_def)
    ultimately show "carries own peer seg dg'"
      using parse [of b] b by (auto simp: carries_def BufferList_to_Buffer_def wrapped_header_def IPv4Header_new_def) blast
  qed
qed

lemma carries_parse:
  assumes "carries own peer seg dg"
  obtains b seg' c where "BufferList_to_Buffer (id_payload dg) = Inr b"
    "TCPSegment_parse TCPSegment_new b (IPv4Header_pseudo_cksum (id_header dg)) = Inr (NoError, seg')"
    "same_segment (addressed own peer seg) c seg'"
  using assms unfolding carries_def by blast

lemma unwrap_ok:
  assumes cfg: "endpoint_cfg rs peer own fa" and "\<not> fa_listen fa" and c: "carries own peer seg dg"
  obtains seg' c where "unwrap_tcp_in_ip rs dg fa = Inr (Some seg', fa)" "same_segment (addressed own peer seg) c seg'"
proof -
  have h: "ih_src (id_header dg) = fst own" "ih_dst (id_header dg) = fst peer" "ih_proto (id_header dg) = IPv4Header_PROTO_TCP"
    using c by (simp_all add: carries_def)
  from c obtain b seg' c where b: "BufferList_to_Buffer (id_payload dg) = Inr b"
    "TCPSegment_parse TCPSegment_new b (IPv4Header_pseudo_cksum (id_header dg)) = Inr (NoError, seg')"
    "same_segment (addressed own peer seg) c seg'" by (rule carries_parse)
  have "th_sport (ts_header seg') = snd own" "th_dport (ts_header seg') = snd peer"
    using b(3) by (simp_all add: same_segment_def addressed_def)
  then have "unwrap_tcp_in_ip rs dg fa = Inr (Some seg', fa)"
    using b(1,2) h assms(1,2) by (simp add: unwrap_tcp_in_ip_def unwrap_payload_def check_peer_def endpoint_cfg_def)
  with b(3) that show thesis by blast
qed

text \<open>A listening adapter takes the addresses from the first SYN.\<close>

lemma unwrap_listening:
  assumes l: "listens_on rs (snd peer) fa" and c: "carries own peer seg dg"
    and r: "resolves rs (fst own) (snd own)" "resolves rs (fst peer) (snd peer)"
    and syn: "th_syn (ts_header seg)" "\<not> th_rst (ts_header seg)"
  obtains seg' c fa' where "unwrap_tcp_in_ip rs dg fa = Inr (Some seg', fa')" "same_segment (addressed own peer seg) c seg'"
    "endpoint_cfg rs peer own fa'" "\<not> fa_listen fa'"
proof -
  have h: "ih_src (id_header dg) = fst own" "ih_dst (id_header dg) = fst peer" "ih_proto (id_header dg) = IPv4Header_PROTO_TCP"
    using c by (simp_all add: carries_def)
  from c obtain b seg' c where b: "BufferList_to_Buffer (id_payload dg) = Inr b"
    "TCPSegment_parse TCPSegment_new b (IPv4Header_pseudo_cksum (id_header dg)) = Inr (NoError, seg')"
    "same_segment (addressed own peer seg) c seg'" by (rule carries_parse)
  have s: "th_sport (ts_header seg') = snd own" "th_dport (ts_header seg') = snd peer" "th_syn (ts_header seg')" "\<not> th_rst (ts_header seg')"
    using b(3) syn by (simp_all add: same_segment_def addressed_def)
  let ?fa = "FdAdapterBase_set_listening False (fa\<lparr>fa_cfg := (fa_cfg fa)\<lparr>fc_source := inet_address (fst peer) (snd peer),
    fc_destination := inet_address (fst own) (snd own)\<rparr>\<rparr>)"
  have "accept_peer rs dg seg' fa = Inr ?fa"
    using l h s r by (simp add: accept_peer_def listens_on_def Address_of_ip_resolves)
  then have "unwrap_tcp_in_ip rs dg fa = Inr (Some seg', ?fa)"
    using b(1,2) h s l r
    by (simp add: unwrap_tcp_in_ip_def unwrap_payload_def check_peer_def listens_on_def FdAdapterBase_set_listening_def)
  then show thesis using b(3) r by (intro that [of seg' ?fa c]) (simp_all add: endpoint_cfg_def FdAdapterBase_set_listening_def)
qed

subsection \<open>Properties\<close>


definition demo_adapter :: "u32 \<times> u16 \<Rightarrow> u32 \<times> u16 \<Rightarrow> fd_adapter_base" where
  "demo_adapter own peer = \<lparr>fa_cfg = \<lparr>fc_source = inet_address (fst own) (snd own),
     fc_destination = inet_address (fst peer) (snd peer), fc_loss_rate_dn = 0, fc_loss_rate_up = 0\<rparr>, fa_listen = False\<rparr>"

lemma demo_adapter_cfg: "endpoint_cfg dotted_resolver own peer (demo_adapter own peer)"
  by (simp add: endpoint_cfg_def demo_adapter_def dotted_resolves)

lemma demo_segment_fits: "segment_fits (TCPSegment_new\<lparr>ts_payload := Buffer_of [104, 105]\<rparr>)"
  by (simp add: segment_fits_def segment_ok_def TCPSegment_new_def TCPHeader_new_def)


end
