(* ===== verification/Adapters.thy ===== *)
theory Adapters
  imports TCP_Over_IP Address_Resolution
begin

text \<open>
  The adapters between TCP and a datagram device: \<^verbatim>\<open>libsponge/tcp_helpers/fd_adapter.cc\<close> (UDP),
  \<^verbatim>\<open>tuntap_adapter.hh\<close> and \<^verbatim>\<open>tuntap_adapter.cc\<close> (TUN and TAP), and \<^verbatim>\<open>lossy_fd_adapter.hh\<close>. What a
  device returns from a read is an argument, and what is written to it a part of the result, so
  that the adapters are functions of their state. \<open>segment_channel\<close> is the contract that a TCP
  connection relies on, and every kind of adapter meets it.
\<close>

subsection \<open>UDP\<close>

record received_datagram =
  dg_source_address :: address
  dg_payload :: bytes

definition UDPAdapter_read ::
  "received_datagram \<Rightarrow> fd_adapter_base \<Rightarrow> (tcp_segment option \<times> fd_adapter_base) res" where
  "UDPAdapter_read datagram fa =
     (if \<not> fa_listen fa \<and> \<not> Address_eq (dg_source_address datagram) (fc_destination (fa_cfg fa)) then Inr (None, fa)
      else
        rbind (TCPSegment_parse TCPSegment_new (Buffer_of (dg_payload datagram)) 0) (\<lambda>(r, seg).
        if r \<noteq> NoError then Inr (None, fa)
        else if fa_listen fa then
          if th_syn (ts_header seg) \<and> \<not> th_rst (ts_header seg)
          then Inr (Some seg, FdAdapterBase_set_listening False
                 (fa\<lparr>fa_cfg := (fa_cfg fa)\<lparr>fc_destination := dg_source_address datagram\<rparr>\<rparr>))
          else Inr (None, fa)
        else Inr (Some seg, fa)))"

definition UDPAdapter_write ::
  "resolver \<Rightarrow> tcp_segment \<Rightarrow> fd_adapter_base \<Rightarrow> ((address \<times> buffer_list) \<times> tcp_segment) res" where
  "UDPAdapter_write rs seg fa =
     rbind (Address_port rs (fc_source (fa_cfg fa))) (\<lambda>sport.
     rbind (Address_port rs (fc_destination (fa_cfg fa))) (\<lambda>dport.
     let seg = seg\<lparr>ts_header := (ts_header seg)\<lparr>th_sport := sport, th_dport := dport\<rparr>\<rparr> in
     rbind (TCPSegment_serialize seg 0) (\<lambda>payload. Inr ((fc_destination (fa_cfg fa), payload), seg))))"

subsection \<open>TUN\<close>

definition TunAdapter_read ::
  "resolver \<Rightarrow> bytes \<Rightarrow> fd_adapter_base \<Rightarrow> (tcp_segment option \<times> fd_adapter_base) res" where
  "TunAdapter_read rs s fa =
     rbind (IPv4Datagram_parse IPv4Datagram_new (Buffer_of s)) (\<lambda>(r, ip_dgram).
     if r \<noteq> NoError then Inr (None, fa) else unwrap_tcp_in_ip rs ip_dgram fa)"

definition TunAdapter_write :: "resolver \<Rightarrow> tcp_segment \<Rightarrow> fd_adapter_base \<Rightarrow> (buffer_list \<times> tcp_segment) res" where
  "TunAdapter_write rs seg fa =
     rbind (wrap_tcp_in_ip rs seg fa) (\<lambda>(ip_dgram, seg).
     rbind (IPv4Datagram_serialize ip_dgram) (\<lambda>s. Inr (s, seg)))"

subsection \<open>TAP\<close>

record eth_adapter =
  ea_base :: fd_adapter_base
  ea_interface :: network_interface
  ea_next_hop :: address

definition EthernetAdapter_new ::
  "resolver \<Rightarrow> ethernet_address \<Rightarrow> address \<Rightarrow> address \<Rightarrow> (buffer_list list \<times> eth_adapter) res" where
  "EthernetAdapter_new rs eth_address ip_address next_hop =
     rbind (FdAdapterBase_new rs) (\<lambda>base.
     rbind (NetworkInterface_new rs eth_address ip_address) (\<lambda>ni.
     let dummy_frame = EthernetFrame_new
     in Inr ([EthernetFrame_serialize dummy_frame], \<lparr>ea_base = base, ea_interface = ni, ea_next_hop = next_hop\<rparr>)))"

definition EthernetAdapter_send_pending :: "eth_adapter \<Rightarrow> buffer_list list \<times> eth_adapter" where
  "EthernetAdapter_send_pending ea =
     (map EthernetFrame_serialize (ni_frames_out (ea_interface ea)),
      ea\<lparr>ea_interface := (ea_interface ea)\<lparr>ni_frames_out := []\<rparr>\<rparr>)"

definition EthernetAdapter_read ::
  "resolver \<Rightarrow> bytes \<Rightarrow> eth_adapter \<Rightarrow> (tcp_segment option \<times> buffer_list list \<times> eth_adapter) res" where
  "EthernetAdapter_read rs s ea =
     rbind (EthernetFrame_parse EthernetFrame_new (Buffer_of s)) (\<lambda>(r, frame).
     if r \<noteq> NoError then Inr (None, [], ea)
     else
       rbind (NetworkInterface_recv_frame frame (ea_interface ea)) (\<lambda>(ip_dgram, ni).
       let (out, ea) = EthernetAdapter_send_pending (ea\<lparr>ea_interface := ni\<rparr>) in
       case ip_dgram of
         None \<Rightarrow> Inr (None, out, ea)
       | Some dg \<Rightarrow> rbind (unwrap_tcp_in_ip rs dg (ea_base ea)) (\<lambda>(seg, base). Inr (seg, out, ea\<lparr>ea_base := base\<rparr>))))"

definition EthernetAdapter_tick :: "u64 \<Rightarrow> eth_adapter \<Rightarrow> buffer_list list \<times> eth_adapter" where
  "EthernetAdapter_tick ms_since_last_tick ea =
     EthernetAdapter_send_pending (ea\<lparr>ea_interface := NetworkInterface_tick ms_since_last_tick (ea_interface ea)\<rparr>)"

definition EthernetAdapter_write ::
  "resolver \<Rightarrow> tcp_segment \<Rightarrow> eth_adapter \<Rightarrow> (buffer_list list \<times> tcp_segment \<times> eth_adapter) res" where
  "EthernetAdapter_write rs seg ea =
     rbind (wrap_tcp_in_ip rs seg (ea_base ea)) (\<lambda>(dg, seg).
     rbind (NetworkInterface_send_datagram dg (ea_next_hop ea) (ea_interface ea)) (\<lambda>ni.
     let (out, ea) = EthernetAdapter_send_pending (ea\<lparr>ea_interface := ni\<rparr>) in Inr (out, seg, ea)))"

subsection \<open>Losses\<close>

text \<open>The number drawn from the random generator is an argument; it is not used when the rate is zero.\<close>

definition should_drop :: "fd_adapter_config \<Rightarrow> bool \<Rightarrow> u32 \<Rightarrow> bool" where
  "should_drop cfg uplink rnd =
     (let loss = (if uplink then fc_loss_rate_up cfg else fc_loss_rate_dn cfg)
      in loss \<noteq> 0 \<and> (ucast rnd :: u16) < loss)"

definition LossyFdAdapter_read ::
  "('w \<Rightarrow> 'a \<Rightarrow> (tcp_segment option \<times> 'a) res) \<Rightarrow> ('a \<Rightarrow> fd_adapter_config) \<Rightarrow> u32 \<Rightarrow> 'w \<Rightarrow> 'a \<Rightarrow> (tcp_segment option \<times> 'a) res" where
  "LossyFdAdapter_read adapter_read config rnd w a =
     rbind (adapter_read w a) (\<lambda>(ret, a). if should_drop (config a) False rnd then Inr (None, a) else Inr (ret, a))"

definition LossyFdAdapter_write ::
  "(tcp_segment \<Rightarrow> 'a \<Rightarrow> ('w \<times> tcp_segment) res) \<Rightarrow> ('a \<Rightarrow> fd_adapter_config) \<Rightarrow> u32 \<Rightarrow> tcp_segment \<Rightarrow> 'a \<Rightarrow>
     ('w option \<times> tcp_segment) res" where
  "LossyFdAdapter_write adapter_write config rnd seg a =
     (if should_drop (config a) True rnd then Inr (None, seg)
      else rbind (adapter_write seg a) (\<lambda>(w, seg). Inr (Some w, seg)))"

subsection \<open>The contract\<close>

text \<open>Two segments with the same payload and the same header, as \<^verbatim>\<open>TCPHeader::operator==\<close> compares it.\<close>

definition same_content :: "tcp_segment \<Rightarrow> tcp_segment \<Rightarrow> bool" where
  "same_content seg seg' \<longleftrightarrow> TCPHeader_eq (ts_header seg) (ts_header seg') \<and>
     buffer_ok (ts_payload seg') \<and> Buffer_str (ts_payload seg') = Buffer_str (ts_payload seg)"

lemma same_content_addressed: "same_segment (addressed own peer seg) c seg' \<Longrightarrow> same_content seg seg'"
  by (simp add: same_segment_def same_content_def addressed_def TCPHeader_eq_def)

fun transfer ::
  "(tcp_segment \<Rightarrow> 'a \<Rightarrow> ('w \<times> 'a) res) \<Rightarrow> ('w \<Rightarrow> 'b \<Rightarrow> (tcp_segment option \<times> 'b) res) \<Rightarrow>
     tcp_segment list \<Rightarrow> 'a \<Rightarrow> 'b \<Rightarrow> (tcp_segment option list \<times> 'a \<times> 'b) res" where
  "transfer wr rd [] a b = Inr ([], a, b)"
| "transfer wr rd (seg # segs) a b =
     rbind (wr seg a) (\<lambda>(w, a). rbind (rd w b) (\<lambda>(r, b).
     rbind (transfer wr rd segs a b) (\<lambda>(rs, a, b). Inr (r # rs, a, b))))"

locale segment_channel =
  fixes wr :: "tcp_segment \<Rightarrow> 'a \<Rightarrow> ('w \<times> 'a) res"
    and rd :: "'w \<Rightarrow> 'b \<Rightarrow> (tcp_segment option \<times> 'b) res"
    and linked :: "'a \<Rightarrow> 'b \<Rightarrow> bool"
  assumes deliver: "linked a b \<Longrightarrow> segment_fits seg \<Longrightarrow>
    \<exists>w a' seg' b'. wr seg a = Inr (w, a') \<and> rd w b = Inr (Some seg', b') \<and> same_content seg seg' \<and> linked a' b'"
begin

lemma deliver_all:
  assumes "linked a b" and "\<forall>seg \<in> set segs. segment_fits seg"
  shows "\<exists>out a' b'. transfer wr rd segs a b = Inr (map Some out, a', b') \<and> list_all2 same_content segs out \<and> linked a' b'"
  using assms
proof (induction segs arbitrary: a b)
  case (Cons seg segs)
  then obtain w a1 seg' b1 where s: "wr seg a = Inr (w, a1)" "rd w b = Inr (Some seg', b1)" "same_content seg seg'" "linked a1 b1"
    using deliver [of a b seg] by auto
  with Cons.IH [of a1 b1] Cons.prems(2) obtain out a' b' where
    "transfer wr rd segs a1 b1 = Inr (map Some out, a', b')" "list_all2 same_content segs out" "linked a' b'" by auto
  with s show ?case by (intro exI [of _ "seg' # out"] exI [of _ a'] exI [of _ b']) simp
qed simp

end

subsection \<open>UDP and TUN meet it\<close>

definition udp_wr :: "resolver \<Rightarrow> tcp_segment \<Rightarrow> fd_adapter_base \<Rightarrow> ((address \<times> buffer_list) \<times> fd_adapter_base) res" where
  "udp_wr rs seg a = rbind (UDPAdapter_write rs seg a) (\<lambda>(w, _). Inr (w, a))"

text \<open>The network delivers the payload together with the address of the sender.\<close>

definition udp_rd :: "address \<Rightarrow> address \<times> buffer_list \<Rightarrow> fd_adapter_base \<Rightarrow> (tcp_segment option \<times> fd_adapter_base) res" where
  "udp_rd sender w b = UDPAdapter_read \<lparr>dg_source_address = sender, dg_payload = BufferList_concatenate (snd w)\<rparr> b"

definition udp_linked :: "resolver \<Rightarrow> u32 \<times> u16 \<Rightarrow> u32 \<times> u16 \<Rightarrow> fd_adapter_base \<Rightarrow> fd_adapter_base \<Rightarrow> bool" where
  "udp_linked rs own peer a b \<longleftrightarrow> endpoint_cfg rs own peer a \<and> \<not> fa_listen b \<and>
     fc_destination (fa_cfg b) = inet_address (fst own) (snd own)"

interpretation udp: segment_channel "udp_wr rs" "udp_rd (inet_address (fst own) (snd own))" "udp_linked rs own peer"
proof
  fix a b seg
  assume l: "udp_linked rs own peer a b" and fits: "segment_fits seg"
  let ?s = "addressed own peer seg"
  have ok: "segment_ok ?s" using fits by (simp add: segment_fits_def addressed_def segment_ok_def)
  have z: "unat (0 :: u32) < 1000000" by simp
  obtain bl c where bl: "TCPSegment_serialize ?s 0 = Inr bl"
    "length (BufferList_concatenate bl) = 4 * unat (th_doff (ts_header ?s)) + length (Buffer_str (ts_payload ?s))"
    and parse: "\<And>seg0 b. buffer_ok b \<Longrightarrow> Buffer_str b = BufferList_concatenate bl \<Longrightarrow>
       \<exists>seg'. TCPSegment_parse seg0 b 0 = Inr (NoError, seg') \<and> same_segment ?s c seg'"
    using segment_roundtrip [OF ok z] by metis
  have "str_ok (BufferList_concatenate bl)" using bl(2) fits by (simp add: segment_fits_def addressed_def)
  then obtain seg' where seg': "TCPSegment_parse TCPSegment_new (Buffer_of (BufferList_concatenate bl)) 0 = Inr (NoError, seg')"
    "same_segment ?s c seg'" using parse [of "Buffer_of (BufferList_concatenate bl)" TCPSegment_new] by auto
  let ?w = "(inet_address (fst peer) (snd peer), bl)"
  have "udp_wr rs seg a = Inr (?w, a)"
    using l bl(1) by (simp add: udp_wr_def UDPAdapter_write_def udp_linked_def endpoint_cfg_def addressed_def Let_def)
  moreover have "udp_rd (inet_address (fst own) (snd own)) ?w b = Inr (Some seg', b)"
    using l seg'(1) by (simp add: udp_rd_def UDPAdapter_read_def udp_linked_def)
  ultimately show "\<exists>w a' seg' b'. udp_wr rs seg a = Inr (w, a') \<and> udp_rd (inet_address (fst own) (snd own)) w b = Inr (Some seg', b') \<and>
      same_content seg seg' \<and> udp_linked rs own peer a' b'"
    using same_content_addressed [OF seg'(2)] l by blast
qed

definition tun_wr :: "resolver \<Rightarrow> tcp_segment \<Rightarrow> fd_adapter_base \<Rightarrow> (buffer_list \<times> fd_adapter_base) res" where
  "tun_wr rs seg a = rbind (TunAdapter_write rs seg a) (\<lambda>(w, _). Inr (w, a))"

definition tun_rd :: "resolver \<Rightarrow> buffer_list \<Rightarrow> fd_adapter_base \<Rightarrow> (tcp_segment option \<times> fd_adapter_base) res" where
  "tun_rd rs w b = TunAdapter_read rs (BufferList_concatenate w) b"

definition tun_linked :: "resolver \<Rightarrow> u32 \<times> u16 \<Rightarrow> u32 \<times> u16 \<Rightarrow> fd_adapter_base \<Rightarrow> fd_adapter_base \<Rightarrow> bool" where
  "tun_linked rs own peer a b \<longleftrightarrow> endpoint_cfg rs own peer a \<and> endpoint_cfg rs peer own b \<and> \<not> fa_listen b"

text \<open>A datagram on the wire, and what its receiver makes of it.\<close>

lemma datagram_wire:
  assumes "datagram_ok dg"
  obtains bl dg' c where "IPv4Datagram_serialize dg = Inr bl" "buffer_list_ok bl" "length (BufferList_concatenate bl) < 65536"
    "IPv4Datagram_parse IPv4Datagram_new (Buffer_of (BufferList_concatenate bl)) = Inr (NoError, dg')" "same_datagram dg c dg'"
proof -
  obtain bl c where bl: "IPv4Datagram_serialize dg = Inr bl" "buffer_list_ok bl"
    "length (BufferList_concatenate bl) = unat (ih_len (id_header dg))"
    and parse: "\<And>dg0 b. buffer_ok b \<Longrightarrow> Buffer_str b = BufferList_concatenate bl \<Longrightarrow>
       \<exists>dg'. IPv4Datagram_parse dg0 b = Inr (NoError, dg') \<and> same_datagram dg c dg'"
    using datagram_roundtrip [OF assms] by metis
  have short: "length (BufferList_concatenate bl) < 65536" using bl(3) by simp
  then have "str_ok (BufferList_concatenate bl)" by linarith
  with parse [of "Buffer_of (BufferList_concatenate bl)" IPv4Datagram_new] obtain dg' where
    "IPv4Datagram_parse IPv4Datagram_new (Buffer_of (BufferList_concatenate bl)) = Inr (NoError, dg')" "same_datagram dg c dg'" by auto
  with bl short show thesis by (intro that)
qed

interpretation tun: segment_channel "tun_wr rs" "tun_rd rs" "tun_linked rs own peer"
proof
  fix a b seg
  assume l: "tun_linked rs own peer a b" and fits: "segment_fits seg"
  then have cfg: "endpoint_cfg rs own peer a" "endpoint_cfg rs peer own b" "\<not> fa_listen b" by (simp_all add: tun_linked_def)
  obtain dg where dg: "wrap_tcp_in_ip rs seg a = Inr (dg, addressed own peer seg)" "datagram_ok dg"
    "\<And>c dg'. same_datagram dg c dg' \<Longrightarrow> carries own peer seg dg'" using wrap_ok [OF cfg(1) fits] by metis
  from dg(2) obtain bl dg' c where bl: "IPv4Datagram_serialize dg = Inr bl"
    "IPv4Datagram_parse IPv4Datagram_new (Buffer_of (BufferList_concatenate bl)) = Inr (NoError, dg')" "same_datagram dg c dg'"
    by (rule datagram_wire)
  from cfg(2,3) dg(3) [OF bl(3)] obtain seg' c where seg': "unwrap_tcp_in_ip rs dg' b = Inr (Some seg', b)"
    "same_segment (addressed own peer seg) c seg'" by (rule unwrap_ok)
  have "tun_wr rs seg a = Inr (bl, a)" "tun_rd rs bl b = Inr (Some seg', b)"
    using dg(1) bl(1,2) seg'(1) by (simp_all add: tun_wr_def TunAdapter_write_def tun_rd_def TunAdapter_read_def)
  with l same_content_addressed [OF seg'(2)] show "\<exists>w a' seg' b'. tun_wr rs seg a = Inr (w, a') \<and> tun_rd rs w b = Inr (Some seg', b') \<and>
      same_content seg seg' \<and> tun_linked rs own peer a' b'" by blast
qed

subsection \<open>Ethernet meets it\<close>

definition eth_wr :: "resolver \<Rightarrow> tcp_segment \<Rightarrow> eth_adapter \<Rightarrow> (buffer_list list \<times> eth_adapter) res" where
  "eth_wr rs seg a = rbind (EthernetAdapter_write rs seg a) (\<lambda>(out, _, a). Inr (out, a))"

definition eth_rd :: "resolver \<Rightarrow> buffer_list list \<Rightarrow> eth_adapter \<Rightarrow> (tcp_segment option \<times> eth_adapter) res" where
  "eth_rd rs out b = (case out of
     [bl] \<Rightarrow> rbind (EthernetAdapter_read rs (BufferList_concatenate bl) b) (\<lambda>(seg, _, b). Inr (seg, b))
   | _ \<Rightarrow> Inr (None, b))"

text \<open>Connected adapters, the address of whose next hop has been resolved.\<close>

definition eth_linked :: "resolver \<Rightarrow> u32 \<times> u16 \<Rightarrow> u32 \<times> u16 \<Rightarrow> eth_adapter \<Rightarrow> eth_adapter \<Rightarrow> bool" where
  "eth_linked rs own peer a b \<longleftrightarrow> endpoint_cfg rs own peer (ea_base a) \<and> endpoint_cfg rs peer own (ea_base b) \<and>
     \<not> fa_listen (ea_base b) \<and> addr_ok (ni_ethernet_address (ea_interface a)) \<and> addr_ok (ni_ethernet_address (ea_interface b)) \<and>
     ni_frames_out (ea_interface a) = [] \<and> ni_frames_out (ea_interface b) = [] \<and> omap_ok (ni_dg_map (ea_interface a)) \<and>
     (\<exists>hop. Address_ipv4_numeric (ea_next_hop a) = Inr hop \<and> dg_queue (ni_dg_map (ea_interface a)) hop = [] \<and>
        omap_find (ni_ip_to_eth_table (ea_interface a)) hop = Some (ni_ethernet_address (ea_interface b)))"

lemma recv_frame_cong:
  assumes "same_frame f f'"
  shows "NetworkInterface_recv_frame f' ni = NetworkInterface_recv_frame f ni"
proof -
  have h: "ef_header f' = ef_header f" "BufferList_concatenate (ef_payload f') = BufferList_concatenate (ef_payload f)"
    using assms by (simp_all add: same_frame_def)
  show ?thesis unfolding NetworkInterface_recv_frame_def h by (rule refl)
qed

lemma frame_wire:
  assumes dg: "datagram_ok dg" and f: "sent_as src (ip, ni_ethernet_address ni, dg) f"
    and a: "addr_ok src" "addr_ok (ni_ethernet_address ni)"
  obtains f' dg' c where
    "EthernetFrame_parse EthernetFrame_new (Buffer_of (BufferList_concatenate (EthernetFrame_serialize f))) = Inr (NoError, f')"
    "NetworkInterface_recv_frame f' ni = Inr (Some dg', ni)" "same_datagram dg c dg'"
proof -
  from dg obtain bl where bl: "IPv4Datagram_serialize dg = Inr bl" "buffer_list_ok bl" "length (BufferList_concatenate bl) < 65536"
    by (rule datagram_wire)
  have ok: "frame_ok f"
    using f bl a by (simp add: frame_ok_def sent_as_def eth_header_ok_def)
  from frame_serialize_concat(3) [OF ok] obtain f' where
    "EthernetFrame_parse EthernetFrame_new (Buffer_of (BufferList_concatenate (EthernetFrame_serialize f))) = Inr (NoError, f')"
    "same_frame f f'"
    using frame_roundtrip [OF ok, of "Buffer_of (BufferList_concatenate (EthernetFrame_serialize f))" EthernetFrame_new] by auto
  moreover from dg f obtain dg' c where "NetworkInterface_recv_frame f ni = Inr (Some dg', ni)" "same_datagram dg c dg'"
    by (rule recv_frame_datagram)
  ultimately show thesis using recv_frame_cong [of f f' ni] by (intro that [of f' dg' c]) simp_all
qed

lemma send_resolved:
  assumes "Address_ipv4_numeric next_hop = Inr hop" and q: "dg_queue (ni_dg_map ni) hop = []" and ok: "omap_ok (ni_dg_map ni)"
    and "omap_find (ni_ip_to_eth_table ni) hop = Some eth" and dg: "datagram_ok dg" and "ni_frames_out ni = []"
  obtains f ni' where "NetworkInterface_send_datagram dg next_hop ni = Inr ni'" "ni_frames_out ni' = [f]"
    "sent_as (ni_ethernet_address ni) (hop, eth, dg) f" "omap_ok (ni_dg_map ni')" "dg_queue (ni_dg_map ni') hop = []"
    "ni_ip_to_eth_table ni' = ni_ip_to_eth_table ni" "ni_ethernet_address ni' = ni_ethernet_address ni"
proof -
  let ?Q = "ni_queued hop dg ni"
  have Q: "omap_ok (ni_dg_map ?Q)" "dg_queue (ni_dg_map ?Q) hop = [dg]" using q ok by simp_all
  from dg Q obtain f m where f: "NetworkInterface_flush_buffer hop eth ?Q = Inr (?Q\<lparr>ni_dg_map := m, ni_frames_out := ni_frames_out ?Q @ [f]\<rparr>)"
    "sent_as (ni_ethernet_address ?Q) (hop, eth, dg) f" by (rule flush_buffer_single)
  note mv = flush_buffer_moves(1) [OF f(1) Q(1)]
  have m: "omap_ok m" using mv by (simp add: moves_def)
  have "sent_to hop [(hop, eth, dg)] @ dg_queue m hop = [dg]" using mv Q(2) by (simp add: moves_def)
  then have "dg_queue m hop = []" by (simp add: sent_to_def)
  with f m send_datagram_cases(1) [OF assms(1,4)] assms(6) show thesis
    by (intro that [of "?Q\<lparr>ni_dg_map := m, ni_frames_out := ni_frames_out ?Q @ [f]\<rparr>" f]) simp_all
qed

interpretation eth: segment_channel "eth_wr rs" "eth_rd rs" "eth_linked rs own peer"
proof
  fix a b seg
  assume l: "eth_linked rs own peer a b" and fits: "segment_fits seg"
  let ?na = "ea_interface a" and ?nb = "ea_interface b"
  from l obtain hop where cfg: "endpoint_cfg rs own peer (ea_base a)" "endpoint_cfg rs peer own (ea_base b)" "\<not> fa_listen (ea_base b)"
    and ad: "addr_ok (ni_ethernet_address ?na)" "addr_ok (ni_ethernet_address ?nb)"
    and out: "ni_frames_out ?na = []" "ni_frames_out ?nb = []" and ok: "omap_ok (ni_dg_map ?na)"
    and hop: "Address_ipv4_numeric (ea_next_hop a) = Inr hop" "dg_queue (ni_dg_map ?na) hop = []"
      "omap_find (ni_ip_to_eth_table ?na) hop = Some (ni_ethernet_address ?nb)" by (auto simp: eth_linked_def)
  obtain dg where dg: "wrap_tcp_in_ip rs seg (ea_base a) = Inr (dg, addressed own peer seg)" "datagram_ok dg"
    "\<And>c dg'. same_datagram dg c dg' \<Longrightarrow> carries own peer seg dg'" using wrap_ok [OF cfg(1) fits] by metis
  from hop(1,2) ok hop(3) dg(2) out(1) obtain f ni where
    f: "NetworkInterface_send_datagram dg (ea_next_hop a) ?na = Inr ni" "ni_frames_out ni = [f]"
      "sent_as (ni_ethernet_address ?na) (hop, ni_ethernet_address ?nb, dg) f" "omap_ok (ni_dg_map ni)" "dg_queue (ni_dg_map ni) hop = []"
      "ni_ip_to_eth_table ni = ni_ip_to_eth_table ?na" "ni_ethernet_address ni = ni_ethernet_address ?na"
    by (rule send_resolved)
  from dg(2) f(3) ad obtain f' dg' c where
    f': "EthernetFrame_parse EthernetFrame_new (Buffer_of (BufferList_concatenate (EthernetFrame_serialize f))) = Inr (NoError, f')"
      "NetworkInterface_recv_frame f' ?nb = Inr (Some dg', ?nb)" "same_datagram dg c dg'" by (rule frame_wire)
  from cfg(2,3) dg(3) [OF f'(3)] obtain seg' c where seg': "unwrap_tcp_in_ip rs dg' (ea_base b) = Inr (Some seg', ea_base b)"
    "same_segment (addressed own peer seg) c seg'" by (rule unwrap_ok)
  let ?a = "a\<lparr>ea_interface := ni\<lparr>ni_frames_out := []\<rparr>\<rparr>"
  have "eth_wr rs seg a = Inr ([EthernetFrame_serialize f], ?a)"
    using dg(1) f(1,2) by (simp add: eth_wr_def EthernetAdapter_write_def EthernetAdapter_send_pending_def)
  moreover have "eth_rd rs [EthernetFrame_serialize f] b = Inr (Some seg', b)"
    using f'(1,2) seg'(1) out(2) by (simp add: eth_rd_def EthernetAdapter_read_def EthernetAdapter_send_pending_def)
  moreover have "eth_linked rs own peer ?a b"
    using cfg ad out(2) f(4-7) hop(1,3) unfolding eth_linked_def by simp
  ultimately show "\<exists>w a' seg' b'. eth_wr rs seg a = Inr (w, a') \<and> eth_rd rs w b = Inr (Some seg', b') \<and>
      same_content seg seg' \<and> eth_linked rs own peer a' b'"
    using same_content_addressed [OF seg'(2)] by blast
qed

subsection \<open>Properties\<close>

text \<open>
  C28. TCP segments cross every kind of link. Over connected adapters that put segments into UDP
  payloads, into IPv4 datagrams on a TUN device, or into IPv4 datagrams in Ethernet frames on a
  TAP device whose next hop is resolved, any sequence of segments that fit a datagram is written
  without an exception and read on the other side in the same order, each with its payload and
  header unchanged but for the ports and the checksum, and the adapters stay connected.
\<close>

theorem segments_cross:
  assumes "\<forall>seg \<in> set segs. segment_fits seg"
    and "udp_linked rs own peer u v" and "tun_linked rs own peer s t" and "eth_linked rs own peer a b"
  shows "(\<exists>out u' v'. transfer (udp_wr rs) (udp_rd (inet_address (fst own) (snd own))) segs u v = Inr (map Some out, u', v') \<and>
       list_all2 same_content segs out \<and> udp_linked rs own peer u' v') \<and>
     (\<exists>out s' t'. transfer (tun_wr rs) (tun_rd rs) segs s t = Inr (map Some out, s', t') \<and>
       list_all2 same_content segs out \<and> tun_linked rs own peer s' t') \<and>
     (\<exists>out a' b'. transfer (eth_wr rs) (eth_rd rs) segs a b = Inr (map Some out, a', b') \<and>
       list_all2 same_content segs out \<and> eth_linked rs own peer a' b')"
  using udp.deliver_all [OF assms(2,1)] tun.deliver_all [OF assms(3,1)] eth.deliver_all [OF assms(4,1)] by blast

definition demo_eth_adapter :: "nat \<Rightarrow> u32 \<times> u16 \<Rightarrow> nat \<Rightarrow> u32 \<times> u16 \<Rightarrow> eth_adapter" where
  "demo_eth_adapter n own k peer = \<lparr>ea_base = demo_adapter own peer,
     ea_interface = (demo_interface_at n (fst own))\<lparr>ni_ip_to_eth_table := [(fst peer, demo_eth k)]\<rparr>,
     ea_next_hop = inet_address (fst peer) 0\<rparr>"

theorem segments_cross_witness:
  "\<exists>out a' b'. transfer (eth_wr dotted_resolver) (eth_rd dotted_resolver)
       [TCPSegment_new\<lparr>ts_payload := Buffer_of [104, 105]\<rparr>, TCPSegment_new\<lparr>ts_payload := Buffer_of [104, 105]\<rparr>]
       (demo_eth_adapter 1 (1, 1234) 2 (2, 80)) (demo_eth_adapter 2 (2, 80) 1 (1, 1234)) = Inr (map Some out, a', b') \<and> length out = 2"
proof -
  let ?seg = "TCPSegment_new\<lparr>ts_payload := Buffer_of [104, 105]\<rparr>"
  let ?a = "demo_eth_adapter 1 (1, 1234) 2 (2, 80)" and ?b = "demo_eth_adapter 2 (2, 80) 1 (1, 1234)"
  let ?s = "demo_adapter (1, 1234) (2, 80)" and ?t = "demo_adapter (2, 80) (1, 1234)"
  have "eth_linked dotted_resolver (1, 1234) (2, 80) ?a ?b"
    using demo_adapter_cfg [of "(1, 1234)" "(2, 80)"] demo_adapter_cfg [of "(2, 80)" "(1, 1234)"]
    by (simp add: eth_linked_def demo_eth_adapter_def demo_interface_at_def demo_eth_def addr_ok_def dg_queue_def omap_find_def
        demo_adapter_def)
  note e = this
  have ut: "udp_linked dotted_resolver (1, 1234) (2, 80) ?s ?t" "tun_linked dotted_resolver (1, 1234) (2, 80) ?s ?t"
    using demo_adapter_cfg [of "(1, 1234)" "(2, 80)"] demo_adapter_cfg [of "(2, 80)" "(1, 1234)"]
    by (simp_all add: udp_linked_def tun_linked_def demo_adapter_def)
  have "\<forall>seg \<in> set [?seg, ?seg]. segment_fits seg" using demo_segment_fits by simp
  from segments_cross [OF this ut e] obtain out a' b' where
    t: "transfer (eth_wr dotted_resolver) (eth_rd dotted_resolver) [?seg, ?seg] ?a ?b = Inr (map Some out, a', b')"
    and l: "list_all2 same_content [?seg, ?seg] out" by blast
  from list_all2_lengthD [OF l] have "length out = 2" by simp
  with t show ?thesis by blast
qed

text \<open>
  A lossy adapter with loss rates of zero is the adapter it wraps, whatever the random number, and
  with any rates a dropped read still leaves the state that the read led to.
\<close>

lemma lossy_read_transparent:
  assumes "rd w a = Inr (r, a')"
  shows "LossyFdAdapter_read rd cfg rnd w a = Inr (if should_drop (cfg a') False rnd then None else r, a')"
    and "fc_loss_rate_dn (cfg a') = 0 \<Longrightarrow> LossyFdAdapter_read rd cfg rnd w a = rd w a"
  using assms by (simp_all add: LossyFdAdapter_read_def should_drop_def)

lemma lossy_write_transparent:
  assumes "fc_loss_rate_up (cfg a) = 0"
  shows "LossyFdAdapter_write wr cfg rnd seg a = rbind (wr seg a) (\<lambda>(w, seg). Inr (Some w, seg))"
  using assms by (simp add: LossyFdAdapter_write_def should_drop_def)

end
