(* ===== verification/File_Descriptor.thy ===== *)
theory File_Descriptor
  imports Address
begin

text \<open>
  \<^verbatim>\<open>SystemCall\<close> of \<^verbatim>\<open>libsponge/util/util.cc\<close>, and \<^verbatim>\<open>file_descriptor.hh\<close> and \<^verbatim>\<open>file_descriptor.cc\<close>: a
  file descriptor with its end-of-file and closed flags and its counters. The kernel is a
  parameter: a state of any type with the system calls as functions on it, each giving its return
  value and \<^verbatim>\<open>errno\<close>. The \<^verbatim>\<open>FDWrapper\<close> that the copies of a \<^verbatim>\<open>FileDescriptor\<close> share is one record in
  the state of whoever owns them.
\<close>

subsection \<open>System calls\<close>

text \<open>\<^verbatim>\<open>SystemCall\<close> takes the return value as an \<^verbatim>\<open>int\<close> of 32 bits, whatever its type was.\<close>

definition SystemCall :: "string \<Rightarrow> int \<Rightarrow> int \<Rightarrow> int \<Rightarrow> int res" where
  "SystemCall attempt return_value err errno_mask =
     (let return_value = signed_take_bit 31 return_value in
      if 0 \<le> return_value \<or> err = errno_mask then Inr return_value else Inl (System_error attempt err))"

record 'k syscalls =
  sc_read :: "int \<Rightarrow> u64 \<Rightarrow> 'k \<Rightarrow> int \<times> int \<times> bytes \<times> 'k"
  sc_writev :: "int \<Rightarrow> (bytes \<times> u64) list \<Rightarrow> 'k \<Rightarrow> int \<times> int \<times> 'k"
  sc_close :: "int \<Rightarrow> 'k \<Rightarrow> int \<times> int \<times> 'k"
  sc_fcntl :: "int \<Rightarrow> int \<Rightarrow> int \<Rightarrow> 'k \<Rightarrow> int \<times> int \<times> 'k"
  sc_shutdown :: "int \<Rightarrow> int \<Rightarrow> 'k \<Rightarrow> int \<times> int \<times> 'k"
  sc_poll :: "(int \<times> u16) list \<Rightarrow> int \<Rightarrow> 'k \<Rightarrow> int \<times> int \<times> u16 list \<times> 'k"

subsection \<open>Descriptors\<close>

record fd_wrapper =
  fd_fd :: int
  fd_eof :: bool
  fd_closed :: bool
  fd_read_count :: u32
  fd_write_count :: u32

definition FDWrapper_new :: "int \<Rightarrow> fd_wrapper res" where
  "FDWrapper_new fd =
     (if fd < 0 then Inl (Runtime_error (''invalid fd number:-'' @ dec_string (nat (- fd))))
      else Inr \<lparr>fd_fd = fd, fd_eof = False, fd_closed = False, fd_read_count = 0, fd_write_count = 0\<rparr>)"

definition FDWrapper_close :: "'k syscalls \<Rightarrow> fd_wrapper \<Rightarrow> 'k \<Rightarrow> (fd_wrapper \<times> 'k) res" where
  "FDWrapper_close sc fd k =
     (let (ret, err, k) = sc_close sc (fd_fd fd) k in
      rbind (SystemCall ''close'' ret err 0) (\<lambda>_. Inr (fd\<lparr>fd_eof := True, fd_closed := True\<rparr>, k)))"

text \<open>The destructor catches what \<^verbatim>\<open>close\<close> throws.\<close>

definition FDWrapper_destroy :: "'k syscalls \<Rightarrow> fd_wrapper \<Rightarrow> 'k \<Rightarrow> 'k" where
  "FDWrapper_destroy sc fd k = (if fd_closed fd then k else let (ret, err, k) = sc_close sc (fd_fd fd) k in k)"

definition register_read :: "fd_wrapper \<Rightarrow> fd_wrapper" where
  "register_read fd = fd\<lparr>fd_read_count := fd_read_count fd + 1\<rparr>"

definition register_write :: "fd_wrapper \<Rightarrow> fd_wrapper" where
  "register_write fd = fd\<lparr>fd_write_count := fd_write_count fd + 1\<rparr>"

text \<open>The string is resized before the call, filled by it, and resized to what was read.\<close>

definition FileDescriptor_read :: "'k syscalls \<Rightarrow> u64 \<Rightarrow> fd_wrapper \<Rightarrow> 'k \<Rightarrow> (bytes \<times> fd_wrapper \<times> 'k) res" where
  "FileDescriptor_read sc limit fd k =
     (let BUFFER_SIZE = 1024 * 1024;
          size_to_read = min BUFFER_SIZE limit;
          (ret, err, filled, k) = sc_read sc (fd_fd fd) size_to_read k;
          str = take (unat size_to_read) (filled @ replicate (unat size_to_read) 0)
      in
      rbind (SystemCall ''read'' ret err 0) (\<lambda>bytes_read.
      let fd = (if 0 < limit \<and> bytes_read = 0 then fd\<lparr>fd_eof := True\<rparr> else fd) in
      if sint size_to_read < bytes_read then Inl (Runtime_error ''read() read more than requested'')
      else if bytes_read < 0 then Inl (Out_of_range ''resize'')
      else Inr (take (nat bytes_read) str, register_read fd, k)))"

primrec write_loop ::
  "nat \<Rightarrow> 'k syscalls \<Rightarrow> buffer_view_list \<Rightarrow> bool \<Rightarrow> u64 \<Rightarrow> fd_wrapper \<Rightarrow> 'k \<Rightarrow> (u64 \<times> fd_wrapper \<times> 'k) res" where
  "write_loop 0 sc buffer write_all total_bytes_written fd k = Inl (No_return ''FileDescriptor::write'')"
| "write_loop (Suc fuel) sc buffer write_all total_bytes_written fd k =
     (let iovecs = BufferViewList_as_iovecs buffer;
          (ret, err, k) = sc_writev sc (fd_fd fd) iovecs k
      in
      rbind (SystemCall ''writev'' ret err 0) (\<lambda>bytes_written.
      if bytes_written = 0 \<and> BufferViewList_size buffer \<noteq> 0
      then Inl (Runtime_error ''write returned 0 given non-empty input buffer'')
      else if sint (BufferViewList_size buffer) < bytes_written
      then Inl (Runtime_error ''write wrote more than length of input buffer'')
      else
        let fd = register_write fd in
        rbind (BufferViewList_remove_prefix buffer (word_of_int bytes_written)) (\<lambda>buffer.
        let total_bytes_written = total_bytes_written + word_of_int bytes_written in
        if write_all \<and> BufferViewList_size buffer \<noteq> 0
        then write_loop fuel sc buffer write_all total_bytes_written fd k
        else Inr (total_bytes_written, fd, k))))"

declare write_loop.simps(2) [simp del]

text \<open>Every turn of the loop but the last writes a byte, so one turn more than there are bytes is enough.\<close>

definition FileDescriptor_write ::
  "'k syscalls \<Rightarrow> buffer_view_list \<Rightarrow> bool \<Rightarrow> fd_wrapper \<Rightarrow> 'k \<Rightarrow> (u64 \<times> fd_wrapper \<times> 'k) res" where
  "FileDescriptor_write sc buffer write_all fd k =
     write_loop (Suc (unat (BufferViewList_size buffer))) sc buffer write_all 0 fd k"

definition O_NONBLOCK :: int where
  "O_NONBLOCK = 2048"

definition F_GETFL :: int where
  "F_GETFL = 3"

definition F_SETFL :: int where
  "F_SETFL = 4"

definition FileDescriptor_set_blocking :: "'k syscalls \<Rightarrow> bool \<Rightarrow> fd_wrapper \<Rightarrow> 'k \<Rightarrow> 'k res" where
  "FileDescriptor_set_blocking sc blocking_state fd k =
     (let (ret, err, k) = sc_fcntl sc (fd_fd fd) F_GETFL 0 k in
      rbind (SystemCall ''fcntl'' ret err 0) (\<lambda>flags.
      let flags = (if blocking_state then flags XOR (flags AND O_NONBLOCK) else flags OR O_NONBLOCK);
          (ret, err, k) = sc_fcntl sc (fd_fd fd) F_SETFL flags k
      in rbind (SystemCall ''fcntl'' ret err 0) (\<lambda>_. Inr k)))"

subsection \<open>Writing everything\<close>

text \<open>
  What the manual page promises of \<^verbatim>\<open>writev\<close> on a blocking descriptor without errors: on input
  that is not empty it takes at least one byte and at most all, from the front. \<open>sink\<close> is what
  the kernel has been given.
\<close>

definition writev_ok :: "'k syscalls \<Rightarrow> ('k \<Rightarrow> bytes) \<Rightarrow> bool" where
  "writev_ok sc sink \<longleftrightarrow> (\<forall>fd iov k. concat (map fst iov) \<noteq> [] \<longrightarrow>
     (case sc_writev sc fd iov k of (n, e, k') \<Rightarrow>
        0 < n \<and> n \<le> int (length (concat (map fst iov))) \<and> n < 2147483648 \<and>
        sink k' = sink k @ take (nat n) (concat (map fst iov))))"

lemma signed_take_bit_31: "0 \<le> n \<Longrightarrow> n < 2147483648 \<Longrightarrow> signed_take_bit 31 n = (n :: int)"
  by (simp add: signed_take_bit_int_eq_self)

lemma sint_small:
  assumes "unat (w :: u64) < 9223372036854775808"
  shows "sint w = int (unat w)"
proof -
  have "int (unat w) = uint w" by simp
  then have "uint w < 9223372036854775808" using assms by linarith
  then have "signed_take_bit 63 (uint w) = uint w"
    by (intro signed_take_bit_int_eq_self) (simp_all, use uint_ge_0 [of w] in linarith)
  then show ?thesis by (simp add: sint_uint)
qed

lemma iovecs_concat: "concat (map fst (BufferViewList_as_iovecs vs)) = concat vs"
  by (simp add: BufferViewList_as_iovecs_eq comp_def)

lemma write_turn:
  assumes k: "writev_ok sc sink" and vs: "list_all str_ok vs" "concat vs \<noteq> []" "length (concat vs) < 9223372036854775808"
  obtains n k' vs' where "0 < n" "n \<le> length (concat vs)" "list_all str_ok vs'" "concat vs' = drop n (concat vs)"
    "sink k' = sink k @ take n (concat vs)"
    "\<And>fuel all t. write_loop (Suc fuel) sc vs all t fd k =
       (if all \<and> n < length (concat vs)
        then write_loop fuel sc vs' all (t + of_nat n) (register_write fd) k'
        else Inr (t + of_nat n, register_write fd, k'))"
proof -
  obtain m e k' where c: "sc_writev sc (fd_fd fd) (BufferViewList_as_iovecs vs) k = (m, e, k')" by (metis prod_cases3)
  have m: "0 < m" "m \<le> int (length (concat vs))" "m < 2147483648" "sink k' = sink k @ take (nat m) (concat vs)"
    using k [unfolded writev_ok_def, rule_format, where iov = "BufferViewList_as_iovecs vs" and fd = "fd_fd fd" and k = k] vs(2) c
    by (simp_all add: iovecs_concat)
  have w: "word_of_int m = (of_nat (nat m) :: u64)" using m(1) by simp
  have un: "unat (of_nat (nat m) :: u64) = nat m" using m(3) by (simp add: unsigned_of_nat take_bit_nat_eq_self)
  have "unat (of_nat (nat m) :: u64) \<le> length (concat vs)" using un m(2) by simp
  from BufferViewList_remove_prefix_ok [OF vs(1) this] obtain vs' where
    vs': "BufferViewList_remove_prefix vs (of_nat (nat m)) = Inr vs'" "list_all str_ok vs'" "concat vs' = drop (nat m) (concat vs)"
    using un by auto
  have size: "BufferViewList_size vs \<noteq> 0" "sint (BufferViewList_size vs) = int (length (concat vs))"
    using vs(2,3) by (simp_all add: BufferViewList_size_eq size64_eq_0_iff sint_small)
  have rest: "BufferViewList_size vs' \<noteq> 0 \<longleftrightarrow> nat m < length (concat vs)"
    using vs(3) by (simp add: BufferViewList_size_eq size64_eq_0_iff vs'(3)) linarith
  have sys: "SystemCall ''writev'' m e 0 = Inr m" using m(1,3) by (simp add: SystemCall_def signed_take_bit_31)
  have rp: "BufferViewList_remove_prefix vs (word_of_int m) = Inr vs'" using vs'(1) unfolding w .
  have small: "\<not> sint (BufferViewList_size vs) < m" "m \<noteq> 0" using m(1,2) size(2) by simp_all
  have "write_loop (Suc fuel) sc vs all t fd k =
      (if all \<and> nat m < length (concat vs) then write_loop fuel sc vs' all (t + of_nat (nat m)) (register_write fd) k'
       else Inr (t + of_nat (nat m), register_write fd, k'))" for fuel all t
    using rest small unfolding write_loop.simps(2) Let_def c prod.case sys rbind.simps w [symmetric] by (simp add: rp)
  moreover have "0 < nat m" "nat m \<le> length (concat vs)" using m(1,2) by simp_all
  ultimately show thesis using vs'(2,3) m(4) by (intro that [of "nat m" vs' k'])
qed

lemma write_loop_all:
  assumes "writev_ok sc sink" and "list_all str_ok vs" and "concat vs \<noteq> []" and "length (concat vs) < 9223372036854775808"
    and "length (concat vs) \<le> fuel"
  shows "\<exists>fd' k'. write_loop (Suc fuel) sc vs True t fd k = Inr (t + size64 (concat vs), fd', k') \<and>
     sink k' = sink k @ concat vs \<and> fd_eof fd' = fd_eof fd \<and> fd_closed fd' = fd_closed fd"
  using assms
proof (induction fuel arbitrary: vs t fd k)
  case (Suc fuel)
  obtain n k' vs' where n: "0 < n" "n \<le> length (concat vs)" "list_all str_ok vs'" "concat vs' = drop n (concat vs)"
    "sink k' = sink k @ take n (concat vs)"
    and step: "\<And>fuel all t. write_loop (Suc fuel) sc vs all t fd k =
       (if all \<and> n < length (concat vs) then write_loop fuel sc vs' all (t + of_nat n) (register_write fd) k'
        else Inr (t + of_nat n, register_write fd, k'))"
    using write_turn [OF Suc.prems(1-4), where fd = fd and k = k] by metis
  show ?case
  proof (cases "n < length (concat vs)")
    case True
    have "concat vs' \<noteq> []" "length (concat vs') < 9223372036854775808" "length (concat vs') \<le> fuel"
      using True n(1) Suc.prems(4,5) by (simp_all add: n(4))
    from Suc.IH [OF Suc.prems(1) n(3) this, of "t + of_nat n" "register_write fd" k'] obtain fd' k'' where
      r: "write_loop (Suc fuel) sc vs' True (t + of_nat n) (register_write fd) k' = Inr (t + of_nat n + size64 (concat vs'), fd', k'')"
      "sink k'' = sink k' @ concat vs'" "fd_eof fd' = fd_eof fd" "fd_closed fd' = fd_closed fd"
      by (auto simp: register_write_def)
    have "of_nat n + size64 (concat vs') = size64 (concat vs)"
      using n(2) by (simp add: n(4) size64_def of_nat_diff)
    with r step [of "Suc fuel" True t] True n(5) show ?thesis by (simp add: n(4) add.assoc)
  next
    case False
    with n(2) have "n = length (concat vs)" by simp
    with step [of "Suc fuel" True t] n(5) show ?thesis by (simp add: size64_def register_write_def)
  qed
qed simp

text \<open>
  C17. Writing a buffer completely: as long as the kernel takes at least one byte of every
  non-empty write, \<^verbatim>\<open>FileDescriptor::write\<close> with \<^verbatim>\<open>write_all\<close> returns after finitely many calls, with
  the size of the buffer, and has given the kernel exactly its bytes, in order and once; without
  \<^verbatim>\<open>write_all\<close> it gives a non-empty beginning of them and returns its length.
\<close>

theorem write_all_complete:
  assumes "writev_ok sc sink" and "list_all str_ok vs" and "concat vs \<noteq> []" and "length (concat vs) < 9223372036854775808"
  shows "(\<exists>fd' k'. FileDescriptor_write sc vs True fd k = Inr (size64 (concat vs), fd', k') \<and> sink k' = sink k @ concat vs) \<and>
     (\<exists>n fd' k'. FileDescriptor_write sc vs False fd k = Inr (of_nat n, fd', k') \<and> 0 < n \<and> n \<le> length (concat vs) \<and>
        sink k' = sink k @ take n (concat vs))"
proof
  have size: "unat (BufferViewList_size vs) = length (concat vs)" using assms(4) by (simp add: BufferViewList_size_eq)
  show "\<exists>fd' k'. FileDescriptor_write sc vs True fd k = Inr (size64 (concat vs), fd', k') \<and> sink k' = sink k @ concat vs"
    using write_loop_all [OF assms order_refl, where t = 0 and fd = fd and k = k] by (auto simp: FileDescriptor_write_def size)
  obtain n k' vs' where "0 < n" "n \<le> length (concat vs)" "sink k' = sink k @ take n (concat vs)"
    and step: "\<And>fuel all t. write_loop (Suc fuel) sc vs all t fd k =
       (if all \<and> n < length (concat vs) then write_loop fuel sc vs' all (t + of_nat n) (register_write fd) k'
        else Inr (t + of_nat n, register_write fd, k'))"
    using write_turn [OF assms, where fd = fd and k = k] by metis
  then show "\<exists>n fd' k'. FileDescriptor_write sc vs False fd k = Inr (of_nat n, fd', k') \<and> 0 < n \<and> n \<le> length (concat vs) \<and>
        sink k' = sink k @ take n (concat vs)"
    by (auto simp: FileDescriptor_write_def)
qed

text \<open>A kernel that takes three bytes at a time.\<close>

definition slow_kernel :: "bytes syscalls" where
  "slow_kernel = \<lparr>sc_read = (\<lambda>fd n k. (0, 0, [], k)),
     sc_writev = (\<lambda>fd iov k. let s = take 3 (concat (map fst iov)) in (int (length s), 0, k @ s)),
     sc_close = (\<lambda>fd k. (0, 0, k)), sc_fcntl = (\<lambda>fd cmd arg k. (0, 0, k)),
     sc_shutdown = (\<lambda>fd how k. (0, 0, k)), sc_poll = (\<lambda>ps t k. (0, 0, [], k))\<rparr>"

lemma slow_kernel_ok: "writev_ok slow_kernel (\<lambda>k. k)"
  by (auto simp: writev_ok_def slow_kernel_def Let_def min_def)

theorem write_all_complete_witness:
  "\<exists>fd' k'. FileDescriptor_write slow_kernel [[1, 2], [], [3, 4, 5]] True
       \<lparr>fd_fd = 4, fd_eof = False, fd_closed = False, fd_read_count = 0, fd_write_count = 0\<rparr> [9] = Inr (5, fd', k') \<and>
     k' = [9, 1, 2, 3, 4, 5]"
  using write_all_complete [OF slow_kernel_ok, of "[[1, 2], [], [3, 4, 5]]"
      "\<lparr>fd_fd = 4, fd_eof = False, fd_closed = False, fd_read_count = 0, fd_write_count = 0\<rparr>" "[9]"]
  by (simp add: size64_def)

subsection \<open>A kernel that keeps accounts\<close>

text \<open>
  \<open>taken\<close> and \<open>given\<close> are the bytes that have been read from and written to each descriptor number
  so far. A call that fails sets \<^verbatim>\<open>errno\<close>; a read returns what it has put into the buffer, at most
  as much as was asked for, and a write takes a beginning of its input.
\<close>

definition kernel_reads :: "'k syscalls \<Rightarrow> ('k \<Rightarrow> int \<Rightarrow> bytes) \<Rightarrow> ('k \<Rightarrow> int \<Rightarrow> bytes) \<Rightarrow> bool" where
  "kernel_reads sc taken given \<longleftrightarrow> (\<forall>fd n k ret err filled k'. sc_read sc fd n k = (ret, err, filled, k') \<longrightarrow>
     given k' = given k \<and>
     (if ret < 0 then err \<noteq> 0 \<and> - 2147483648 \<le> ret
      else ret \<le> int (length filled) \<and> ret \<le> int (unat n) \<and>
        taken k' = (taken k)(fd := taken k fd @ take (nat ret) filled)))"

definition kernel_writes :: "'k syscalls \<Rightarrow> ('k \<Rightarrow> int \<Rightarrow> bytes) \<Rightarrow> ('k \<Rightarrow> int \<Rightarrow> bytes) \<Rightarrow> bool" where
  "kernel_writes sc taken given \<longleftrightarrow> (\<forall>fd iov k ret err k'. sc_writev sc fd iov k = (ret, err, k') \<longrightarrow>
     taken k' = taken k \<and>
     (if ret < 0 then err \<noteq> 0 \<and> - 2147483648 \<le> ret
      else ret \<le> int (length (concat (map fst iov))) \<and> ret < 2147483648 \<and>
        given k' = (given k)(fd := given k fd @ take (nat ret) (concat (map fst iov)))))"

definition kernel_quiet :: "'k syscalls \<Rightarrow> ('k \<Rightarrow> int \<Rightarrow> bytes) \<Rightarrow> ('k \<Rightarrow> int \<Rightarrow> bytes) \<Rightarrow> bool" where
  "kernel_quiet sc taken given \<longleftrightarrow>
     (\<forall>fd k ret err k'. sc_close sc fd k = (ret, err, k') \<longrightarrow> taken k' = taken k \<and> given k' = given k) \<and>
     (\<forall>fd cmd arg k ret err k'. sc_fcntl sc fd cmd arg k = (ret, err, k') \<longrightarrow> taken k' = taken k \<and> given k' = given k) \<and>
     (\<forall>ps t k ret err revents k'. sc_poll sc ps t k = (ret, err, revents, k') \<longrightarrow> taken k' = taken k \<and> given k' = given k) \<and>
     (\<forall>fd how k ret err k'. sc_shutdown sc fd how k = (ret, err, k') \<longrightarrow> taken k' = taken k \<and> given k' = given k)"

definition kernel_ok :: "'k syscalls \<Rightarrow> ('k \<Rightarrow> int \<Rightarrow> bytes) \<Rightarrow> ('k \<Rightarrow> int \<Rightarrow> bytes) \<Rightarrow> bool" where
  "kernel_ok sc taken given \<longleftrightarrow> kernel_reads sc taken given \<and> kernel_writes sc taken given \<and> kernel_quiet sc taken given"

lemma SystemCall_negative:
  assumes "ret < 0" and "- 2147483648 \<le> ret" and "err \<noteq> 0"
  shows "SystemCall what ret err 0 = Inl (System_error what err)"
proof -
  have "signed_take_bit 31 ret = ret" using assms(1,2) by (intro signed_take_bit_int_eq_self) simp_all
  with assms show ?thesis by (simp add: SystemCall_def)
qed

lemma FileDescriptor_read_ok:
  assumes k: "kernel_ok sc taken given" and r: "FileDescriptor_read sc limit fd k0 = Inr (data, fd', k')"
  shows "length data \<le> unat limit" "taken k' = (taken k0)(fd_fd fd := taken k0 (fd_fd fd) @ data)" "given k' = given k0"
    "fd_fd fd' = fd_fd fd" "fd_closed fd' = fd_closed fd" "fd_eof fd' \<longleftrightarrow> fd_eof fd \<or> 0 < limit \<and> data = []"
    "fd_read_count fd' = fd_read_count fd + 1"
proof -
  let ?n = "min 1048576 limit :: u64"
  obtain ret err filled k1 where c: "sc_read sc (fd_fd fd) ?n k0 = (ret, err, filled, k1)" by (metis prod_cases4)
  from k c have a: "given k1 = given k0"
    "ret < 0 \<Longrightarrow> err \<noteq> 0 \<and> - 2147483648 \<le> ret"
    "\<not> ret < 0 \<Longrightarrow> ret \<le> int (length filled) \<and> ret \<le> int (unat ?n) \<and>
        taken k1 = (taken k0)(fd_fd fd := taken k0 (fd_fd fd) @ take (nat ret) filled)"
    unfolding kernel_ok_def kernel_reads_def by (metis)+
  have pos: "\<not> ret < 0"
    using r a(2) c by (auto simp: FileDescriptor_read_def Let_def SystemCall_negative)
  have n: "unat ?n \<le> 1048576" "unat ?n \<le> unat limit"
    using word_le_nat_alt [of ?n 1048576] word_le_nat_alt [of ?n limit] by simp_all
  then have "ret < 2147483648" using a(3) [OF pos] by linarith
  then have s: "SystemCall ''read'' ret err 0 = Inr ret" using pos by (simp add: SystemCall_def signed_take_bit_31)
  let ?str = "take (unat ?n) (filled @ replicate (unat ?n) 0)"
  have "take (nat ret) ?str = take (nat ret) filled" 
  proof -
    have "nat ret \<le> unat ?n" "nat ret \<le> length filled" using a(3) [OF pos] by linarith+
    then show ?thesis by (simp add: min_absorb1)
  qed
  with r s pos have d: "data = take (nat ret) filled" "k' = k1"
    "fd' = register_read (if 0 < limit \<and> ret = 0 then fd\<lparr>fd_eof := True\<rparr> else fd)"
    using c by (auto simp: FileDescriptor_read_def Let_def split: if_splits)
  then have "length data = nat ret" "data = [] \<longleftrightarrow> ret = 0" using a(3) [OF pos] pos by auto
  moreover have "nat ret \<le> unat limit" using a(3) [OF pos] n(2) by linarith
  ultimately show "length data \<le> unat limit" "taken k' = (taken k0)(fd_fd fd := taken k0 (fd_fd fd) @ data)" "given k' = given k0"
    "fd_fd fd' = fd_fd fd" "fd_closed fd' = fd_closed fd" "fd_eof fd' \<longleftrightarrow> fd_eof fd \<or> 0 < limit \<and> data = []"
    "fd_read_count fd' = fd_read_count fd + 1"
    using d a pos by (auto simp: register_read_def)
qed

lemma FileDescriptor_write_ok:
  assumes k: "kernel_ok sc taken given" and r: "FileDescriptor_write sc [s] False fd k0 = Inr (n, fd', k')" and s: "str_ok s"
  shows "unat n \<le> length s" "given k' = (given k0)(fd_fd fd := given k0 (fd_fd fd) @ take (unat n) s)" "taken k' = taken k0"
    "fd_fd fd' = fd_fd fd" "fd_closed fd' = fd_closed fd" "fd_eof fd' = fd_eof fd" "fd_write_count fd' = fd_write_count fd + 1"
proof -
  obtain ret err k1 where c: "sc_writev sc (fd_fd fd) (BufferViewList_as_iovecs [s]) k0 = (ret, err, k1)" by (metis prod_cases3)
  from k c have a: "taken k1 = taken k0" "ret < 0 \<Longrightarrow> err \<noteq> 0 \<and> - 2147483648 \<le> ret"
    "\<not> ret < 0 \<Longrightarrow> ret \<le> int (length s) \<and> ret < 2147483648 \<and>
        given k1 = (given k0)(fd_fd fd := given k0 (fd_fd fd) @ take (nat ret) s)"
    unfolding kernel_ok_def kernel_writes_def by (metis iovecs_concat concat.simps append_Nil2)+
  have pos: "\<not> ret < 0"
    using r a(2) by (auto simp: FileDescriptor_write_def write_loop.simps(2) c Let_def SystemCall_negative)
  then have sc: "SystemCall ''writev'' ret err 0 = Inr ret" using a(3) by (simp add: SystemCall_def signed_take_bit_31)
  have d: "n = word_of_int ret" "fd' = register_write fd" "k' = k1"
    using r by (auto simp: FileDescriptor_write_def write_loop.simps(2) c sc Let_def rbind_eq_Inr split: if_splits)
  have "unat (word_of_int ret :: u64) = nat ret"
  proof -
    have "ret = int (nat ret)" using pos by simp
    then have "unat (word_of_int ret :: u64) = unat (of_nat (nat ret) :: u64)" by (metis of_int_of_nat_eq)
    also have "\<dots> = nat ret" using a(3) [OF pos] by (auto simp: unsigned_of_nat take_bit_nat_eq_self_iff)
    finally show ?thesis .
  qed
  with d a pos show "unat n \<le> length s" "given k' = (given k0)(fd_fd fd := given k0 (fd_fd fd) @ take (unat n) s)" "taken k' = taken k0"
    "fd_fd fd' = fd_fd fd" "fd_closed fd' = fd_closed fd" "fd_eof fd' = fd_eof fd" "fd_write_count fd' = fd_write_count fd + 1"
    by (auto simp: register_write_def)
qed

text \<open>Whatever is written with \<^verbatim>\<open>write_all\<close> or without, other descriptors see nothing of it.\<close>

lemma write_loop_frame:
  assumes k: "kernel_ok sc taken given"
  shows "write_loop fuel sc vs all t fd k0 = Inr (n, fd', k') \<Longrightarrow>
     taken k' = taken k0 \<and> (\<forall>x. x \<noteq> fd_fd fd \<longrightarrow> given k' x = given k0 x) \<and> fd_fd fd' = fd_fd fd"
proof (induction fuel arbitrary: vs t fd k0)
  case (Suc fuel)
  obtain ret err k1 where c: "sc_writev sc (fd_fd fd) (BufferViewList_as_iovecs vs) k0 = (ret, err, k1)" by (metis prod_cases3)
  from k c have a: "taken k1 = taken k0" "ret < 0 \<Longrightarrow> err \<noteq> 0 \<and> - 2147483648 \<le> ret"
    "\<not> ret < 0 \<Longrightarrow> \<exists>d. given k1 = (given k0)(fd_fd fd := d)"
    unfolding kernel_ok_def kernel_writes_def by metis+
  have pos: "\<not> ret < 0"
    using Suc.prems a(2) by (auto simp: write_loop.simps(2) c Let_def SystemCall_negative)
  have f: "fd_fd (register_write fd) = fd_fd fd" by (simp add: register_write_def)
  from Suc.prems consider (more) u vs' where "write_loop fuel sc vs' all u (register_write fd) k1 = Inr (n, fd', k')"
    | (last) "fd' = register_write fd" "k' = k1"
    by (auto simp: write_loop.simps(2) c Let_def rbind_eq_Inr split: if_splits)
  then show ?case
  proof cases
    case more
    from Suc.IH [OF this] a(1,3) pos f show ?thesis by auto
  next
    case last
    with a(1,3) pos f show ?thesis by auto
  qed
qed simp

lemma FileDescriptor_write_frame:
  assumes "kernel_ok sc taken given" and "FileDescriptor_write sc vs all fd k0 = Inr (n, fd', k')"
  shows "taken k' = taken k0 \<and> (\<forall>x. x \<noteq> fd_fd fd \<longrightarrow> given k' x = given k0 x) \<and> fd_fd fd' = fd_fd fd"
  using write_loop_frame [OF assms(1)] assms(2) by (simp add: FileDescriptor_write_def)

end
