(* ===== verification/Event_Loop.thy ===== *)
theory Event_Loop
  imports File_Descriptor "HOL-Library.Sublist"
begin

text \<open>
  \<^verbatim>\<open>libsponge/util/eventloop.hh\<close> and \<^verbatim>\<open>eventloop.cc\<close>: rules that call back when a descriptor is ready.
  A rule works on the state of the program that owns the loop, which is any type: its callback
  and its cancellation change that state or throw, its interest is a condition on it, and its
  descriptor is the part of it that holds the shared \<^verbatim>\<open>FDWrapper\<close>. \<^verbatim>\<open>poll\<close> is a parameter.
\<close>

subsection \<open>Rules\<close>

datatype direction = In | Out

definition POLLIN :: u16 where
  "POLLIN = 1"

definition POLLOUT :: u16 where
  "POLLOUT = 4"

definition POLLERR :: u16 where
  "POLLERR = 8"

definition POLLHUP :: u16 where
  "POLLHUP = 0x10"

definition POLLNVAL :: u16 where
  "POLLNVAL = 0x20"

definition EINTR :: int where
  "EINTR = 4"

fun direction_events :: "direction \<Rightarrow> u16" where
  "direction_events In = POLLIN"
| "direction_events Out = POLLOUT"

record 'w el_rule =
  ru_fd :: "'w \<Rightarrow> fd_wrapper"
  ru_direction :: direction
  ru_callback :: "'w \<Rightarrow> 'w res"
  ru_interest :: "'w \<Rightarrow> bool"
  ru_cancel :: "'w \<Rightarrow> 'w res"

datatype el_result = Success | Timeout | Exit

definition Rule_service_count :: "'w el_rule \<Rightarrow> 'w \<Rightarrow> u32" where
  "Rule_service_count r w = (if ru_direction r = In then fd_read_count (ru_fd r w) else fd_write_count (ru_fd r w))"

definition EventLoop_add_rule ::
  "('w \<Rightarrow> fd_wrapper) \<Rightarrow> direction \<Rightarrow> ('w \<Rightarrow> 'w res) \<Rightarrow> ('w \<Rightarrow> bool) \<Rightarrow> ('w \<Rightarrow> 'w res) \<Rightarrow> 'w el_rule list \<Rightarrow> 'w el_rule list" where
  "EventLoop_add_rule fd direction callback interest cancel rules =
     rules @ [\<lparr>ru_fd = fd, ru_direction = direction, ru_callback = callback, ru_interest = interest, ru_cancel = cancel\<rparr>]"

subsection \<open>One round\<close>

text \<open>The rules that are left, each with the descriptor and the events to poll for.\<close>

primrec setup_polls :: "'w el_rule list \<Rightarrow> 'w \<Rightarrow> (('w el_rule \<times> int \<times> u16) list \<times> 'w) res" where
  "setup_polls [] w = Inr ([], w)"
| "setup_polls (this_rule # its) w =
     (if ru_direction this_rule = In \<and> fd_eof (ru_fd this_rule w) then
        rbind (ru_cancel this_rule w) (\<lambda>w. setup_polls its w)
      else if fd_closed (ru_fd this_rule w) then
        rbind (ru_cancel this_rule w) (\<lambda>w. setup_polls its w)
      else
        let events = (if ru_interest this_rule w then direction_events (ru_direction this_rule) else 0);
            pollfd = (this_rule, fd_fd (ru_fd this_rule w), events)
        in rbind (setup_polls its w) (\<lambda>(polls, w). Inr (pollfd # polls, w)))"

definition poll_ready :: "u16 \<Rightarrow> u16 \<Rightarrow> bool" where
  "poll_ready events revents \<longleftrightarrow> revents AND events \<noteq> 0"

definition poll_hup :: "u16 \<Rightarrow> u16 \<Rightarrow> bool" where
  "poll_hup events revents \<longleftrightarrow> revents AND POLLHUP \<noteq> 0 \<and> events \<noteq> 0 \<and> \<not> poll_ready events revents"

primrec service_polls :: "('w el_rule \<times> u16 \<times> u16) list \<Rightarrow> 'w \<Rightarrow> ('w el_rule list \<times> 'w) res" where
  "service_polls [] w = Inr ([], w)"
| "service_polls (it # its) w =
     (let (this_rule, events, revents) = it in
      if revents AND (POLLERR OR POLLNVAL) \<noteq> 0
      then Inl (Runtime_error ''EventLoop: error on polled file descriptor'')
      else if poll_hup events revents then
        rbind (ru_cancel this_rule w) (\<lambda>w. service_polls its w)
      else if poll_ready events revents then
        rbind (ru_callback this_rule w) (\<lambda>w'.
        if Rule_service_count this_rule w = Rule_service_count this_rule w' \<and> ru_interest this_rule w'
        then Inl (Runtime_error ''EventLoop: busy wait detected: callback did not read/write fd and is still interested'')
        else rbind (service_polls its w') (\<lambda>(rules, w). Inr (this_rule # rules, w)))
      else rbind (service_polls its w) (\<lambda>(rules, w). Inr (this_rule # rules, w)))"

text \<open>
  \<^verbatim>\<open>poll\<close> is given the descriptors with their events and the timeout; it gives its return value, \<^verbatim>\<open>errno\<close>
  and the events that occurred, none for a descriptor that it says nothing of.
\<close>

type_synonym 'w poll_call = "(int \<times> u16) list \<Rightarrow> int \<Rightarrow> 'w \<Rightarrow> int \<times> int \<times> u16 list \<times> 'w"

definition EventLoop_wait_next_event ::
  "'w poll_call \<Rightarrow> int \<Rightarrow> 'w el_rule list \<Rightarrow> 'w \<Rightarrow> (el_result \<times> 'w el_rule list \<times> 'w) res" where
  "EventLoop_wait_next_event poll timeout_ms rules w =
     rbind (setup_polls rules w) (\<lambda>(polls, w).
     let rules = map fst polls; something_to_poll = (\<exists>p \<in> set polls. snd (snd p) \<noteq> 0) in
     if \<not> something_to_poll then Inr (Exit, rules, w)
     else
       let (ret, err, revents, w) = poll (map snd polls) timeout_ms w;
           serviced = rbind (service_polls (zip rules (zip (map (snd \<circ> snd) polls) (revents @ replicate (length polls) 0))) w)
             (\<lambda>(rules, w). Inr (Success, rules, w))
       in case SystemCall ''poll'' ret err 0 of
            Inr n \<Rightarrow> if n = 0 then Inr (Timeout, rules, w) else serviced
          | Inl (System_error _ code) \<Rightarrow> if code = EINTR then Inr (Exit, rules, w) else serviced
          | Inl e \<Rightarrow> Inl e)"

lemma subseq_keeps:
  assumes "subseq xs ys"
  shows "set xs \<subseteq> set ys" "distinct ys \<Longrightarrow> distinct xs"
proof -
  show sub: "set xs \<subseteq> set ys" using list_emb_set [OF assms] by blast
  show "distinct ys \<Longrightarrow> distinct xs"
    using assms by (induction rule: list_emb.induct) (auto dest: list_emb_set)
qed

subsection \<open>Clients\<close>

text \<open>
  What an owner of the loop shows of its rules, \<open>L\<close> being the set of those that are left: every
  callback keeps its invariant, and a cancellation keeps it for the rules without the cancelled
  one. A callback may rely on a condition that the checks before the polling give and that the
  rules served before it in the same round keep; likewise what a rule without interest stands for
  survives the cancellation of others.
\<close>

locale event_loop_client =
  fixes inv :: "'w el_rule set \<Rightarrow> 'w \<Rightarrow> bool"
    and armed :: "'w el_rule \<Rightarrow> 'w \<Rightarrow> bool"
    and idle :: "'w el_rule \<Rightarrow> 'w \<Rightarrow> bool"
    and poll :: "'w poll_call"
  assumes interest_arms: "r \<in> L \<Longrightarrow> inv L w \<Longrightarrow> ru_interest r w \<Longrightarrow> \<not> (ru_direction r = In \<and> fd_eof (ru_fd r w)) \<Longrightarrow>
          \<not> fd_closed (ru_fd r w) \<Longrightarrow> armed r w"
    and no_interest: "r \<in> L \<Longrightarrow> inv L w \<Longrightarrow> \<not> ru_interest r w \<Longrightarrow> idle r w"
    and callback_inv: "r \<in> L \<Longrightarrow> inv L w \<Longrightarrow> armed r w \<Longrightarrow> ru_callback r w = Inr w' \<Longrightarrow> inv L w'"
    and callback_armed: "r \<in> L \<Longrightarrow> s \<in> L \<Longrightarrow> r \<noteq> s \<Longrightarrow> inv L w \<Longrightarrow> armed r w \<Longrightarrow> armed s w \<Longrightarrow>
          ru_callback r w = Inr w' \<Longrightarrow> armed s w'"
    and cancel_inv: "r \<in> L \<Longrightarrow> inv L w \<Longrightarrow> ru_cancel r w = Inr w' \<Longrightarrow> inv (L - {r}) w'"
    and cancel_armed: "r \<in> L \<Longrightarrow> s \<in> L \<Longrightarrow> r \<noteq> s \<Longrightarrow> inv L w \<Longrightarrow> armed s w \<Longrightarrow> ru_cancel r w = Inr w' \<Longrightarrow> armed s w'"
    and cancel_idle: "r \<in> L \<Longrightarrow> s \<in> L \<Longrightarrow> r \<noteq> s \<Longrightarrow> inv L w \<Longrightarrow> idle s w \<Longrightarrow> ru_cancel r w = Inr w' \<Longrightarrow> idle s w'"
    and poll_inv: "inv L w \<Longrightarrow> poll ps t w = (ret, err, revents, w') \<Longrightarrow> inv L w' \<and> (\<forall>r \<in> L. armed r w \<longrightarrow> armed r w')"
begin

lemma setup_inv:
  assumes "setup_polls rs w = Inr (polls, w')" and "distinct rs" and "A \<inter> set rs = {}" and "inv (A \<union> set rs) w"
  shows "inv (A \<union> set (map fst polls)) w' \<and> subseq (map fst polls) rs \<and>
     (\<forall>p \<in> set polls. if snd (snd p) = 0 then idle (fst p) w' else armed (fst p) w') \<and>
     (\<forall>s \<in> A. (armed s w \<longrightarrow> armed s w') \<and> (idle s w \<longrightarrow> idle s w'))"
  using assms
proof (induction rs arbitrary: w polls A)
  case (Cons r rs)
  have r: "r \<in> A \<union> set (r # rs)" "r \<notin> A" "r \<notin> set rs" "distinct rs" "A \<inter> set rs = {}" using Cons.prems by auto
  show ?case
  proof (cases "ru_direction r = In \<and> fd_eof (ru_fd r w) \<or> fd_closed (ru_fd r w)")
    case True
    then obtain w1 where w1: "ru_cancel r w = Inr w1" "setup_polls rs w1 = Inr (polls, w')"
      using Cons.prems(1) by (auto simp: rbind_eq_Inr split: if_splits)
    have "A \<union> set (r # rs) - {r} = A \<union> set rs" using r by auto
    then have i: "inv (A \<union> set rs) w1" using cancel_inv [OF r(1) Cons.prems(4) w1(1)] by simp
    have "(armed s w \<longrightarrow> armed s w1) \<and> (idle s w \<longrightarrow> idle s w1)" if "s \<in> A" for s
      using that r(2) cancel_armed [OF r(1) _ _ Cons.prems(4) _ w1(1)] cancel_idle [OF r(1) _ _ Cons.prems(4) _ w1(1)] by blast
    with Cons.IH [OF w1(2) r(4,5) i] show ?thesis by (auto intro: list_emb_Cons)
  next
    case False
    let ?e = "if ru_interest r w then direction_events (ru_direction r) else 0"
    obtain ps where ps: "setup_polls rs w = Inr (ps, w')" "polls = (r, fd_fd (ru_fd r w), ?e) # ps"
      using Cons.prems(1) False by (auto simp: rbind_eq_Inr Let_def split: if_splits)
    have e: "?e = 0 \<longleftrightarrow> \<not> ru_interest r w" by (cases "ru_direction r") (simp_all add: POLLIN_def POLLOUT_def)
    have "insert r A \<inter> set rs = {}" "inv (insert r A \<union> set rs) w" using r Cons.prems(4) by auto
    note IH = Cons.IH [OF ps(1) r(4) this]
    have "if ?e = 0 then idle r w' else armed r w'"
      using IH interest_arms [OF r(1) Cons.prems(4)] no_interest [OF r(1) Cons.prems(4)] False unfolding e by auto
    with IH ps(2) show ?thesis by auto
  qed
qed simp

lemma service_inv:
  assumes "service_polls its w = Inr (rs', w')" and "distinct (map fst its)" and "A \<inter> set (map fst its) = {}"
    and "inv (A \<union> set (map fst its)) w" and "\<forall>p \<in> set its. fst (snd p) \<noteq> 0 \<longrightarrow> armed (fst p) w"
  shows "inv (A \<union> set rs') w' \<and> subseq rs' (map fst its)"
  using assms
proof (induction its arbitrary: w rs' A)
  case (Cons it its)
  obtain r events revents where it: "it = (r, events, revents)" by (cases it)
  let ?L = "A \<union> set (map fst (it # its))" and ?B = "insert r A"
  have r: "r \<in> ?L" "r \<notin> A" "r \<notin> set (map fst its)" "distinct (map fst its)" "A \<inter> set (map fst its) = {}"
    "?B \<inter> set (map fst its) = {}" "?L - {r} = A \<union> set (map fst its)" "?L = ?B \<union> set (map fst its)"
    using Cons.prems(2,3) by (auto simp: it)
  have a: "\<forall>p \<in> set its. fst (snd p) \<noteq> 0 \<longrightarrow> armed (fst p) w" using Cons.prems(5) by simp
  have other: "fst p \<in> ?L \<and> r \<noteq> fst p" if "p \<in> set its" for p using that r(3) by auto
  consider (hup) w1 where "ru_cancel r w = Inr w1" "service_polls its w1 = Inr (rs', w')"
    | (ready) w1 rs1 where "poll_ready events revents" "ru_callback r w = Inr w1" "service_polls its w1 = Inr (rs1, w')" "rs' = r # rs1"
    | (unready) rs1 where "service_polls its w = Inr (rs1, w')" "rs' = r # rs1"
    using Cons.prems(1) by (auto simp: it rbind_eq_Inr split: if_splits)
  then show ?case
  proof cases
    case hup
    have i: "inv (A \<union> set (map fst its)) w1" using cancel_inv [OF r(1) Cons.prems(4) hup(1)] r(7) by simp
    have "\<forall>p \<in> set its. fst (snd p) \<noteq> 0 \<longrightarrow> armed (fst p) w1"
      using a other cancel_armed [OF r(1) _ _ Cons.prems(4) _ hup(1)] by blast
    from Cons.IH [OF hup(2) r(4,5) i this] show ?thesis by (auto simp: it)
  next
    case ready
    have "events \<noteq> 0" using ready(1) by (auto simp: poll_ready_def)
    then have ar: "armed r w" using Cons.prems(5) by (auto simp: it)
    have i: "inv (?B \<union> set (map fst its)) w1" using callback_inv [OF r(1) Cons.prems(4) ar ready(2)] r(8) by simp
    have "\<forall>p \<in> set its. fst (snd p) \<noteq> 0 \<longrightarrow> armed (fst p) w1"
      using a other callback_armed [OF r(1) _ _ Cons.prems(4) ar _ ready(2)] by blast
    from Cons.IH [OF ready(3) r(4,6) i this] ready(4) show ?thesis by (auto simp: it)
  next
    case unready
    have "inv (?B \<union> set (map fst its)) w" using Cons.prems(4) r(8) by simp
    from Cons.IH [OF unready(1) r(4,6) this a] unready(2) show ?thesis by (auto simp: it)
  qed
qed simp

lemma wait_setup:
  assumes "EventLoop_wait_next_event poll t rs w = Inr (res, rs', w')" and "distinct rs" and "inv (set rs) w"
  obtains polls w1 where "setup_polls rs w = Inr (polls, w1)" "inv (set (map fst polls)) w1" "distinct (map fst polls)"
    "subseq (map fst polls) rs" "\<forall>p \<in> set polls. if snd (snd p) = 0 then idle (fst p) w1 else armed (fst p) w1"
proof -
  from assms(1) obtain polls w1 where s: "setup_polls rs w = Inr (polls, w1)"
    by (auto simp: EventLoop_wait_next_event_def rbind_eq_Inr)
  have i: "inv (set (map fst polls)) w1" "subseq (map fst polls) rs"
    "\<forall>p \<in> set polls. if snd (snd p) = 0 then idle (fst p) w1 else armed (fst p) w1"
    using setup_inv [of rs w polls w1 "{}"] s assms(2,3) by simp_all
  from that [OF s i(1) subseq_keeps(2) [OF i(2) assms(2)] i(2,3)] show ?thesis .
qed

lemma wait_inv:
  assumes step: "EventLoop_wait_next_event poll t rs w = Inr (res, rs', w')" and rs: "distinct rs" and w: "inv (set rs) w"
  shows "inv (set rs') w' \<and> subseq rs' rs"
proof -
  obtain polls w1 where s: "setup_polls rs w = Inr (polls, w1)" and i: "inv (set (map fst polls)) w1" "distinct (map fst polls)"
    "subseq (map fst polls) rs" "\<forall>p \<in> set polls. if snd (snd p) = 0 then idle (fst p) w1 else armed (fst p) w1"
    by (rule wait_setup [OF assms])
  obtain ret err revents w2 where p: "poll (map snd polls) t w1 = (ret, err, revents, w2)" by (metis prod_cases4)
  let ?ev = "map (snd \<circ> snd) polls" and ?re = "revents @ replicate (length polls) 0"
  let ?its = "zip (map fst polls) (zip ?ev ?re)"
  have its: "map fst ?its = map fst polls" by simp
  have "\<forall>q \<in> set ?its. fst (snd q) \<noteq> 0 \<longrightarrow> armed (fst q) w2"
  proof
    fix q assume q: "q \<in> set ?its"
    then obtain j where j: "j < length polls" "q = (fst (polls ! j), snd (snd (polls ! j)), ?re ! j)"
      by (auto simp: in_set_conv_nth)
    with i(4) nth_mem [OF j(1)] have "snd (snd (polls ! j)) \<noteq> 0 \<longrightarrow> armed (fst (polls ! j)) w1" by force
    with j poll_inv [OF i(1) p] nth_mem [OF j(1)] show "fst (snd q) \<noteq> 0 \<longrightarrow> armed (fst q) w2" by simp
  qed
  note sv = service_inv [where A = "{}", OF _ _ _ _ this]
  consider "rs' = map fst polls" "w' = w1 \<or> w' = w2"
    | rs2 where "service_polls ?its w2 = Inr (rs2, w')" "rs' = rs2"
    using step by (auto simp: EventLoop_wait_next_event_def s p Let_def rbind_eq_Inr split: if_splits sum.splits cpp_error.splits)
  then show ?thesis
  proof cases
    case 1
    with i(1,3) poll_inv [OF i(1) p] show ?thesis by auto
  next
    case 2
    with sv [of rs2 w'] i(2,3) poll_inv [OF i(1) p] show ?thesis unfolding its by (auto intro: subseq_order.trans)
  qed
qed

text \<open>The loop is left without a signal only when no rule that is left has anything to do.\<close>

lemma wait_exit:
  assumes step: "EventLoop_wait_next_event poll t rs w = Inr (Exit, rs', w')" and rs: "distinct rs" and w: "inv (set rs) w"
    and no_signal: "\<And>ps w. fst (snd (poll ps t w)) \<noteq> EINTR"
  shows "\<forall>r \<in> set rs'. idle r w'"
proof -
  obtain polls w1 where s: "setup_polls rs w = Inr (polls, w1)" and i: "inv (set (map fst polls)) w1" "distinct (map fst polls)"
    "subseq (map fst polls) rs" "\<forall>p \<in> set polls. if snd (snd p) = 0 then idle (fst p) w1 else armed (fst p) w1"
    by (rule wait_setup [OF step rs w])
  obtain ret err revents w2 where p: "poll (map snd polls) t w1 = (ret, err, revents, w2)" by (metis prod_cases4)
  then have "err \<noteq> EINTR" using no_signal [of "map snd polls" w1] by simp
  then have "rs' = map fst polls" "w' = w1" "\<forall>q \<in> set polls. snd (snd q) = 0"
    using step by (auto simp: EventLoop_wait_next_event_def s p Let_def SystemCall_def rbind_eq_Inr
        split: if_splits sum.splits cpp_error.splits)
  with i(4) show ?thesis by auto
qed

end

subsection \<open>Errors of poll\<close>

lemma service_nothing:
  "service_polls (zip rs (zip evs (replicate (length rs) 0))) w = Inr (take (length evs) rs, w)"
proof (induction rs arbitrary: evs)
  case (Cons r rs)
  then show ?case by (cases evs) (simp_all add: poll_hup_def poll_ready_def)
qed simp

text \<open>
  A finding: an error of \<^verbatim>\<open>poll\<close> is not reported. When \<^verbatim>\<open>poll\<close> fails with an error other than
  \<^verbatim>\<open>EINTR\<close>, \<^verbatim>\<open>wait_next_event\<close> catches the exception and goes on with the results of the failed call:
  it calls no rule and returns \<^verbatim>\<open>Success\<close> at once, so that its caller spins; the comment above the
  function promises a \<^verbatim>\<open>std::runtime_error\<close>.
\<close>

theorem poll_error_ignored:
  assumes "setup_polls rules w = Inr (polls, w1)" and "\<exists>p \<in> set polls. snd (snd p) \<noteq> 0"
    and "poll (map snd polls) timeout_ms w1 = (- 1, err, [], w2)" and "err \<noteq> 0" and "err \<noteq> EINTR"
  shows "EventLoop_wait_next_event poll timeout_ms rules w = Inr (Success, map fst polls, w2)"
proof -
  have "service_polls (zip (map fst polls) (zip (map (snd \<circ> snd) polls) (replicate (length polls) 0))) w2 = Inr (map fst polls, w2)"
    using service_nothing [of "map fst polls" "map (snd \<circ> snd) polls" w2] by simp
  with assms show ?thesis by (simp add: EventLoop_wait_next_event_def Let_def SystemCall_def)
qed

text \<open>A rule that reads whenever its descriptor is readable.\<close>

definition demo_rule :: "fd_wrapper el_rule" where
  "demo_rule = \<lparr>ru_fd = (\<lambda>w. w), ru_direction = In, ru_callback = (\<lambda>w. Inr (register_read w)),
     ru_interest = (\<lambda>w. True), ru_cancel = (\<lambda>w. Inr w)\<rparr>"

theorem poll_error_ignored_witness:
  "EventLoop_wait_next_event (\<lambda>ps t w. (- 1, 9, [], w)) 10 [demo_rule]
       \<lparr>fd_fd = 4, fd_eof = False, fd_closed = False, fd_read_count = 0, fd_write_count = 0\<rparr> =
     Inr (Success, [demo_rule], \<lparr>fd_fd = 4, fd_eof = False, fd_closed = False, fd_read_count = 0, fd_write_count = 0\<rparr>)"
proof -
  let ?w = "\<lparr>fd_fd = 4, fd_eof = False, fd_closed = False, fd_read_count = 0, fd_write_count = 0\<rparr> :: fd_wrapper"
  have "setup_polls [demo_rule] ?w = Inr ([(demo_rule, 4, POLLIN)], ?w)" by (simp add: demo_rule_def)
  from poll_error_ignored [OF this, of "\<lambda>ps t w. (- 1, 9, [], w)" 10 9 ?w] show ?thesis
    by (simp add: POLLIN_def EINTR_def)
qed

end
