(* ===== verification/Sockets.thy ===== *)
theory Sockets
  imports File_Descriptor Adapters
begin

text \<open>
  \<^verbatim>\<open>libsponge/util/socket.hh\<close> and \<^verbatim>\<open>socket.cc\<close>: sockets are file descriptors with the calls of the socket
  interface. The kernel's side of these calls is a second record of functions on its state; an
  exception of a constructor leaves no object. The derived classes \<^verbatim>\<open>UDPSocket\<close>, \<^verbatim>\<open>TCPSocket\<close> and
  \<^verbatim>\<open>LocalStreamSocket\<close> differ in the domain and type that they pass to the constructors here.
\<close>

subsection \<open>Calls\<close>

record 'k socket_calls =
  so_socket :: "int \<Rightarrow> int \<Rightarrow> 'k \<Rightarrow> int \<times> int \<times> 'k"
  so_getsockopt :: "int \<Rightarrow> int \<Rightarrow> int \<Rightarrow> 'k \<Rightarrow> int \<times> int \<times> int \<times> u32 \<times> 'k"
  so_setsockopt :: "int \<Rightarrow> int \<Rightarrow> int \<Rightarrow> int \<Rightarrow> 'k \<Rightarrow> int \<times> int \<times> 'k"
  so_getsockname :: "int \<Rightarrow> 'k \<Rightarrow> int \<times> int \<times> bytes \<times> u32 \<times> 'k"
  so_getpeername :: "int \<Rightarrow> 'k \<Rightarrow> int \<times> int \<times> bytes \<times> u32 \<times> 'k"
  so_bind :: "int \<Rightarrow> bytes \<Rightarrow> 'k \<Rightarrow> int \<times> int \<times> 'k"
  so_connect :: "int \<Rightarrow> bytes \<Rightarrow> 'k \<Rightarrow> int \<times> int \<times> 'k"
  so_recvfrom :: "int \<Rightarrow> u64 \<Rightarrow> 'k \<Rightarrow> int \<times> int \<times> bytes \<times> bytes \<times> u32 \<times> 'k"
  so_sendmsg :: "int \<Rightarrow> bytes option \<Rightarrow> (bytes \<times> u64) list \<Rightarrow> 'k \<Rightarrow> int \<times> int \<times> 'k"
  so_listen :: "int \<Rightarrow> int \<Rightarrow> 'k \<Rightarrow> int \<times> int \<times> 'k"
  so_accept :: "int \<Rightarrow> 'k \<Rightarrow> int \<times> int \<times> 'k"
  so_socketpair :: "int \<Rightarrow> int \<Rightarrow> 'k \<Rightarrow> int \<times> int \<times> int \<times> int \<times> 'k"

definition SOL_SOCKET :: int where
  "SOL_SOCKET = 1"

definition SO_REUSEADDR :: int where
  "SO_REUSEADDR = 2"

definition SO_TYPE :: int where
  "SO_TYPE = 3"

definition SO_DOMAIN :: int where
  "SO_DOMAIN = 39"

definition SOCK_STREAM :: int where
  "SOCK_STREAM = 1"

definition AF_UNIX :: int where
  "AF_UNIX = 1"

definition SHUT_RD :: int where
  "SHUT_RD = 0"

definition SHUT_WR :: int where
  "SHUT_WR = 1"

definition SHUT_RDWR :: int where
  "SHUT_RDWR = 2"

subsection \<open>Sockets of any kind\<close>

definition Socket_new :: "'k socket_calls \<Rightarrow> int \<Rightarrow> int \<Rightarrow> 'k \<Rightarrow> (fd_wrapper \<times> 'k) res" where
  "Socket_new so domain type k =
     (let (ret, err, k) = so_socket so domain type k in
      rbind (SystemCall ''socket'' ret err 0) (\<lambda>fd. rbind (FDWrapper_new fd) (\<lambda>fd. Inr (fd, k))))"

definition Socket_of_fd :: "'k socket_calls \<Rightarrow> fd_wrapper \<Rightarrow> int \<Rightarrow> int \<Rightarrow> 'k \<Rightarrow> (fd_wrapper \<times> 'k) res" where
  "Socket_of_fd so fd domain type k =
     (let (ret, err, actual_value, len, k) = so_getsockopt so (fd_fd fd) SOL_SOCKET SO_DOMAIN k in
      rbind (SystemCall ''getsockopt'' ret err 0) (\<lambda>_.
      if len \<noteq> 4 \<or> actual_value \<noteq> domain then Inl (Runtime_error ''socket domain mismatch'')
      else
        let (ret, err, actual_value, len, k) = so_getsockopt so (fd_fd fd) SOL_SOCKET SO_TYPE k in
        rbind (SystemCall ''getsockopt'' ret err 0) (\<lambda>_.
        if len \<noteq> 4 \<or> actual_value \<noteq> type then Inl (Runtime_error ''socket type mismatch'')
        else Inr (fd, k))))"

text \<open>The kernel writes into 128 bytes that were zero and sets the size, which may be larger.\<close>

definition Socket_get_address ::
  "string \<Rightarrow> (int \<Rightarrow> 'k \<Rightarrow> int \<times> int \<times> bytes \<times> u32 \<times> 'k) \<Rightarrow> fd_wrapper \<Rightarrow> 'k \<Rightarrow> (address \<times> 'k) res" where
  "Socket_get_address name_of_function function fd k =
     (let (ret, err, written, size, k) = function (fd_fd fd) k;
          address = take 128 (written @ replicate 128 0)
      in
      rbind (SystemCall name_of_function ret err 0) (\<lambda>_.
      rbind (Address_of_sockaddr address (ucast size)) (\<lambda>address. Inr (address, k))))"

definition Socket_local_address :: "'k socket_calls \<Rightarrow> fd_wrapper \<Rightarrow> 'k \<Rightarrow> (address \<times> 'k) res" where
  "Socket_local_address so fd k = Socket_get_address ''getsockname'' (so_getsockname so) fd k"

definition Socket_peer_address :: "'k socket_calls \<Rightarrow> fd_wrapper \<Rightarrow> 'k \<Rightarrow> (address \<times> 'k) res" where
  "Socket_peer_address so fd k = Socket_get_address ''getpeername'' (so_getpeername so) fd k"

definition sockaddr_of :: "address \<Rightarrow> bytes" where
  "sockaddr_of a = take (unat (ad_size a)) (ad_storage a)"

definition Socket_bind :: "'k socket_calls \<Rightarrow> address \<Rightarrow> fd_wrapper \<Rightarrow> 'k \<Rightarrow> 'k res" where
  "Socket_bind so address fd k =
     (let (ret, err, k) = so_bind so (fd_fd fd) (sockaddr_of address) k in
      rbind (SystemCall ''bind'' ret err 0) (\<lambda>_. Inr k))"

definition Socket_connect :: "'k socket_calls \<Rightarrow> address \<Rightarrow> fd_wrapper \<Rightarrow> 'k \<Rightarrow> 'k res" where
  "Socket_connect so address fd k =
     (let (ret, err, k) = so_connect so (fd_fd fd) (sockaddr_of address) k in
      rbind (SystemCall ''connect'' ret err 0) (\<lambda>_. Inr k))"

definition Socket_shutdown :: "'k syscalls \<Rightarrow> int \<Rightarrow> fd_wrapper \<Rightarrow> 'k \<Rightarrow> (fd_wrapper \<times> 'k) res" where
  "Socket_shutdown sc how fd k =
     (let (ret, err, k) = sc_shutdown sc (fd_fd fd) how k in
      rbind (SystemCall ''shutdown'' ret err 0) (\<lambda>_.
      if how = SHUT_RD then Inr (register_read fd, k)
      else if how = SHUT_WR then Inr (register_write fd, k)
      else if how = SHUT_RDWR then Inr (register_write (register_read fd), k)
      else Inl (Runtime_error ''Socket::shutdown() called with invalid `how`'')))"

definition Socket_setsockopt :: "'k socket_calls \<Rightarrow> int \<Rightarrow> int \<Rightarrow> int \<Rightarrow> fd_wrapper \<Rightarrow> 'k \<Rightarrow> 'k res" where
  "Socket_setsockopt so level option option_value fd k =
     (let (ret, err, k) = so_setsockopt so (fd_fd fd) level option option_value k in
      rbind (SystemCall ''setsockopt'' ret err 0) (\<lambda>_. Inr k))"

definition Socket_set_reuseaddr :: "'k socket_calls \<Rightarrow> fd_wrapper \<Rightarrow> 'k \<Rightarrow> 'k res" where
  "Socket_set_reuseaddr so fd k = Socket_setsockopt so SOL_SOCKET SO_REUSEADDR 1 fd k"

subsection \<open>Datagrams\<close>

definition UDPSocket_recv :: "'k socket_calls \<Rightarrow> u64 \<Rightarrow> fd_wrapper \<Rightarrow> 'k \<Rightarrow> (received_datagram \<times> fd_wrapper \<times> 'k) res" where
  "UDPSocket_recv so mtu fd k =
     (let (ret, err, filled, source, fromlen, k) = so_recvfrom so (fd_fd fd) mtu k;
          payload = take (unat mtu) (filled @ replicate (unat mtu) 0);
          datagram_source_address = take 128 (source @ replicate 128 0)
      in
      rbind (SystemCall ''recvfrom'' ret err 0) (\<lambda>recv_len.
      if sint mtu < recv_len then Inl (Runtime_error ''recvfrom (oversized datagram)'')
      else
        let fd = register_read fd in
        rbind (Address_of_sockaddr datagram_source_address (ucast fromlen)) (\<lambda>source_address.
        if recv_len < 0 then Inl (Out_of_range ''resize'')
        else Inr (\<lparr>dg_source_address = source_address, dg_payload = take (nat recv_len) payload\<rparr>, fd, k))))"

definition sendmsg_helper :: "'k socket_calls \<Rightarrow> int \<Rightarrow> bytes option \<Rightarrow> buffer_view_list \<Rightarrow> 'k \<Rightarrow> 'k res" where
  "sendmsg_helper so fd_num destination_address payload k =
     (let iovecs = BufferViewList_as_iovecs payload;
          (ret, err, k) = so_sendmsg so fd_num destination_address iovecs k
      in
      rbind (SystemCall ''sendmsg'' ret err 0) (\<lambda>bytes_sent.
      if word_of_int bytes_sent \<noteq> BufferViewList_size payload
      then Inl (Runtime_error ''datagram payload too big for sendmsg()'')
      else Inr k))"

definition UDPSocket_sendto :: "'k socket_calls \<Rightarrow> address \<Rightarrow> buffer_view_list \<Rightarrow> fd_wrapper \<Rightarrow> 'k \<Rightarrow> (fd_wrapper \<times> 'k) res" where
  "UDPSocket_sendto so destination payload fd k =
     rbind (sendmsg_helper so (fd_fd fd) (Some (sockaddr_of destination)) payload k) (\<lambda>k. Inr (register_write fd, k))"

definition UDPSocket_send :: "'k socket_calls \<Rightarrow> buffer_view_list \<Rightarrow> fd_wrapper \<Rightarrow> 'k \<Rightarrow> (fd_wrapper \<times> 'k) res" where
  "UDPSocket_send so payload fd k =
     rbind (sendmsg_helper so (fd_fd fd) None payload k) (\<lambda>k. Inr (register_write fd, k))"

subsection \<open>Connections of the operating system\<close>

definition TCPSocket_listen :: "'k socket_calls \<Rightarrow> int \<Rightarrow> fd_wrapper \<Rightarrow> 'k \<Rightarrow> 'k res" where
  "TCPSocket_listen so backlog fd k =
     (let (ret, err, k) = so_listen so (fd_fd fd) backlog k in
      rbind (SystemCall ''listen'' ret err 0) (\<lambda>_. Inr k))"

definition TCPSocket_accept :: "'k socket_calls \<Rightarrow> fd_wrapper \<Rightarrow> 'k \<Rightarrow> (fd_wrapper \<times> fd_wrapper \<times> 'k) res" where
  "TCPSocket_accept so fd k =
     (let fd = register_read fd; (ret, err, k) = so_accept so (fd_fd fd) k in
      rbind (SystemCall ''accept'' ret err 0) (\<lambda>new_fd.
      rbind (FDWrapper_new new_fd) (\<lambda>new_fd.
      rbind (Socket_of_fd so new_fd (int (unat AF_INET)) SOCK_STREAM k) (\<lambda>(new_fd, k). Inr (new_fd, fd, k)))))"

subsection \<open>What the operations promise\<close>

lemma Socket_shutdown_ok:
  assumes "kernel_ok sc taken given" and "Socket_shutdown sc how fd k = Inr (fd', k')"
  shows "taken k' = taken k" "given k' = given k" "fd_fd fd' = fd_fd fd" "fd_eof fd' = fd_eof fd" "fd_closed fd' = fd_closed fd"
proof -
  obtain ret err k1 where c: "sc_shutdown sc (fd_fd fd) how k = (ret, err, k1)" by (metis prod_cases3)
  have "k' = k1" "fd_fd fd' = fd_fd fd \<and> fd_eof fd' = fd_eof fd \<and> fd_closed fd' = fd_closed fd"
    using assms(2) by (auto simp: Socket_shutdown_def c rbind_eq_Inr register_read_def register_write_def split: if_splits)
  with assms(1) c show "taken k' = taken k" "given k' = given k"
    "fd_fd fd' = fd_fd fd" "fd_eof fd' = fd_eof fd" "fd_closed fd' = fd_closed fd"
    unfolding kernel_ok_def kernel_quiet_def by simp_all
qed

lemma FDWrapper_close_ok:
  assumes "kernel_ok sc taken given" and "FDWrapper_close sc fd k = Inr (fd', k')"
  shows "taken k' = taken k" "given k' = given k" "fd_fd fd' = fd_fd fd" "fd_eof fd'" "fd_closed fd'"
proof -
  obtain ret err k1 where c: "sc_close sc (fd_fd fd) k = (ret, err, k1)" by (metis prod_cases3)
  have "k' = k1" "fd_fd fd' = fd_fd fd \<and> fd_eof fd' \<and> fd_closed fd'"
    using assms(2) by (auto simp: FDWrapper_close_def c rbind_eq_Inr)
  with assms(1) c show "taken k' = taken k" "given k' = given k" "fd_fd fd' = fd_fd fd" "fd_eof fd'" "fd_closed fd'"
    unfolding kernel_ok_def kernel_quiet_def by simp_all
qed

lemma FileDescriptor_set_blocking_ok:
  assumes "kernel_ok sc taken given" and "FileDescriptor_set_blocking sc b fd k = Inr k'"
  shows "taken k' = taken k" "given k' = given k"
proof -
  have "\<forall>fd cmd arg k ret err k'. sc_fcntl sc fd cmd arg k = (ret, err, k') \<longrightarrow> taken k' = taken k \<and> given k' = given k"
    using assms(1) unfolding kernel_ok_def kernel_quiet_def by blast
  then have q: "taken (snd (snd (sc_fcntl sc fd cmd arg k))) = taken k" "given (snd (snd (sc_fcntl sc fd cmd arg k))) = given k"
    for fd cmd arg k by (metis prod.collapse)+
  from assms(2) show "taken k' = taken k" "given k' = given k"
    by (auto simp: FileDescriptor_set_blocking_def Let_def rbind_eq_Inr case_prod_beta q)
qed

text \<open>A datagram that is received is not longer than the limit, and comes from an address that fits.\<close>

lemma UDPSocket_recv_bounds:
  assumes "UDPSocket_recv so mtu fd k = Inr (dg, fd', k')"
  shows "length (dg_payload dg) \<le> unat mtu" "ad_size (dg_source_address dg) \<le> 128" "fd_read_count fd' = fd_read_count fd + 1"
proof -
  obtain ret err filled source fromlen k1 where c: "so_recvfrom so (fd_fd fd) mtu k = (ret, err, filled, source, fromlen, k1)"
    by (metis prod.collapse)
  from assms obtain n where d: "dg_payload dg = take (nat n) (take (unat mtu) (filled @ replicate (unat mtu) 0))"
      "Address_of_sockaddr (take 128 (source @ replicate 128 0)) (ucast fromlen) = Inr (dg_source_address dg)"
      "fd' = register_read fd"
    by (auto simp: UDPSocket_recv_def c Let_def rbind_eq_Inr simp del: take_append split: if_splits)
  show "length (dg_payload dg) \<le> unat mtu" by (simp add: d(1) del: take_append)
  have "ucast fromlen \<le> (128 :: u64)" "ad_size (dg_source_address dg) = ucast (ucast fromlen :: u64)"
    using d(2) [symmetric] by (auto simp: Address_of_sockaddr_def split: if_splits)
  then show "ad_size (dg_source_address dg) \<le> 128" 
    using unat32_lt [of fromlen] by (simp add: word_le_nat_alt unat_ucast)
  show "fd_read_count fd' = fd_read_count fd + 1" by (simp add: d(3) register_read_def)
qed

end
