(* ===== verification/Stream_Copy.thy ===== *)
theory Stream_Copy
  imports Event_Loop Sockets Byte_Stream
begin

text \<open>
  \<^verbatim>\<open>apps/bidirectional_stream_copy.cc\<close>: the program that the command-line tools share. It copies
  standard input to a socket and the socket to standard output, each through a \<^verbatim>\<open>ByteStream\<close>, with
  four rules of an \<^verbatim>\<open>EventLoop\<close>. The rules meet the contract \<open>event_loop_client\<close>. What happens after
  the loop, the closing of the descriptors by their destructors, is left out.
\<close>

subsection \<open>State and rules\<close>

record 'k stream_copy =
  cp_input :: fd_wrapper
  cp_output :: fd_wrapper
  cp_socket :: fd_wrapper
  cp_outbound :: byte_stream
  cp_inbound :: byte_stream
  cp_outbound_shutdown :: bool
  cp_inbound_shutdown :: bool
  cp_kernel :: 'k

definition max_copy_length :: u64 where
  "max_copy_length = 65536"

definition copy_buffer_size :: u64 where
  "copy_buffer_size = 1048576"

definition fill_stream ::
  "'k syscalls \<Rightarrow> fd_wrapper \<Rightarrow> byte_stream \<Rightarrow> 'k \<Rightarrow> (fd_wrapper \<times> byte_stream \<times> 'k) res" where
  "fill_stream sc fd stream k =
     rbind (FileDescriptor_read sc (ByteStream_remaining_capacity stream) fd k) (\<lambda>(data, fd, k).
     let stream = fst (ByteStream_write stream data) in
     Inr (fd, if fd_eof fd then ByteStream_end_input stream else stream, k))"

definition drain_stream ::
  "'k syscalls \<Rightarrow> fd_wrapper \<Rightarrow> byte_stream \<Rightarrow> 'k \<Rightarrow> (fd_wrapper \<times> byte_stream \<times> 'k) res" where
  "drain_stream sc fd stream k =
     (let bytes_to_write = min max_copy_length (ByteStream_buffer_size stream) in
      rbind (FileDescriptor_write sc [ByteStream_peek_output stream bytes_to_write] False fd k) (\<lambda>(bytes_written, fd, k).
      rbind (ByteStream_pop_output stream bytes_written) (\<lambda>stream. Inr (fd, stream, k))))"

definition copy_rule1 :: "'k syscalls \<Rightarrow> 'k stream_copy el_rule" where
  "copy_rule1 sc = \<lparr>ru_fd = cp_input, ru_direction = In,
     ru_callback = (\<lambda>w.
       rbind (fill_stream sc (cp_input w) (cp_outbound w) (cp_kernel w)) (\<lambda>(fd, stream, k).
       Inr (w\<lparr>cp_input := fd, cp_outbound := stream, cp_kernel := k\<rparr>))),
     ru_interest = (\<lambda>w. \<not> bs_error (cp_outbound w) \<and> 0 < ByteStream_remaining_capacity (cp_outbound w) \<and>
       \<not> bs_error (cp_inbound w)),
     ru_cancel = (\<lambda>w. Inr (w\<lparr>cp_outbound := ByteStream_end_input (cp_outbound w)\<rparr>))\<rparr>"

definition copy_rule2 :: "'k syscalls \<Rightarrow> 'k stream_copy el_rule" where
  "copy_rule2 sc = \<lparr>ru_fd = cp_socket, ru_direction = Out,
     ru_callback = (\<lambda>w.
       rbind (drain_stream sc (cp_socket w) (cp_outbound w) (cp_kernel w)) (\<lambda>(fd, stream, k).
       let w = w\<lparr>cp_socket := fd, cp_outbound := stream, cp_kernel := k\<rparr> in
       if ByteStream_eof (cp_outbound w)
       then rbind (Socket_shutdown sc SHUT_WR (cp_socket w) (cp_kernel w)) (\<lambda>(fd, k).
            Inr (w\<lparr>cp_socket := fd, cp_kernel := k, cp_outbound_shutdown := True\<rparr>))
       else Inr w)),
     ru_interest = (\<lambda>w. \<not> ByteStream_buffer_empty (cp_outbound w) \<or>
       ByteStream_eof (cp_outbound w) \<and> \<not> cp_outbound_shutdown w),
     ru_cancel = (\<lambda>w. Inr (w\<lparr>cp_outbound := ByteStream_set_error (cp_outbound w)\<rparr>))\<rparr>"

definition copy_rule3 :: "'k syscalls \<Rightarrow> 'k stream_copy el_rule" where
  "copy_rule3 sc = \<lparr>ru_fd = cp_socket, ru_direction = In,
     ru_callback = (\<lambda>w.
       rbind (fill_stream sc (cp_socket w) (cp_inbound w) (cp_kernel w)) (\<lambda>(fd, stream, k).
       Inr (w\<lparr>cp_socket := fd, cp_inbound := stream, cp_kernel := k\<rparr>))),
     ru_interest = (\<lambda>w. \<not> bs_error (cp_inbound w) \<and> 0 < ByteStream_remaining_capacity (cp_inbound w) \<and>
       \<not> bs_error (cp_outbound w)),
     ru_cancel = (\<lambda>w. Inr (w\<lparr>cp_inbound := ByteStream_end_input (cp_inbound w)\<rparr>))\<rparr>"

definition copy_rule4 :: "'k syscalls \<Rightarrow> 'k stream_copy el_rule" where
  "copy_rule4 sc = \<lparr>ru_fd = cp_output, ru_direction = Out,
     ru_callback = (\<lambda>w.
       rbind (drain_stream sc (cp_output w) (cp_inbound w) (cp_kernel w)) (\<lambda>(fd, stream, k).
       let w = w\<lparr>cp_output := fd, cp_inbound := stream, cp_kernel := k\<rparr> in
       if ByteStream_eof (cp_inbound w)
       then rbind (FDWrapper_close sc (cp_output w) (cp_kernel w)) (\<lambda>(fd, k).
            Inr (w\<lparr>cp_output := fd, cp_kernel := k, cp_inbound_shutdown := True\<rparr>))
       else Inr w)),
     ru_interest = (\<lambda>w. \<not> ByteStream_buffer_empty (cp_inbound w) \<or>
       ByteStream_eof (cp_inbound w) \<and> \<not> cp_inbound_shutdown w),
     ru_cancel = (\<lambda>w. Inr (w\<lparr>cp_inbound := ByteStream_set_error (cp_inbound w)\<rparr>))\<rparr>"

definition copy_rules :: "'k syscalls \<Rightarrow> 'k stream_copy el_rule list" where
  "copy_rules sc = [copy_rule1 sc, copy_rule2 sc, copy_rule3 sc, copy_rule4 sc]"

subsection \<open>The loop\<close>

definition copy_setup ::
  "'k syscalls \<Rightarrow> fd_wrapper \<Rightarrow> 'k \<Rightarrow> ('k stream_copy el_rule list \<times> 'k stream_copy) res" where
  "copy_setup sc socket k =
     rbind (FDWrapper_new 0) (\<lambda>input.
     rbind (FDWrapper_new 1) (\<lambda>output.
     rbind (FileDescriptor_set_blocking sc False socket k) (\<lambda>k.
     rbind (FileDescriptor_set_blocking sc False input k) (\<lambda>k.
     rbind (FileDescriptor_set_blocking sc False output k) (\<lambda>k.
     Inr (copy_rules sc,
       \<lparr>cp_input = input, cp_output = output, cp_socket = socket,
        cp_outbound = ByteStream_new copy_buffer_size, cp_inbound = ByteStream_new copy_buffer_size,
        cp_outbound_shutdown = False, cp_inbound_shutdown = False, cp_kernel = k\<rparr>))))))"

definition copy_poll :: "'k syscalls \<Rightarrow> 'k stream_copy poll_call" where
  "copy_poll sc ps timeout_ms w =
     (let (ret, err, revents, k) = sc_poll sc ps timeout_ms (cp_kernel w) in (ret, err, revents, w\<lparr>cp_kernel := k\<rparr>))"

primrec copy_loop ::
  "nat \<Rightarrow> 'k syscalls \<Rightarrow> 'k stream_copy el_rule list \<Rightarrow> 'k stream_copy \<Rightarrow> ('k stream_copy el_rule list \<times> 'k stream_copy) res" where
  "copy_loop 0 sc rules w = Inl (No_return ''bidirectional_stream_copy'')"
| "copy_loop (Suc fuel) sc rules w =
     rbind (EventLoop_wait_next_event (copy_poll sc) (- 1) rules w) (\<lambda>(ret, rules, w).
     if ret = Exit then Inr (rules, w) else copy_loop fuel sc rules w)"

definition bidirectional_stream_copy ::
  "nat \<Rightarrow> 'k syscalls \<Rightarrow> fd_wrapper \<Rightarrow> 'k \<Rightarrow> ('k stream_copy el_rule list \<times> 'k stream_copy) res" where
  "bidirectional_stream_copy fuel sc socket k = rbind (copy_setup sc socket k) (\<lambda>(rules, w). copy_loop fuel sc rules w)"

subsection \<open>One direction\<close>

text \<open>
  What has been taken from descriptor \<open>a\<close> since the kernel was in state \<open>k0\<close> is what has been given
  to descriptor \<open>b\<close>, followed by what is in the stream.
\<close>

definition through ::
  "('k \<Rightarrow> int \<Rightarrow> bytes) \<Rightarrow> ('k \<Rightarrow> int \<Rightarrow> bytes) \<Rightarrow> 'k \<Rightarrow> int \<Rightarrow> int \<Rightarrow> byte_stream \<Rightarrow> 'k \<Rightarrow> bool" where
  "through taken given k0 a b s k \<longleftrightarrow> byte_stream_ok s \<and>
     (\<exists>d. given k b = given k0 b @ d \<and> taken k a = taken k0 a @ d @ bs_contents s)"

lemma through_cong:
  assumes "through taken given k0 a b s k" and "given k' b = given k b" and "taken k' a = taken k a"
    and "byte_stream_ok s'" and "bs_contents s' = bs_contents s"
  shows "through taken given k0 a b s' k'"
  using assms by (simp add: through_def)

lemma through_flags [simp]:
  "through taken given k0 a b (ByteStream_end_input s) k = through taken given k0 a b s k"
  "through taken given k0 a b (ByteStream_set_error s) k = through taken given k0 a b s k"
  by (simp_all add: through_def)

lemma fill_stream_ok:
  assumes k: "kernel_ok sc taken given" and t: "through taken given k0 (fd_fd fd) b s k"
    and r: "fill_stream sc fd s k = Inr (fd', s', k')"
  shows "through taken given k0 (fd_fd fd) b s' k'" "given k' = given k" "\<And>x. x \<noteq> fd_fd fd \<Longrightarrow> taken k' x = taken k x"
    "fd_fd fd' = fd_fd fd" "fd_closed fd' = fd_closed fd" "fd_eof fd \<Longrightarrow> fd_eof fd'"
    "bs_input_ended s' \<longleftrightarrow> bs_input_ended s \<or> fd_eof fd'" "bs_error s' = bs_error s" "bs_cap s' = bs_cap s"
proof -
  from r obtain data where d: "FileDescriptor_read sc (ByteStream_remaining_capacity s) fd k = Inr (data, fd', k')"
    "s' = (if fd_eof fd' then ByteStream_end_input (fst (ByteStream_write s data)) else fst (ByteStream_write s data))"
    by (auto simp: fill_stream_def rbind_eq_Inr Let_def)
  note rd = FileDescriptor_read_ok [OF k d(1)]
  have ok: "byte_stream_ok s" using t by (simp add: through_def)
  have len: "length data \<le> bs_free s" using rd(1) unat_remaining_capacity [OF ok] by simp
  then have "str_ok data" using unat64_lt [of "bs_cap s"] unfolding bs_free_def by linarith
  note wr = ByteStream_write_ok [OF ok this]
  with len have "bs_contents (fst (ByteStream_write s data)) = bs_contents s @ data" by simp
  with wr d(2) have s': "byte_stream_ok s'" "bs_contents s' = bs_contents s @ data" by simp_all
  with t rd(2,3) show "through taken given k0 (fd_fd fd) b s' k'" by (auto simp: through_def)
  show "given k' = given k" "\<And>x. x \<noteq> fd_fd fd \<Longrightarrow> taken k' x = taken k x"
    "fd_fd fd' = fd_fd fd" "fd_closed fd' = fd_closed fd" "fd_eof fd \<Longrightarrow> fd_eof fd'"
    "bs_input_ended s' \<longleftrightarrow> bs_input_ended s \<or> fd_eof fd'" "bs_error s' = bs_error s" "bs_cap s' = bs_cap s"
    using rd d(2) by auto
qed

lemma drain_stream_ok:
  assumes k: "kernel_ok sc taken given" and t: "through taken given k0 a (fd_fd fd) s k"
    and r: "drain_stream sc fd s k = Inr (fd', s', k')"
  shows "through taken given k0 a (fd_fd fd) s' k'" "taken k' = taken k" "\<And>x. x \<noteq> fd_fd fd \<Longrightarrow> given k' x = given k x"
    "fd_fd fd' = fd_fd fd" "fd_closed fd' = fd_closed fd" "fd_eof fd' = fd_eof fd"
    "bs_input_ended s' = bs_input_ended s" "bs_error s' = bs_error s" "bs_cap s' = bs_cap s"
    "bs_contents s = [] \<Longrightarrow> bs_contents s' = []"
proof -
  let ?n = "min max_copy_length (ByteStream_buffer_size s)"
  from r obtain m where d: "FileDescriptor_write sc [ByteStream_peek_output s ?n] False fd k = Inr (m, fd', k')"
    "ByteStream_pop_output s m = Inr s'"
    by (auto simp: drain_stream_def rbind_eq_Inr Let_def)
  have ok: "byte_stream_ok s" using t by (simp add: through_def)
  let ?p = "take (unat ?n) (bs_contents s)"
  have p: "ByteStream_peek_output s ?n = ?p" "str_ok ?p"
    using peek_output_eq [OF ok] bs_contents_bound [OF ok] by simp_all
  note wr = FileDescriptor_write_ok [OF k d(1) [unfolded p(1)] p(2)]
  note pop = ByteStream_pop_output_ok [OF ok, of m, unfolded d(2)]
  have "unat m \<le> unat ?n" using wr(1) by simp
  then have "take (unat m) ?p = take (unat m) (bs_contents s)" by (simp add: min_absorb1)
  with t wr(2,3) pop show "through taken given k0 a (fd_fd fd) s' k'"
    unfolding through_def by (metis append_assoc append_take_drop_id fun_upd_same sum.inject(2))
  show "taken k' = taken k" "\<And>x. x \<noteq> fd_fd fd \<Longrightarrow> given k' x = given k x"
    "fd_fd fd' = fd_fd fd" "fd_closed fd' = fd_closed fd" "fd_eof fd' = fd_eof fd"
    "bs_input_ended s' = bs_input_ended s" "bs_error s' = bs_error s" "bs_cap s' = bs_cap s"
    "bs_contents s = [] \<Longrightarrow> bs_contents s' = []"
    using wr pop by auto
qed

subsection \<open>The invariant\<close>

lemma copy_rules_distinct:
  "copy_rule1 sc \<noteq> copy_rule3 sc" "copy_rule2 sc \<noteq> copy_rule4 sc" "copy_rule1 sc \<noteq> copy_rule2 sc"
  "copy_rule1 sc \<noteq> copy_rule4 sc" "copy_rule3 sc \<noteq> copy_rule2 sc" "copy_rule3 sc \<noteq> copy_rule4 sc"
  "distinct (copy_rules sc)"
proof -
  define f where "f n = \<lparr>fd_fd = n, fd_eof = False, fd_closed = False, fd_read_count = 0, fd_write_count = 0\<rparr>" for n
  define w :: "'a stream_copy" where "w = \<lparr>cp_input = f 0, cp_output = f 1, cp_socket = f 2, cp_outbound = ByteStream_new 0,
    cp_inbound = ByteStream_new 0, cp_outbound_shutdown = False, cp_inbound_shutdown = False, cp_kernel = undefined\<rparr>"
  have "ru_fd (copy_rule1 sc) w \<noteq> ru_fd (copy_rule3 sc) w" "ru_fd (copy_rule2 sc) w \<noteq> ru_fd (copy_rule4 sc) w"
    by (simp_all add: copy_rule1_def copy_rule2_def copy_rule3_def copy_rule4_def w_def f_def)
  then show 13: "copy_rule1 sc \<noteq> copy_rule3 sc" and 24: "copy_rule2 sc \<noteq> copy_rule4 sc" by metis+
  have "ru_direction (copy_rule1 sc) = In" "ru_direction (copy_rule2 sc) = Out" "ru_direction (copy_rule3 sc) = In" "ru_direction (copy_rule4 sc) = Out"
    by (simp_all add: copy_rule1_def copy_rule2_def copy_rule3_def copy_rule4_def)
  then show "copy_rule1 sc \<noteq> copy_rule2 sc" "copy_rule1 sc \<noteq> copy_rule4 sc" "copy_rule3 sc \<noteq> copy_rule2 sc" "copy_rule3 sc \<noteq> copy_rule4 sc"
    by (metis direction.distinct(1))+
  with 13 24 show "distinct (copy_rules sc)" by (auto simp: copy_rules_def)
qed

definition copy_data ::
  "('k \<Rightarrow> int \<Rightarrow> bytes) \<Rightarrow> ('k \<Rightarrow> int \<Rightarrow> bytes) \<Rightarrow> 'k \<Rightarrow> int \<Rightarrow> 'k stream_copy \<Rightarrow> bool" where
  "copy_data taken given k0 n w \<longleftrightarrow>
     fd_fd (cp_input w) = 0 \<and> fd_fd (cp_output w) = 1 \<and> fd_fd (cp_socket w) = n \<and> n \<noteq> 0 \<and> n \<noteq> 1 \<and>
     through taken given k0 0 n (cp_outbound w) (cp_kernel w) \<and>
     through taken given k0 n 1 (cp_inbound w) (cp_kernel w)"

text \<open>How the flags of streams and descriptors go with the rules that are left.\<close>

definition copy_flags :: "'k syscalls \<Rightarrow> 'k stream_copy el_rule set \<Rightarrow> 'k stream_copy \<Rightarrow> bool" where
  "copy_flags sc L w \<longleftrightarrow>
     (bs_input_ended (cp_outbound w) \<longleftrightarrow> fd_eof (cp_input w) \<or> copy_rule1 sc \<notin> L) \<and>
     (bs_input_ended (cp_inbound w) \<longleftrightarrow> fd_eof (cp_socket w) \<or> copy_rule3 sc \<notin> L) \<and>
     (bs_error (cp_outbound w) \<longleftrightarrow> copy_rule2 sc \<notin> L) \<and> (bs_error (cp_inbound w) \<longleftrightarrow> copy_rule4 sc \<notin> L) \<and>
     (cp_outbound_shutdown w \<longrightarrow> bs_input_ended (cp_outbound w) \<and> bs_contents (cp_outbound w) = []) \<and>
     (cp_inbound_shutdown w \<longrightarrow> bs_input_ended (cp_inbound w) \<and> bs_contents (cp_inbound w) = []) \<and>
     (fd_closed (cp_output w) \<longleftrightarrow> cp_inbound_shutdown w) \<and> \<not> fd_closed (cp_input w) \<and> \<not> fd_closed (cp_socket w) \<and>
     bs_cap (cp_outbound w) = copy_buffer_size \<and> bs_cap (cp_inbound w) = copy_buffer_size"

definition copy_inv ::
  "'k syscalls \<Rightarrow> ('k \<Rightarrow> int \<Rightarrow> bytes) \<Rightarrow> ('k \<Rightarrow> int \<Rightarrow> bytes) \<Rightarrow> 'k \<Rightarrow> int \<Rightarrow> 'k stream_copy el_rule set \<Rightarrow> 'k stream_copy \<Rightarrow> bool" where
  "copy_inv sc taken given k0 n L w \<longleftrightarrow>
     kernel_ok sc taken given \<and> L \<subseteq> set (copy_rules sc) \<and> copy_data taken given k0 n w \<and> copy_flags sc L w"

definition copy_armed :: "'k syscalls \<Rightarrow> 'k stream_copy el_rule \<Rightarrow> 'k stream_copy \<Rightarrow> bool" where
  "copy_armed sc r w \<longleftrightarrow> (r = copy_rule1 sc \<longrightarrow> \<not> fd_eof (cp_input w)) \<and> (r = copy_rule3 sc \<longrightarrow> \<not> fd_eof (cp_socket w))"

definition copy_idle :: "'k syscalls \<Rightarrow> 'k stream_copy el_rule \<Rightarrow> 'k stream_copy \<Rightarrow> bool" where
  "copy_idle sc r w \<longleftrightarrow> (r = copy_rule2 sc \<longrightarrow> bs_contents (cp_outbound w) = []) \<and>
     (r = copy_rule4 sc \<longrightarrow> bs_contents (cp_inbound w) = [])"

lemma copy_rule_cases:
  assumes "copy_inv sc taken given k0 n L w" and "r \<in> L"
  obtains "r = copy_rule1 sc" | "r = copy_rule2 sc" | "r = copy_rule3 sc" | "r = copy_rule4 sc"
  using assms by (auto simp: copy_inv_def copy_rules_def)

lemma copy_callback1:
  assumes i: "copy_inv sc taken given k0 n L w" and L: "copy_rule1 sc \<in> L" and e: "\<not> fd_eof (cp_input w)"
    and c: "ru_callback (copy_rule1 sc) w = Inr w'"
  shows "copy_inv sc taken given k0 n L w' \<and> fd_eof (cp_socket w') = fd_eof (cp_socket w)"
proof -
  from c obtain fd s k' where f: "fill_stream sc (cp_input w) (cp_outbound w) (cp_kernel w) = Inr (fd, s, k')"
    and w': "w' = w\<lparr>cp_input := fd, cp_outbound := s, cp_kernel := k'\<rparr>"
    by (auto simp: copy_rule1_def rbind_eq_Inr)
  have d: "kernel_ok sc taken given" "copy_data taken given k0 n w" "copy_flags sc L w" "L \<subseteq> set (copy_rules sc)"
    using i by (simp_all add: copy_inv_def)
  have t: "through taken given k0 (fd_fd (cp_input w)) n (cp_outbound w) (cp_kernel w)" using d(2) by (simp add: copy_data_def)
  note fs = fill_stream_ok [OF d(1) t f]
  have "copy_data taken given k0 n w'" using d(2) fs(1-4) through_cong by (auto simp: copy_data_def w' through_def)
  moreover have "copy_flags sc L w'" using d(3) L e fs(5-9) by (auto simp: copy_flags_def w')
  ultimately show ?thesis using d by (simp add: copy_inv_def w')
qed

lemma copy_callback3:
  assumes i: "copy_inv sc taken given k0 n L w" and L: "copy_rule3 sc \<in> L" and e: "\<not> fd_eof (cp_socket w)"
    and c: "ru_callback (copy_rule3 sc) w = Inr w'"
  shows "copy_inv sc taken given k0 n L w' \<and> fd_eof (cp_input w') = fd_eof (cp_input w)"
proof -
  from c obtain fd s k' where f: "fill_stream sc (cp_socket w) (cp_inbound w) (cp_kernel w) = Inr (fd, s, k')"
    and w': "w' = w\<lparr>cp_socket := fd, cp_inbound := s, cp_kernel := k'\<rparr>"
    by (auto simp: copy_rule3_def rbind_eq_Inr)
  have d: "kernel_ok sc taken given" "copy_data taken given k0 n w" "copy_flags sc L w" "L \<subseteq> set (copy_rules sc)"
    using i by (simp_all add: copy_inv_def)
  have t: "through taken given k0 (fd_fd (cp_socket w)) 1 (cp_inbound w) (cp_kernel w)" using d(2) by (simp add: copy_data_def)
  note fs = fill_stream_ok [OF d(1) t f]
  have "copy_data taken given k0 n w'" using d(2) fs(1-4) by (auto simp: copy_data_def w' through_def)
  moreover have "copy_flags sc L w'" using d(3) L e fs(5-9) by (auto simp: copy_flags_def w')
  ultimately show ?thesis using d by (simp add: copy_inv_def w')
qed

lemma copy_callback2:
  assumes i: "copy_inv sc taken given k0 n L w" and c: "ru_callback (copy_rule2 sc) w = Inr w'"
  shows "copy_inv sc taken given k0 n L w' \<and> fd_eof (cp_input w') = fd_eof (cp_input w) \<and> fd_eof (cp_socket w') = fd_eof (cp_socket w)"
proof -
  from c obtain fd s k1 where f: "drain_stream sc (cp_socket w) (cp_outbound w) (cp_kernel w) = Inr (fd, s, k1)"
    and w': "if ByteStream_eof s then \<exists>fd' k'. Socket_shutdown sc SHUT_WR fd k1 = Inr (fd', k') \<and>
        w' = w\<lparr>cp_outbound := s, cp_socket := fd', cp_kernel := k', cp_outbound_shutdown := True\<rparr>
      else w' = w\<lparr>cp_socket := fd, cp_outbound := s, cp_kernel := k1\<rparr>"
    by (auto simp: copy_rule2_def rbind_eq_Inr Let_def split: if_splits)
  have d: "kernel_ok sc taken given" "copy_data taken given k0 n w" "copy_flags sc L w" "L \<subseteq> set (copy_rules sc)"
    using i by (simp_all add: copy_inv_def)
  have t: "through taken given k0 0 (fd_fd (cp_socket w)) (cp_outbound w) (cp_kernel w)" using d(2) by (simp add: copy_data_def)
  note ds = drain_stream_ok [OF d(1) t f]
  have e: "ByteStream_eof s \<longleftrightarrow> bs_input_ended s \<and> bs_contents s = []" using ds(1) eof_iff by (simp add: through_def)
  have "copy_data taken given k0 n w' \<and> copy_flags sc L w' \<and> cp_input w' = cp_input w \<and> fd_eof (cp_socket w') = fd_eof (cp_socket w)"
  proof (cases "ByteStream_eof s")
    case True
    with w' obtain fd' k' where r: "Socket_shutdown sc SHUT_WR fd k1 = Inr (fd', k')"
      "w' = w\<lparr>cp_outbound := s, cp_socket := fd', cp_kernel := k', cp_outbound_shutdown := True\<rparr>" by auto
    note sh = Socket_shutdown_ok [OF d(1) r(1)]
    have "copy_data taken given k0 n w'" using d(2) ds(1-4) sh(1-3) r(2) by (auto simp: copy_data_def through_def)
    moreover have "copy_flags sc L w'" using d(3) ds(5-10) sh(4,5) r(2) e True by (auto simp: copy_flags_def)
    ultimately show ?thesis using ds(6) sh(4) by (simp add: r(2))
  next
    case False
    then have r: "w' = w\<lparr>cp_socket := fd, cp_outbound := s, cp_kernel := k1\<rparr>" using w' by simp
    have "copy_data taken given k0 n w'" using d(2) ds(1-4) r by (auto simp: copy_data_def through_def)
    moreover have "copy_flags sc L w'" using d(3) ds(5-10) r by (auto simp: copy_flags_def)
    ultimately show ?thesis using ds(6) by (simp add: r)
  qed
  then show ?thesis using d by (simp add: copy_inv_def)
qed

lemma copy_callback4:
  assumes i: "copy_inv sc taken given k0 n L w" and c: "ru_callback (copy_rule4 sc) w = Inr w'"
  shows "copy_inv sc taken given k0 n L w' \<and> cp_input w' = cp_input w \<and> cp_socket w' = cp_socket w"
proof -
  from c obtain fd s k1 where f: "drain_stream sc (cp_output w) (cp_inbound w) (cp_kernel w) = Inr (fd, s, k1)"
    and w': "if ByteStream_eof s then \<exists>fd' k'. FDWrapper_close sc fd k1 = Inr (fd', k') \<and>
        w' = w\<lparr>cp_inbound := s, cp_output := fd', cp_kernel := k', cp_inbound_shutdown := True\<rparr>
      else w' = w\<lparr>cp_output := fd, cp_inbound := s, cp_kernel := k1\<rparr>"
    by (auto simp: copy_rule4_def rbind_eq_Inr Let_def split: if_splits)
  have d: "kernel_ok sc taken given" "copy_data taken given k0 n w" "copy_flags sc L w" "L \<subseteq> set (copy_rules sc)"
    using i by (simp_all add: copy_inv_def)
  have t: "through taken given k0 n (fd_fd (cp_output w)) (cp_inbound w) (cp_kernel w)" using d(2) by (simp add: copy_data_def)
  note ds = drain_stream_ok [OF d(1) t f]
  have e: "ByteStream_eof s \<longleftrightarrow> bs_input_ended s \<and> bs_contents s = []" using ds(1) eof_iff by (simp add: through_def)
  have "copy_data taken given k0 n w' \<and> copy_flags sc L w' \<and> cp_input w' = cp_input w \<and> cp_socket w' = cp_socket w"
  proof (cases "ByteStream_eof s")
    case True
    with w' obtain fd' k' where r: "FDWrapper_close sc fd k1 = Inr (fd', k')"
      "w' = w\<lparr>cp_inbound := s, cp_output := fd', cp_kernel := k', cp_inbound_shutdown := True\<rparr>" by auto
    note cl = FDWrapper_close_ok [OF d(1) r(1)]
    have "copy_data taken given k0 n w'" using d(2) ds(1-4) cl(1-3) r(2) by (auto simp: copy_data_def through_def)
    moreover have "copy_flags sc L w'" using d(3) ds(5-10) cl(4,5) r(2) e True by (auto simp: copy_flags_def)
    ultimately show ?thesis by (simp add: r(2))
  next
    case False
    then have r: "w' = w\<lparr>cp_output := fd, cp_inbound := s, cp_kernel := k1\<rparr>" using w' by simp
    have "copy_data taken given k0 n w'" using d(2) ds(1-4) r by (auto simp: copy_data_def through_def)
    moreover have "copy_flags sc L w'" using d(3) ds(5-10) r by (auto simp: copy_flags_def)
    ultimately show ?thesis by (simp add: r)
  qed
  then show ?thesis using d by (simp add: copy_inv_def)
qed

lemma copy_cancel_eqs:
  "ru_cancel (copy_rule1 sc) w = Inr (w\<lparr>cp_outbound := ByteStream_end_input (cp_outbound w)\<rparr>)"
  "ru_cancel (copy_rule2 sc) w = Inr (w\<lparr>cp_outbound := ByteStream_set_error (cp_outbound w)\<rparr>)"
  "ru_cancel (copy_rule3 sc) w = Inr (w\<lparr>cp_inbound := ByteStream_end_input (cp_inbound w)\<rparr>)"
  "ru_cancel (copy_rule4 sc) w = Inr (w\<lparr>cp_inbound := ByteStream_set_error (cp_inbound w)\<rparr>)"
  by (simp_all add: copy_rule1_def copy_rule2_def copy_rule3_def copy_rule4_def)

lemma copy_cancel:
  assumes i: "copy_inv sc taken given k0 n L w" and r: "r \<in> L" and c: "ru_cancel r w = Inr w'"
  shows "copy_inv sc taken given k0 n (L - {r}) w' \<and> fd_eof (cp_input w') = fd_eof (cp_input w) \<and>
     fd_eof (cp_socket w') = fd_eof (cp_socket w) \<and>
     bs_contents (cp_outbound w') = bs_contents (cp_outbound w) \<and> bs_contents (cp_inbound w') = bs_contents (cp_inbound w)"
proof -
  note ds = copy_rules_distinct [of sc]
  have d: "kernel_ok sc taken given" "copy_data taken given k0 n w" "copy_flags sc L w" "L \<subseteq> set (copy_rules sc)"
    using i by (simp_all add: copy_inv_def)
  have "copy_flags sc (L - {r}) w' \<and> copy_data taken given k0 n w' \<and> cp_input w' = cp_input w \<and> cp_socket w' = cp_socket w \<and>
     bs_contents (cp_outbound w') = bs_contents (cp_outbound w) \<and> bs_contents (cp_inbound w') = bs_contents (cp_inbound w)"
    using i r
  proof (cases rule: copy_rule_cases)
    case 1
    then have w': "w' = w\<lparr>cp_outbound := ByteStream_end_input (cp_outbound w)\<rparr>" using c by (simp add: copy_cancel_eqs)
    show ?thesis using d(2,3) ds(1-6) ds(1-6) [symmetric] unfolding 1 w' copy_flags_def copy_data_def by (simp; blast)
  next
    case 2
    then have w': "w' = w\<lparr>cp_outbound := ByteStream_set_error (cp_outbound w)\<rparr>" using c by (simp add: copy_cancel_eqs)
    show ?thesis using d(2,3) ds(1-6) ds(1-6) [symmetric] unfolding 2 w' copy_flags_def copy_data_def by (simp; blast)
  next
    case 3
    then have w': "w' = w\<lparr>cp_inbound := ByteStream_end_input (cp_inbound w)\<rparr>" using c by (simp add: copy_cancel_eqs)
    show ?thesis using d(2,3) ds(1-6) ds(1-6) [symmetric] unfolding 3 w' copy_flags_def copy_data_def by (simp; blast)
  next
    case 4
    then have w': "w' = w\<lparr>cp_inbound := ByteStream_set_error (cp_inbound w)\<rparr>" using c by (simp add: copy_cancel_eqs)
    show ?thesis using d(2,3) ds(1-6) ds(1-6) [symmetric] unfolding 4 w' copy_flags_def copy_data_def by (simp; blast)
  qed
  with d(1,4) show ?thesis by (auto simp: copy_inv_def)
qed

subsection \<open>The rules as a client of the event loop\<close>

lemma copy_callback:
  assumes i: "copy_inv sc taken given k0 n L w" and r: "r \<in> L" and a: "copy_armed sc r w" and c: "ru_callback r w = Inr w'"
  shows "copy_inv sc taken given k0 n L w' \<and>
     (r \<noteq> copy_rule1 sc \<longrightarrow> fd_eof (cp_input w') = fd_eof (cp_input w)) \<and>
     (r \<noteq> copy_rule3 sc \<longrightarrow> fd_eof (cp_socket w') = fd_eof (cp_socket w))"
  using i r
proof (cases rule: copy_rule_cases)
  case 1
  then show ?thesis using copy_callback1 [OF i _ _ c [unfolded 1]] r a by (simp add: copy_armed_def)
next
  case 2
  then show ?thesis using copy_callback2 [OF i c [unfolded 2]] by simp
next
  case 3
  then show ?thesis using copy_callback3 [OF i _ _ c [unfolded 3]] r a by (simp add: copy_armed_def)
next
  case 4
  then show ?thesis using copy_callback4 [OF i c [unfolded 4]] by simp
qed

lemma copy_inv_kernel:
  assumes "copy_inv sc taken given k0 n L w" and "taken k' = taken (cp_kernel w)" and "given k' = given (cp_kernel w)"
  shows "copy_inv sc taken given k0 n L (w\<lparr>cp_kernel := k'\<rparr>)"
proof -
  have "copy_flags sc L (w\<lparr>cp_kernel := k'\<rparr>) = copy_flags sc L w" by (simp add: copy_flags_def)
  with assms show ?thesis by (simp add: copy_inv_def copy_data_def through_def)
qed

lemma copy_poll_inv:
  assumes i: "copy_inv sc taken given k0 n L w" and p: "copy_poll sc ps t w = (ret, err, revents, w')"
  shows "copy_inv sc taken given k0 n L w' \<and> (\<forall>r. copy_armed sc r w' = copy_armed sc r w)"
proof -
  obtain k' where k: "sc_poll sc ps t (cp_kernel w) = (ret, err, revents, k')" and w': "w' = w\<lparr>cp_kernel := k'\<rparr>"
    using p by (auto simp: copy_poll_def split: prod.splits)
  have "taken k' = taken (cp_kernel w)" "given k' = given (cp_kernel w)"
    using i k by (simp_all add: copy_inv_def kernel_ok_def kernel_quiet_def)
  with copy_inv_kernel [OF i] show ?thesis by (simp add: w' copy_armed_def)
qed

lemma copy_no_interest:
  assumes i: "copy_inv sc taken given k0 n L w" and n: "\<not> ru_interest r w"
  shows "copy_idle sc r w"
proof -
  have "byte_stream_ok (cp_outbound w)" "byte_stream_ok (cp_inbound w)"
    using i by (simp_all add: copy_inv_def copy_data_def through_def)
  then show ?thesis using n by (auto simp: copy_idle_def copy_rule2_def copy_rule4_def buffer_empty_iff)
qed

interpretation cp: event_loop_client "copy_inv sc taken given k0 n" "copy_armed sc" "copy_idle sc" "copy_poll sc"
  for sc :: "'k syscalls" and taken given k0 n
proof unfold_locales
  fix L :: "'k stream_copy el_rule set" and r s w w' ps t ret err revents
  let ?inv = "copy_inv sc taken given k0 n"
  show "copy_armed sc r w" if "\<not> (ru_direction r = In \<and> fd_eof (ru_fd r w))"
    using that by (auto simp: copy_armed_def copy_rule1_def copy_rule3_def)
  show "copy_idle sc r w" if "?inv L w" "\<not> ru_interest r w" by (rule copy_no_interest [OF that])
  show "?inv L w'" if "r \<in> L" "?inv L w" "copy_armed sc r w" "ru_callback r w = Inr w'" using copy_callback [OF that(2,1,3,4)] by simp
  show "copy_armed sc s w'" if "r \<in> L" "r \<noteq> s" "?inv L w" "copy_armed sc r w" "copy_armed sc s w" "ru_callback r w = Inr w'"
    using copy_callback [OF that(3,1,4,6)] that(2,5) by (auto simp: copy_armed_def)
  show "?inv (L - {r}) w'" if "r \<in> L" "?inv L w" "ru_cancel r w = Inr w'" using copy_cancel [OF that(2,1,3)] by simp
  show "copy_armed sc s w'" if "r \<in> L" "?inv L w" "copy_armed sc s w" "ru_cancel r w = Inr w'"
    using copy_cancel [OF that(2,1,4)] that(3) by (auto simp: copy_armed_def)
  show "copy_idle sc s w'" if "r \<in> L" "?inv L w" "copy_idle sc s w" "ru_cancel r w = Inr w'"
    using copy_cancel [OF that(2,1,4)] that(3) by (auto simp: copy_idle_def)
  show "?inv L w' \<and> (\<forall>r \<in> L. copy_armed sc r w \<longrightarrow> copy_armed sc r w')"
    if "?inv L w" "copy_poll sc ps t w = (ret, err, revents, w')" using copy_poll_inv [OF that] by blast
qed

definition copy_step ::
  "'k syscalls \<Rightarrow> 'k stream_copy el_rule list \<times> 'k stream_copy \<Rightarrow> 'k stream_copy el_rule list \<times> 'k stream_copy \<Rightarrow> bool" where
  "copy_step sc s t \<longleftrightarrow>
     (\<exists>res. EventLoop_wait_next_event (copy_poll sc) (- 1) (fst s) (snd s) = Inr (res, fst t, snd t))"

text \<open>The socket is open and its descriptor is none of the standard ones.\<close>

definition fresh_socket :: "fd_wrapper \<Rightarrow> bool" where
  "fresh_socket fd \<longleftrightarrow> fd_fd fd \<noteq> 0 \<and> fd_fd fd \<noteq> 1 \<and> \<not> fd_eof fd \<and> \<not> fd_closed fd"

definition copy_started ::
  "'k syscalls \<Rightarrow> ('k \<Rightarrow> int \<Rightarrow> bytes) \<Rightarrow> ('k \<Rightarrow> int \<Rightarrow> bytes) \<Rightarrow> fd_wrapper \<Rightarrow> 'k \<Rightarrow>
   'k stream_copy el_rule list \<times> 'k stream_copy \<Rightarrow> bool" where
  "copy_started sc taken given socket k0 s \<longleftrightarrow>
     kernel_ok sc taken given \<and> fresh_socket socket \<and> copy_setup sc socket k0 = Inr s"

lemma copy_started_inv:
  assumes "copy_started sc taken given socket k0 s"
  shows "distinct (fst s) \<and> copy_inv sc taken given k0 (fd_fd socket) (set (fst s)) (snd s)"
proof -
  have k: "kernel_ok sc taken given" and f: "fresh_socket socket" and s: "copy_setup sc socket k0 = Inr s"
    using assms by (simp_all add: copy_started_def)
  let ?fd = "\<lambda>n. \<lparr>fd_fd = n, fd_eof = False, fd_closed = False, fd_read_count = 0, fd_write_count = 0\<rparr>"
  from s obtain k1 k2 k3 where c: "FileDescriptor_set_blocking sc False socket k0 = Inr k1"
    "FileDescriptor_set_blocking sc False (?fd 0) k1 = Inr k2" "FileDescriptor_set_blocking sc False (?fd 1) k2 = Inr k3"
    and s': "s = (copy_rules sc, \<lparr>cp_input = ?fd 0, cp_output = ?fd 1, cp_socket = socket,
        cp_outbound = ByteStream_new copy_buffer_size, cp_inbound = ByteStream_new copy_buffer_size,
        cp_outbound_shutdown = False, cp_inbound_shutdown = False, cp_kernel = k3\<rparr>)"
    by (auto simp: copy_setup_def FDWrapper_new_def rbind_eq_Inr)
  have q: "taken k3 = taken k0" "given k3 = given k0"
    using FileDescriptor_set_blocking_ok [OF k c(1)] FileDescriptor_set_blocking_ok [OF k c(2)] FileDescriptor_set_blocking_ok [OF k c(3)]
    by simp_all
  have "copy_rule1 sc \<in> set (copy_rules sc)" "copy_rule2 sc \<in> set (copy_rules sc)"
    "copy_rule3 sc \<in> set (copy_rules sc)" "copy_rule4 sc \<in> set (copy_rules sc)" by (simp_all add: copy_rules_def)
  then show ?thesis using k f q copy_rules_distinct(7) [of sc]
    by (simp add: s' copy_inv_def copy_data_def copy_flags_def through_def fresh_socket_def) (simp add: ByteStream_new_def)
qed

interpretation cps: invariant_system "copy_started sc taken given socket k0" "copy_step sc"
  "\<lambda>s. distinct (fst s) \<and> copy_inv sc taken given k0 (fd_fd socket) (set (fst s)) (snd s)"
  for sc :: "'k syscalls" and taken given socket k0
proof unfold_locales
  fix s t :: "'k stream_copy el_rule list \<times> 'k stream_copy"
  show "distinct (fst s) \<and> copy_inv sc taken given k0 (fd_fd socket) (set (fst s)) (snd s)"
    if "copy_started sc taken given socket k0 s" by (rule copy_started_inv [OF that])
  show "distinct (fst t) \<and> copy_inv sc taken given k0 (fd_fd socket) (set (fst t)) (snd t)"
    if i: "distinct (fst s) \<and> copy_inv sc taken given k0 (fd_fd socket) (set (fst s)) (snd s)" and st: "copy_step sc s t"
  proof -
    from st obtain res where "EventLoop_wait_next_event (copy_poll sc) (- 1) (fst s) (snd s) = Inr (res, fst t, snd t)"
      by (auto simp: copy_step_def)
    from cp.wait_inv [OF this] i show ?thesis using subseq_keeps(2) by blast
  qed
qed

end
