(* ===== verification/Pipes.thy ===== *)
theory Pipes
  imports File_Descriptor
begin

text \<open>
  A concrete kernel: every descriptor is a pipe with the bytes that wait in it, and the kernel
  keeps accounts of what is read and written. It meets \<open>kernel_ok\<close>; the concrete runs of the event
  loop use it.
\<close>

record pipes =
  pi_pending :: "int \<Rightarrow> bytes"
  pi_taken :: "int \<Rightarrow> bytes"
  pi_given :: "int \<Rightarrow> bytes"

definition pipe_kernel :: "pipes syscalls" where
  "pipe_kernel = \<lparr>
     sc_read = (\<lambda>fd n k. let d = take (unat n) (pi_pending k fd) in (int (length d), 0, d,
       k\<lparr>pi_pending := (pi_pending k)(fd := drop (unat n) (pi_pending k fd)), pi_taken := (pi_taken k)(fd := pi_taken k fd @ d)\<rparr>)),
     sc_writev = (\<lambda>fd iov k. let d = take 4096 (concat (map fst iov)) in (int (length d), 0, k\<lparr>pi_given := (pi_given k)(fd := pi_given k fd @ d)\<rparr>)),
     sc_close = (\<lambda>fd k. (0, 0, k)), sc_fcntl = (\<lambda>fd cmd arg k. (0, 0, k)), sc_shutdown = (\<lambda>fd how k. (0, 0, k)),
     sc_poll = (\<lambda>ps t k. (int (length ps), 0, map snd ps, k))\<rparr>"

lemma int_le_uint: "m \<le> unat n \<Longrightarrow> int m \<le> uint n"
  using of_nat_mono [of m "unat n", where 'a = int] by simp

lemma pipe_kernel_ok: "kernel_ok pipe_kernel pi_taken pi_given"
  by (auto simp: kernel_ok_def kernel_reads_def kernel_writes_def kernel_quiet_def pipe_kernel_def Let_def min_def int_le_uint)

definition fd_open :: "int \<Rightarrow> fd_wrapper" where
  "fd_open n = \<lparr>fd_fd = n, fd_eof = False, fd_closed = False, fd_read_count = 0, fd_write_count = 0\<rparr>"

lemma pipe_read:
  assumes "length (pi_pending k (fd_fd fd)) < unat limit" and "length (pi_pending k (fd_fd fd)) < 1048576"
  shows "FileDescriptor_read pipe_kernel limit fd k =
     (let d = pi_pending k (fd_fd fd) in
      Inr (d, register_read (if d = [] then fd\<lparr>fd_eof := True\<rparr> else fd),
        k\<lparr>pi_pending := (pi_pending k)(fd_fd fd := []), pi_taken := (pi_taken k)(fd_fd fd := pi_taken k (fd_fd fd) @ d)\<rparr>))"
proof -
  let ?d = "pi_pending k (fd_fd fd)" and ?n = "min 1048576 limit :: u64"
  have n: "length ?d < unat ?n" using assms by (simp add: min_def)
  have "unat ?n \<le> 1048576" using word_le_nat_alt [of ?n 1048576] by simp
  then have s: "sint ?n = int (unat ?n)" by (intro sint_small) simp
  have l: "0 < limit" using assms(1) by (auto simp: word_gt_0)
  have sys: "SystemCall ''read'' (int (length ?d)) 0 0 = Inr (int (length ?d))"
    using assms(2) by (simp add: SystemCall_def signed_take_bit_31)
  have r: "sc_read pipe_kernel (fd_fd fd) ?n k = (int (length ?d), 0, ?d,
     k\<lparr>pi_pending := (pi_pending k)(fd_fd fd := []), pi_taken := (pi_taken k)(fd_fd fd := pi_taken k (fd_fd fd) @ ?d)\<rparr>)"
    using n by (simp add: pipe_kernel_def Let_def)
  have "\<not> sint ?n < int (length ?d)" using n unfolding s by linarith
  then show ?thesis using r sys l n by (simp add: FileDescriptor_read_def Let_def)
qed

lemma pipe_write:
  assumes "length s \<le> 4096"
  shows "FileDescriptor_write pipe_kernel [s] False fd k =
     Inr (size64 s, register_write fd, k\<lparr>pi_given := (pi_given k)(fd_fd fd := pi_given k (fd_fd fd) @ s)\<rparr>)"
proof -
  have v: "BufferViewList_size [s] = size64 s" "str_ok s" "sint (size64 s) = int (length s)" "word_of_int (int (length s)) = size64 s"
    using assms by (simp_all add: BufferViewList_size_eq sint_small) (simp add: size64_def)
  have "list_all str_ok [s]" "unat (size64 s) \<le> length (concat [s])" using v(2) by simp_all
  from BufferViewList_remove_prefix_ok [OF this] obtain vs where vs: "BufferViewList_remove_prefix [s] (size64 s) = Inr vs" by blast
  have r: "sc_writev pipe_kernel (fd_fd fd) (BufferViewList_as_iovecs [s]) k =
     (int (length s), 0, k\<lparr>pi_given := (pi_given k)(fd_fd fd := pi_given k (fd_fd fd) @ s)\<rparr>)"
    using assms by (simp add: pipe_kernel_def iovecs_concat Let_def)
  have sys: "SystemCall ''writev'' (int (length s)) 0 0 = Inr (int (length s))"
    using assms by (simp add: SystemCall_def signed_take_bit_31)
  have "s \<noteq> [] \<or> size64 s = 0" by (auto simp: size64_def)
  then show ?thesis using v(2) unfolding FileDescriptor_write_def write_loop.simps(2) Let_def r prod.case sys rbind.simps v(1,3,4) vs
    by (auto simp: vs)
qed

end
