(* ===== verification/Copy_Runs.thy ===== *)
theory Copy_Runs
  imports Stream_Copy Pipes
begin

text \<open>
  Runs of the copying loop of \<^verbatim>\<open>apps/bidirectional_stream_copy.cc\<close>, for any kernel that keeps
  accounts. The concrete runs are those of a kernel of pipes, with two bytes waiting on standard
  input and one on the socket.
\<close>

subsection \<open>Rounds of the loop\<close>

lemma copy_loop_steps:
  assumes "copy_loop fuel sc rules w = Inr (rules', w')"
  obtains rs w1 where "(copy_step sc)\<^sup>*\<^sup>* (rules, w) (rs, w1)"
    "EventLoop_wait_next_event (copy_poll sc) (- 1) rs w1 = Inr (Exit, rules', w')"
  using assms
proof (induction fuel arbitrary: rules w)
  case (Suc fuel)
  from Suc.prems(2) obtain ret rs1 w1 where e: "EventLoop_wait_next_event (copy_poll sc) (- 1) rules w = Inr (ret, rs1, w1)"
    "if ret = Exit then rules' = rs1 \<and> w' = w1 else copy_loop fuel sc rs1 w1 = Inr (rules', w')"
    by (auto simp: rbind_eq_Inr split: if_splits)
  show ?case
  proof (cases "ret = Exit")
    case True
    with e Suc.prems(1) [of rules w] show ?thesis by simp
  next
    case False
    have st: "copy_step sc (rules, w) (rs1, w1)" using e(1) by (auto simp: copy_step_def)
    from False e(2) have "copy_loop fuel sc rs1 w1 = Inr (rules', w')" by simp
    from Suc.IH [OF _ this] st Suc.prems(1) show ?thesis by (metis converse_rtranclp_into_rtranclp)
  qed
qed simp

lemma service_rules:
  "service_polls its w = Inr (rs, w') \<Longrightarrow> set rs \<subseteq> set (map fst its)"
  by (induction its arbitrary: w rs) (fastforce simp: rbind_eq_Inr split: if_splits)+

lemma copy_setup_closed:
  assumes "setup_polls rs w = Inr (polls, w')" and "set rs \<subseteq> set (copy_rules sc)" and "fd_closed (cp_output w)"
  shows "copy_rule4 sc \<notin> set (map fst polls)"
  using assms
proof (induction rs arbitrary: w polls)
  case (Cons r rs)
  have r: "r \<in> set (copy_rules sc)" "set rs \<subseteq> set (copy_rules sc)" using Cons.prems(2) by simp_all
  consider (dropped) w1 where "ru_cancel r w = Inr w1" "setup_polls rs w1 = Inr (polls, w')"
    | (kept) ps x where "setup_polls rs w = Inr (ps, w')" "polls = (r, x) # ps" "\<not> fd_closed (ru_fd r w)"
    using Cons.prems(1) by (auto simp: rbind_eq_Inr Let_def split: if_splits)
  then show ?case
  proof cases
    case dropped
    have "cp_output w1 = cp_output w" using r(1) dropped(1) by (auto simp: copy_rules_def copy_cancel_eqs)
    with Cons.IH [OF dropped(2) r(2)] Cons.prems(3) show ?thesis by simp
  next
    case kept
    have "ru_fd (copy_rule4 sc) w = cp_output w" by (simp add: copy_rule4_def)
    then have "r \<noteq> copy_rule4 sc" using kept(3) Cons.prems(3) by auto
    with kept(2) Cons.IH [OF kept(1) r(2) Cons.prems(3)] show ?thesis by simp
  qed
qed simp

lemma copy_steps_rules: "(copy_step sc)\<^sup>*\<^sup>* s t \<Longrightarrow> distinct (fst s) \<and> copy_inv sc taken given k0 n (set (fst s)) (snd s) \<Longrightarrow>
    set (fst t) \<subseteq> set (fst s) \<and> distinct (fst t) \<and> copy_inv sc taken given k0 n (set (fst t)) (snd t)"
proof (induction rule: rtranclp_induct)
  case (step t u)
  from step.hyps(2) obtain res where "EventLoop_wait_next_event (copy_poll sc) (- 1) (fst t) (snd t) = Inr (res, fst u, snd u)"
    by (auto simp: copy_step_def)
  from cp.wait_inv [OF this] step.IH step.prems subseq_keeps [of "fst u" "fst t"] show ?case by blast
qed simp

subsection \<open>A run\<close>

lemma copy_rule_sel [simp]:
  "ru_fd (copy_rule1 sc) = cp_input" "ru_fd (copy_rule2 sc) = cp_socket" "ru_fd (copy_rule3 sc) = cp_socket" "ru_fd (copy_rule4 sc) = cp_output"
  "ru_direction (copy_rule1 sc) = In" "ru_direction (copy_rule2 sc) = Out" "ru_direction (copy_rule3 sc) = In" "ru_direction (copy_rule4 sc) = Out"
  by (simp_all add: copy_rule1_def copy_rule2_def copy_rule3_def copy_rule4_def)


definition demo_filled :: "bytes \<Rightarrow> byte_stream" where
  "demo_filled d = fst (ByteStream_write (ByteStream_new copy_buffer_size) d)"

definition demo_drained :: "bytes \<Rightarrow> byte_stream" where
  "demo_drained d = (demo_filled d)\<lparr>bs_buf := [Buffer_of []], bs_total_read_bytes := size64 d, bs_input_ended := True\<rparr>"

definition demo_copy :: "(u32 \<times> bool) \<Rightarrow> (u32 \<times> bool) \<Rightarrow> (u32 \<times> u32 \<times> bool) \<Rightarrow> byte_stream \<Rightarrow> byte_stream \<Rightarrow> bool \<Rightarrow> pipes \<Rightarrow> pipes stream_copy" where
  "demo_copy i out so ob ib sh k = \<lparr>
     cp_input = \<lparr>fd_fd = 0, fd_eof = snd i, fd_closed = False, fd_read_count = fst i, fd_write_count = 0\<rparr>,
     cp_output = \<lparr>fd_fd = 1, fd_eof = snd out, fd_closed = snd out, fd_read_count = 0, fd_write_count = fst out\<rparr>,
     cp_socket = \<lparr>fd_fd = 5, fd_eof = snd (snd so), fd_closed = False, fd_read_count = fst so, fd_write_count = fst (snd so)\<rparr>,
     cp_outbound = ob, cp_inbound = ib, cp_outbound_shutdown = sh, cp_inbound_shutdown = sh, cp_kernel = k\<rparr>"

definition demo_pipes :: "bytes \<Rightarrow> bytes \<Rightarrow> bytes \<Rightarrow> bytes \<Rightarrow> bytes \<Rightarrow> bytes \<Rightarrow> pipes" where
  "demo_pipes p0 p5 t0 t5 g5 g1 = \<lparr>pi_pending = (\<lambda>fd. [])(0 := p0, 5 := p5), pi_taken = (\<lambda>fd. [])(0 := t0, 5 := t5),
     pi_given = (\<lambda>fd. [])(5 := g5, 1 := g1)\<rparr>"

lemma demo_setup: "copy_setup pipe_kernel (fd_open 5) (demo_pipes [7, 8] [9] [] [] [] []) =
   Inr (copy_rules pipe_kernel, demo_copy (0, False) (0, False) (0, 0, False) (ByteStream_new copy_buffer_size) (ByteStream_new copy_buffer_size) False (demo_pipes [7, 8] [9] [] [] [] []))"
  by (simp add: copy_setup_def FDWrapper_new_def FileDescriptor_set_blocking_def pipe_kernel_def SystemCall_def Let_def demo_copy_def
      fd_open_def signed_take_bit_31)

lemma copy_interests:
  "ru_interest (copy_rule1 sc) w \<longleftrightarrow> \<not> bs_error (cp_outbound w) \<and> 0 < ByteStream_remaining_capacity (cp_outbound w) \<and> \<not> bs_error (cp_inbound w)"
  "ru_interest (copy_rule2 sc) w \<longleftrightarrow> \<not> ByteStream_buffer_empty (cp_outbound w) \<or> ByteStream_eof (cp_outbound w) \<and> \<not> cp_outbound_shutdown w"
  "ru_interest (copy_rule3 sc) w \<longleftrightarrow> \<not> bs_error (cp_inbound w) \<and> 0 < ByteStream_remaining_capacity (cp_inbound w) \<and> \<not> bs_error (cp_outbound w)"
  "ru_interest (copy_rule4 sc) w \<longleftrightarrow> \<not> ByteStream_buffer_empty (cp_inbound w) \<or> ByteStream_eof (cp_inbound w) \<and> \<not> cp_inbound_shutdown w"
  by (simp_all add: copy_rule1_def copy_rule2_def copy_rule3_def copy_rule4_def)


lemma demo_streams:
  "ByteStream_remaining_capacity (ByteStream_new copy_buffer_size) = 1048576"
  "ByteStream_remaining_capacity (demo_filled [7, 8]) = 1048574"
  "ByteStream_remaining_capacity (demo_filled [9]) = 1048575"
  "ByteStream_buffer_empty (ByteStream_new copy_buffer_size)"
  "\<not> ByteStream_buffer_empty (demo_filled [7, 8])"
  "\<not> ByteStream_buffer_empty (demo_filled [9])"
  "ByteStream_buffer_empty (demo_drained [7, 8])"
  "ByteStream_buffer_empty (demo_drained [9])"
  "\<not> ByteStream_eof (ByteStream_new copy_buffer_size)"
  "\<not> ByteStream_eof (demo_filled [7, 8])"
  "\<not> ByteStream_eof (demo_filled [9])"
  "ByteStream_eof (demo_drained [7, 8])"
  "ByteStream_eof (demo_drained [9])"
  "ByteStream_buffer_size (ByteStream_end_input (fst (ByteStream_write (demo_filled [7, 8]) []))) = 2"
  "ByteStream_buffer_size (ByteStream_end_input (fst (ByteStream_write (demo_filled [9]) []))) = 1"
  "ByteStream_peek_output (ByteStream_end_input (fst (ByteStream_write (demo_filled [7, 8]) []))) 2 = [7, 8]"
  "ByteStream_peek_output (ByteStream_end_input (fst (ByteStream_write (demo_filled [9]) []))) 1 = [9]"
  by code_simp+


lemma demo_pops:
  "ByteStream_pop_output (ByteStream_end_input (fst (ByteStream_write (demo_filled [7, 8]) []))) 2 = Inr (demo_drained [7, 8])"
  "ByteStream_pop_output (ByteStream_end_input (fst (ByteStream_write (demo_filled [9]) []))) 1 = Inr (demo_drained [9])"
  by code_simp+

lemma demo_errors: "\<not> bs_error (ByteStream_new copy_buffer_size)" "\<not> bs_error (demo_filled d)" "\<not> bs_error (demo_drained d)"
  by (simp_all add: ByteStream_new_def demo_filled_def demo_drained_def)



lemma copy_callbacks_in:
  "ru_callback (copy_rule1 sc) w = rbind (fill_stream sc (cp_input w) (cp_outbound w) (cp_kernel w)) (\<lambda>(fd, stream, k).
       Inr (w\<lparr>cp_input := fd, cp_outbound := stream, cp_kernel := k\<rparr>))"
  "ru_callback (copy_rule3 sc) w = rbind (fill_stream sc (cp_socket w) (cp_inbound w) (cp_kernel w)) (\<lambda>(fd, stream, k).
       Inr (w\<lparr>cp_socket := fd, cp_inbound := stream, cp_kernel := k\<rparr>))"
  by (simp_all add: copy_rule1_def copy_rule3_def)

lemma demo_fill0:
  assumes "length a < unat (ByteStream_remaining_capacity s)" "length a < 1048576" "fd_fd fd = 0"
  shows "fill_stream pipe_kernel fd s (demo_pipes a b c d e f) =
     Inr (register_read (if a = [] then fd\<lparr>fd_eof := True\<rparr> else fd),
       if fd_eof fd \<or> a = [] then ByteStream_end_input (fst (ByteStream_write s a)) else fst (ByteStream_write s a),
       demo_pipes [] b (c @ a) d e f)"
  using pipe_read [of "demo_pipes a b c d e f" fd "ByteStream_remaining_capacity s"] assms
  by (auto simp: fill_stream_def demo_pipes_def Let_def register_read_def fun_eq_iff)

lemma demo_fill5:
  assumes "length b < unat (ByteStream_remaining_capacity s)" "length b < 1048576" "fd_fd fd = 5"
  shows "fill_stream pipe_kernel fd s (demo_pipes a b c d e f) =
     Inr (register_read (if b = [] then fd\<lparr>fd_eof := True\<rparr> else fd),
       if fd_eof fd \<or> b = [] then ByteStream_end_input (fst (ByteStream_write s b)) else fst (ByteStream_write s b),
       demo_pipes a [] c (d @ b) e f)"
  using pipe_read [of "demo_pipes a b c d e f" fd "ByteStream_remaining_capacity s"] assms
  by (auto simp: fill_stream_def demo_pipes_def Let_def register_read_def fun_eq_iff)

lemma demo_poll: "copy_poll pipe_kernel ps t w = (int (length ps), 0, map snd ps, w)"
  by (simp add: copy_poll_def pipe_kernel_def)


lemma copy_callbacks_out:
  "ru_callback (copy_rule2 sc) w = rbind (drain_stream sc (cp_socket w) (cp_outbound w) (cp_kernel w)) (\<lambda>(fd, stream, k).
       let w = w\<lparr>cp_socket := fd, cp_outbound := stream, cp_kernel := k\<rparr> in
       if ByteStream_eof (cp_outbound w)
       then rbind (Socket_shutdown sc SHUT_WR (cp_socket w) (cp_kernel w)) (\<lambda>(fd, k).
            Inr (w\<lparr>cp_socket := fd, cp_kernel := k, cp_outbound_shutdown := True\<rparr>))
       else Inr w)"
  "ru_callback (copy_rule4 sc) w = rbind (drain_stream sc (cp_output w) (cp_inbound w) (cp_kernel w)) (\<lambda>(fd, stream, k).
       let w = w\<lparr>cp_output := fd, cp_inbound := stream, cp_kernel := k\<rparr> in
       if ByteStream_eof (cp_inbound w)
       then rbind (FDWrapper_close sc (cp_output w) (cp_kernel w)) (\<lambda>(fd, k).
            Inr (w\<lparr>cp_output := fd, cp_kernel := k, cp_inbound_shutdown := True\<rparr>))
       else Inr w)"
  by (simp_all add: copy_rule2_def copy_rule4_def)

lemma demo_drain:
  "fd_fd fd = 5 \<Longrightarrow> drain_stream pipe_kernel fd (ByteStream_end_input (fst (ByteStream_write (demo_filled [7, 8]) []))) (demo_pipes a b c d e f) =
     Inr (register_write fd, demo_drained [7, 8], demo_pipes a b c d (e @ [7, 8]) f)"
  "fd_fd fd = 1 \<Longrightarrow> drain_stream pipe_kernel fd (ByteStream_end_input (fst (ByteStream_write (demo_filled [9]) []))) (demo_pipes a b c d e f) =
     Inr (register_write fd, demo_drained [9], demo_pipes a b c d e (f @ [9]))"
  by (auto simp: drain_stream_def demo_streams demo_pops max_copy_length_def pipe_write Let_def size64_def demo_pipes_def fun_eq_iff)

lemma demo_closes:
  "Socket_shutdown pipe_kernel SHUT_WR fd k = Inr (register_write fd, k)"
  "FDWrapper_close pipe_kernel fd k = Inr (fd\<lparr>fd_eof := True, fd_closed := True\<rparr>, k)"
  by (simp_all add: Socket_shutdown_def FDWrapper_close_def pipe_kernel_def SystemCall_def SHUT_WR_def SHUT_RD_def)

lemma demo_drained_end: "ByteStream_end_input (demo_drained d) = demo_drained d"
  by (simp add: demo_drained_def ByteStream_end_input_def)

lemmas demo_simps = demo_drained_end copy_interests demo_streams demo_errors copy_callbacks_in demo_poll demo_copy_def copy_rules_def demo_fill0 copy_callbacks_out demo_drain demo_closes copy_cancel_eqs demo_fill5
  POLLIN_def POLLOUT_def POLLERR_def POLLNVAL_def POLLHUP_def Let_def SystemCall_def signed_take_bit_31 poll_ready_def poll_hup_def
  Rule_service_count_def register_read_def register_write_def demo_filled_def [symmetric]

lemma demo_round1: "EventLoop_wait_next_event (copy_poll pipe_kernel) (- 1) (copy_rules pipe_kernel)
   (demo_copy (0, False) (0, False) (0, 0, False) (ByteStream_new copy_buffer_size) (ByteStream_new copy_buffer_size) False (demo_pipes [7, 8] [9] [] [] [] [])) =
   Inr (Success, copy_rules pipe_kernel, demo_copy (1, False) (0, False) (1, 0, False) (demo_filled [7, 8]) (demo_filled [9]) False (demo_pipes [] [] [7, 8] [9] [] []))"
  by (simp add: EventLoop_wait_next_event_def demo_simps)

lemma demo_round2: "EventLoop_wait_next_event (copy_poll pipe_kernel) (- 1) (copy_rules pipe_kernel)
   (demo_copy (1, False) (0, False) (1, 0, False) (demo_filled [7, 8]) (demo_filled [9]) False (demo_pipes [] [] [7, 8] [9] [] [])) =
   Inr (Success, copy_rules pipe_kernel, demo_copy (2, True) (1, True) (2, 2, True) (demo_drained [7, 8]) (demo_drained [9]) True (demo_pipes [] [] [7, 8] [9] [7, 8] [9]))"
  by (simp add: EventLoop_wait_next_event_def demo_simps)

lemma demo_round3: "EventLoop_wait_next_event (copy_poll pipe_kernel) (- 1) (copy_rules pipe_kernel)
   (demo_copy (2, True) (1, True) (2, 2, True) (demo_drained [7, 8]) (demo_drained [9]) True (demo_pipes [] [] [7, 8] [9] [7, 8] [9])) =
   Inr (Exit, [copy_rule2 pipe_kernel], demo_copy (2, True) (1, True) (2, 2, True) (demo_drained [7, 8])
     (ByteStream_set_error (demo_drained [9])) True (demo_pipes [] [] [7, 8] [9] [7, 8] [9]))"
  by (simp add: EventLoop_wait_next_event_def demo_simps)
text \<open>The run: reading, reading and writing to the end, leaving.\<close>

lemma demo_run:
  obtains s where "copy_setup pipe_kernel (fd_open 5) (demo_pipes [7, 8] [9] [] [] [] []) = Inr s"
    "(copy_step pipe_kernel)\<^sup>*\<^sup>* s (copy_rules pipe_kernel, demo_copy (2, True) (1, True) (2, 2, True) (demo_drained [7, 8])
       (demo_drained [9]) True (demo_pipes [] [] [7, 8] [9] [7, 8] [9]))"
proof -
  have "copy_step pipe_kernel (copy_rules pipe_kernel, demo_copy (0, False) (0, False) (0, 0, False) (ByteStream_new copy_buffer_size)
        (ByteStream_new copy_buffer_size) False (demo_pipes [7, 8] [9] [] [] [] []))
      (copy_rules pipe_kernel, demo_copy (1, False) (0, False) (1, 0, False) (demo_filled [7, 8]) (demo_filled [9]) False
        (demo_pipes [] [] [7, 8] [9] [] []))"
    by (simp add: copy_step_def demo_round1)
  moreover have "copy_step pipe_kernel (copy_rules pipe_kernel, demo_copy (1, False) (0, False) (1, 0, False) (demo_filled [7, 8])
        (demo_filled [9]) False (demo_pipes [] [] [7, 8] [9] [] []))
      (copy_rules pipe_kernel, demo_copy (2, True) (1, True) (2, 2, True) (demo_drained [7, 8]) (demo_drained [9]) True
        (demo_pipes [] [] [7, 8] [9] [7, 8] [9]))"
    by (simp add: copy_step_def demo_round2)
  ultimately show ?thesis
    by (intro that [OF demo_setup]) (rule converse_rtranclp_into_rtranclp, assumption, rule r_into_rtranclp, assumption)
qed

lemma fresh_demo: "fresh_socket (fd_open 5)" "fd_fd (fd_open 5) = 5"
  by (simp_all add: fresh_socket_def fd_open_def)

lemma demo_copy_simps [simp]:
  "cp_kernel (demo_copy i out so ob ib sh k) = k" "cp_outbound (demo_copy i out so ob ib sh k) = ob"
  "cp_inbound (demo_copy i out so ob ib sh k) = ib" "cp_inbound_shutdown (demo_copy i out so ob ib sh k) = sh"
  "pi_given (demo_pipes a b c d e f) 5 = e" "pi_given (demo_pipes a b c d e f) 1 = f"
  "pi_taken (demo_pipes a b c d e f) 0 = c" "pi_taken (demo_pipes a b c d e f) 5 = d"
  by (simp_all add: demo_copy_def demo_pipes_def)

subsection \<open>What is copied\<close>

text \<open>
  C15. Copying loses, repeats and reorders nothing: with any kernel that keeps accounts, after any
  number of rounds of the loop, what has been written to the socket is the beginning of what has
  been read from standard input, and the rest of it, at most a mebibyte, is in the outbound stream;
  likewise from the socket to standard output. The socket is shut down for writing only when
  standard input has ended and everything from it has been written.
\<close>

theorem stream_copy_faithful:
  assumes "kernel_ok sc taken given" and "fresh_socket socket" and "copy_setup sc socket k0 = Inr s"
    and "(copy_step sc)\<^sup>*\<^sup>* s (rules, w)"
  shows "(\<exists>up. given (cp_kernel w) (fd_fd socket) = given k0 (fd_fd socket) @ up \<and>
        taken (cp_kernel w) 0 = taken k0 0 @ up @ bs_contents (cp_outbound w)) \<and>
     (\<exists>down. given (cp_kernel w) 1 = given k0 1 @ down \<and>
        taken (cp_kernel w) (fd_fd socket) = taken k0 (fd_fd socket) @ down @ bs_contents (cp_inbound w)) \<and>
     length (bs_contents (cp_outbound w)) \<le> 1048576 \<and> length (bs_contents (cp_inbound w)) \<le> 1048576 \<and>
     (cp_outbound_shutdown w \<longrightarrow> bs_input_ended (cp_outbound w) \<and> bs_contents (cp_outbound w) = [])"
proof -
  have "copy_started sc taken given socket k0 s" using assms(1-3) by (simp add: copy_started_def)
  from cps.steps_inv [OF assms(4) cps.init_inv [OF this]]
  have "copy_data taken given k0 (fd_fd socket) w" "copy_flags sc (set rules) w" by (simp_all add: copy_inv_def)
  then show ?thesis unfolding copy_data_def copy_flags_def through_def byte_stream_ok_def copy_buffer_size_def
    by (elim conjE) (intro conjI, simp_all)
qed

theorem stream_copy_faithful_witness:
  "\<exists>s (rules :: pipes stream_copy el_rule list) w up. copy_setup pipe_kernel (fd_open 5) (demo_pipes [7, 8] [9] [] [] [] []) = Inr s \<and>
     (copy_step pipe_kernel)\<^sup>*\<^sup>* s (rules, w) \<and> pi_given (cp_kernel w) 5 = up \<and>
     pi_taken (cp_kernel w) 0 = up @ bs_contents (cp_outbound w) \<and> up = [7, 8]"
proof -
  obtain s where s: "copy_setup pipe_kernel (fd_open 5) (demo_pipes [7, 8] [9] [] [] [] []) = Inr s"
    "(copy_step pipe_kernel)\<^sup>*\<^sup>* s (copy_rules pipe_kernel, demo_copy (2, True) (1, True) (2, 2, True) (demo_drained [7, 8])
       (demo_drained [9]) True (demo_pipes [] [] [7, 8] [9] [7, 8] [9]))" by (rule demo_run)
  let ?w = "demo_copy (2, True) (1, True) (2, 2, True) (demo_drained [7, 8]) (demo_drained [9]) True (demo_pipes [] [] [7, 8] [9] [7, 8] [9])"
  from stream_copy_faithful [OF pipe_kernel_ok fresh_demo(1) s] have "bs_contents (cp_outbound ?w) = []" by (auto simp: fresh_demo(2))
  with s show ?thesis by (intro exI [of _ s] exI [of _ "copy_rules pipe_kernel"] exI [of _ ?w] exI [of _ "[7, 8]"]) simp
qed

text \<open>
  C16. When the copying loop returns, and not because of a signal, each direction is finished:
  everything that was read from standard input has been written to the socket unless the socket
  was hung up, which the outbound stream records as an error, and everything that was read from
  the socket has been written to standard output unless the output was hung up.
\<close>

theorem stream_copy_complete:
  assumes "kernel_ok sc taken given" and "fresh_socket socket" and "\<forall>ps k. fst (snd (sc_poll sc ps (- 1) k)) \<noteq> EINTR"
    and "bidirectional_stream_copy fuel sc socket k0 = Inr (rules, w)"
  shows "(bs_error (cp_outbound w) \<or> (\<exists>up. given (cp_kernel w) (fd_fd socket) = given k0 (fd_fd socket) @ up \<and>
        taken (cp_kernel w) 0 = taken k0 0 @ up)) \<and>
     (bs_error (cp_inbound w) \<and> \<not> cp_inbound_shutdown w \<or> (\<exists>down. given (cp_kernel w) 1 = given k0 1 @ down \<and>
        taken (cp_kernel w) (fd_fd socket) = taken k0 (fd_fd socket) @ down))"
proof -
  from assms(4) obtain rs0 w0 where s: "copy_setup sc socket k0 = Inr (rs0, w0)" and l: "copy_loop fuel sc rs0 w0 = Inr (rules, w)"
    by (auto simp: bidirectional_stream_copy_def rbind_eq_Inr)
  from copy_loop_steps [OF l] obtain rs w1 where st: "(copy_step sc)\<^sup>*\<^sup>* (rs0, w0) (rs, w1)"
    and ex: "EventLoop_wait_next_event (copy_poll sc) (- 1) rs w1 = Inr (Exit, rules, w)" .
  have "copy_started sc taken given socket k0 (rs0, w0)" using assms(1,2) s by (simp add: copy_started_def)
  from cps.steps_inv [OF st cps.init_inv [OF this]]
  have i: "distinct rs" "copy_inv sc taken given k0 (fd_fd socket) (set rs) w1" by simp_all
  have "fst (snd (copy_poll sc ps (- 1) v)) \<noteq> EINTR" for ps v
    using assms(3) by (auto simp: copy_poll_def split: prod.splits) (metis fst_conv snd_conv)
  from cp.wait_exit [OF ex i this] have idle: "\<forall>r \<in> set rules. copy_idle sc r w" .
  from cp.wait_inv [OF ex i] have d: "copy_data taken given k0 (fd_fd socket) w" "copy_flags sc (set rules) w"
    by (simp_all add: copy_inv_def)
  from idle have "copy_rule2 sc \<in> set rules \<Longrightarrow> bs_contents (cp_outbound w) = []"
    "copy_rule4 sc \<in> set rules \<Longrightarrow> bs_contents (cp_inbound w) = []" by (auto simp: copy_idle_def)
  with d(2) have "bs_error (cp_outbound w) \<or> bs_contents (cp_outbound w) = []"
    "bs_error (cp_inbound w) \<and> \<not> cp_inbound_shutdown w \<or> bs_contents (cp_inbound w) = []"
    unfolding copy_flags_def by blast+
  with d(1) show ?thesis unfolding copy_data_def through_def by force
qed

theorem stream_copy_complete_witness:
  "\<exists>(rules :: pipes stream_copy el_rule list) w. bidirectional_stream_copy 3 pipe_kernel (fd_open 5) (demo_pipes [7, 8] [9] [] [] [] []) = Inr (rules, w) \<and>
     pi_given (cp_kernel w) 5 = [7, 8] \<and> pi_taken (cp_kernel w) 0 = [7, 8] \<and> pi_given (cp_kernel w) 1 = [9]"
proof -
  let ?w = "demo_copy (2, True) (1, True) (2, 2, True) (demo_drained [7, 8]) (ByteStream_set_error (demo_drained [9])) True
     (demo_pipes [] [] [7, 8] [9] [7, 8] [9])"
  have r: "bidirectional_stream_copy 3 pipe_kernel (fd_open 5) (demo_pipes [7, 8] [9] [] [] [] []) = Inr ([copy_rule2 pipe_kernel], ?w)"
    by (simp add: bidirectional_stream_copy_def demo_setup numeral_3_eq_3 demo_round1 demo_round2 demo_round3)
  have "\<forall>ps k. fst (snd (sc_poll pipe_kernel ps (- 1) k)) \<noteq> EINTR" by (simp add: pipe_kernel_def EINTR_def)
  from stream_copy_complete [OF pipe_kernel_ok fresh_demo(1) this r] r show ?thesis
    by (simp add: demo_errors fresh_demo(2))
qed

text \<open>
  A finding: the end of the socket's stream also ends the copying of standard input. When
  everything from the socket has been written, rule 4 closes standard output; in the next round
  the closed descriptor cancels the rule, whose cancellation sets an error on the inbound stream,
  and with that error rule 1 never again has an interest. What the user types after the peer has
  closed its side is not read, although the connection could still carry it; the header
  says that it copies until finished.
\<close>

theorem inbound_end_stops_outbound:
  assumes "kernel_ok sc taken given" and "fresh_socket socket" and "copy_setup sc socket k0 = Inr s"
    and "(copy_step sc)\<^sup>*\<^sup>* s (rules, w)" and "cp_inbound_shutdown w"
    and "copy_step sc (rules, w) t" and "(copy_step sc)\<^sup>*\<^sup>* t (rules', w')"
  shows "\<not> ru_interest (copy_rule1 sc) w'"
proof -
  have "copy_started sc taken given socket k0 s" using assms(1-3) by (simp add: copy_started_def)
  from cps.steps_inv [OF assms(4) cps.init_inv [OF this]]
  have i: "distinct rules" "copy_inv sc taken given k0 (fd_fd socket) (set rules) w" by simp_all
  have "fd_closed (cp_output w)" "set rules \<subseteq> set (copy_rules sc)"
    using i(2) assms(5) by (simp_all add: copy_inv_def copy_flags_def)
  from assms(6) obtain res where ev: "EventLoop_wait_next_event (copy_poll sc) (- 1) rules w = Inr (res, fst t, snd t)"
    by (auto simp: copy_step_def)
  then obtain polls w1 where p: "setup_polls rules w = Inr (polls, w1)" by (auto simp: EventLoop_wait_next_event_def rbind_eq_Inr)
  have "set (fst t) \<subseteq> set (map fst polls)"
    using ev by (auto simp: EventLoop_wait_next_event_def p Let_def rbind_eq_Inr dest!: service_rules in_set_zipE
        split: if_splits sum.splits cpp_error.splits prod.splits)
  with copy_setup_closed [OF p] \<open>fd_closed _\<close> \<open>set rules \<subseteq> _\<close> have r4: "copy_rule4 sc \<notin> set (fst t)" by blast
  have j: "distinct (fst t) \<and> copy_inv sc taken given k0 (fd_fd socket) (set (fst t)) (snd t)"
    using cps.step_inv [OF _ assms(6)] i by simp
  have "copy_rule4 sc \<notin> set rules' \<and> copy_flags sc (set rules') w'"
    using copy_steps_rules [OF assms(7) j] r4 by (auto simp: copy_inv_def)
  then have "bs_error (cp_inbound w')" by (simp add: copy_flags_def)
  then show ?thesis by (simp add: copy_rule1_def)
qed

theorem inbound_end_stops_outbound_witness:
  "\<exists>s (rules :: pipes stream_copy el_rule list) w. copy_setup pipe_kernel (fd_open 5) (demo_pipes [7, 8] [9] [] [] [] []) = Inr s \<and>
     (copy_step pipe_kernel)\<^sup>*\<^sup>* s (rules, w) \<and> cp_inbound_shutdown w \<and> \<not> ru_interest (copy_rule1 pipe_kernel) w"
proof -
  obtain s where s: "copy_setup pipe_kernel (fd_open 5) (demo_pipes [7, 8] [9] [] [] [] []) = Inr s"
    "(copy_step pipe_kernel)\<^sup>*\<^sup>* s (copy_rules pipe_kernel, demo_copy (2, True) (1, True) (2, 2, True) (demo_drained [7, 8])
       (demo_drained [9]) True (demo_pipes [] [] [7, 8] [9] [7, 8] [9]))" by (rule demo_run)
  let ?w = "demo_copy (2, True) (1, True) (2, 2, True) (demo_drained [7, 8]) (ByteStream_set_error (demo_drained [9])) True
     (demo_pipes [] [] [7, 8] [9] [7, 8] [9])"
  have st: "copy_step pipe_kernel (copy_rules pipe_kernel, demo_copy (2, True) (1, True) (2, 2, True) (demo_drained [7, 8])
       (demo_drained [9]) True (demo_pipes [] [] [7, 8] [9] [7, 8] [9])) ([copy_rule2 pipe_kernel], ?w)"
    by (simp add: copy_step_def demo_round3)
  from inbound_end_stops_outbound [OF pipe_kernel_ok fresh_demo(1) s _ st rtranclp.rtrancl_refl]
  have "\<not> ru_interest (copy_rule1 pipe_kernel) ?w" by simp
  moreover have "(copy_step pipe_kernel)\<^sup>*\<^sup>* s ([copy_rule2 pipe_kernel], ?w)" using s(2) st by (rule rtranclp.rtrancl_into_rtrancl)
  ultimately show ?thesis using s(1) by (intro exI [of _ s] exI [of _ "[copy_rule2 pipe_kernel]"] exI [of _ ?w]) simp
qed

end
