(* ===== verification/Sponge_Socket.thy ===== *)
theory Sponge_Socket
  imports Event_Loop Sockets TCP_Connection
begin

text \<open>
  \<^verbatim>\<open>libsponge/tcp_helpers/tcp_sponge_socket.hh\<close> and \<^verbatim>\<open>tcp_sponge_socket.cc\<close>: the thread that runs a
  \<^verbatim>\<open>TCPConnection\<close> between the owner's end of a socket pair and a datagram adapter. The template
  parameter \<^verbatim>\<open>AdaptT\<close> is a record of the adapter's operations, and the adapters of the repository are
  such records. The owner's thread and the clock belong to the environment; what the thread
  prints is left out.
\<close>

subsection \<open>Adapters with their devices\<close>

record ('a, 'k) datagram_adapter =
  da_fd :: "'a \<Rightarrow> fd_wrapper"
  da_read :: "'a \<Rightarrow> 'k \<Rightarrow> (tcp_segment option \<times> 'a \<times> 'k) res"
  da_write :: "tcp_segment \<Rightarrow> 'a \<Rightarrow> 'k \<Rightarrow> ('a \<times> 'k) res"
  da_tick :: "u64 \<Rightarrow> 'a \<Rightarrow> 'k \<Rightarrow> ('a \<times> 'k) res"
  da_config_mut :: "fd_adapter_config \<Rightarrow> 'a \<Rightarrow> 'a"
  da_set_listening :: "bool \<Rightarrow> 'a \<Rightarrow> 'a"

definition udp_device :: "resolver \<Rightarrow> 'k socket_calls \<Rightarrow> (fd_adapter_base \<times> fd_wrapper, 'k) datagram_adapter" where
  "udp_device rs so = \<lparr>
     da_fd = snd,
     da_read = (\<lambda>(fa, sock) k.
       rbind (UDPSocket_recv so 65536 sock k) (\<lambda>(datagram, sock, k).
       rbind (UDPAdapter_read datagram fa) (\<lambda>(seg, fa). Inr (seg, (fa, sock), k)))),
     da_write = (\<lambda>seg (fa, sock) k.
       rbind (UDPAdapter_write rs seg fa) (\<lambda>((destination, payload), seg).
       rbind (UDPSocket_sendto so destination (BufferViewList_of payload) sock k) (\<lambda>(sock, k). Inr ((fa, sock), k)))),
     da_tick = (\<lambda>ms (fa, sock) k. Inr ((FdAdapterBase_tick ms fa, sock), k)),
     da_config_mut = (\<lambda>cfg (fa, sock). (fa\<lparr>fa_cfg := cfg\<rparr>, sock)),
     da_set_listening = (\<lambda>l (fa, sock). (FdAdapterBase_set_listening l fa, sock))\<rparr>"

text \<open>The largest \<^verbatim>\<open>size_t\<close> is the default limit of a read.\<close>

definition SIZE_T_MAX :: u64 where
  "SIZE_T_MAX = 0xffffffffffffffff"

definition tun_device :: "resolver \<Rightarrow> 'k syscalls \<Rightarrow> (fd_adapter_base \<times> fd_wrapper, 'k) datagram_adapter" where
  "tun_device rs sc = \<lparr>
     da_fd = snd,
     da_read = (\<lambda>(fa, tun) k.
       rbind (FileDescriptor_read sc SIZE_T_MAX tun k) (\<lambda>(s, tun, k).
       rbind (TunAdapter_read rs s fa) (\<lambda>(seg, fa). Inr (seg, (fa, tun), k)))),
     da_write = (\<lambda>seg (fa, tun) k.
       rbind (TunAdapter_write rs seg fa) (\<lambda>(payload, seg).
       rbind (FileDescriptor_write sc (BufferViewList_of payload) True tun k) (\<lambda>(n, tun, k). Inr ((fa, tun), k)))),
     da_tick = (\<lambda>ms (fa, tun) k. Inr ((FdAdapterBase_tick ms fa, tun), k)),
     da_config_mut = (\<lambda>cfg (fa, tun). (fa\<lparr>fa_cfg := cfg\<rparr>, tun)),
     da_set_listening = (\<lambda>l (fa, tun). (FdAdapterBase_set_listening l fa, tun))\<rparr>"

text \<open>The frames that the interface has queued, one write each.\<close>

primrec write_frames :: "'k syscalls \<Rightarrow> buffer_list list \<Rightarrow> fd_wrapper \<Rightarrow> 'k \<Rightarrow> (fd_wrapper \<times> 'k) res" where
  "write_frames sc [] tap k = Inr (tap, k)"
| "write_frames sc (frame # frames) tap k =
     rbind (FileDescriptor_write sc (BufferViewList_of frame) True tap k) (\<lambda>(n, tap, k). write_frames sc frames tap k)"

definition tap_device :: "resolver \<Rightarrow> 'k syscalls \<Rightarrow> (eth_adapter \<times> fd_wrapper, 'k) datagram_adapter" where
  "tap_device rs sc = \<lparr>
     da_fd = snd,
     da_read = (\<lambda>(ea, tap) k.
       rbind (FileDescriptor_read sc SIZE_T_MAX tap k) (\<lambda>(s, tap, k).
       rbind (EthernetAdapter_read rs s ea) (\<lambda>(seg, out, ea).
       rbind (write_frames sc out tap k) (\<lambda>(tap, k). Inr (seg, (ea, tap), k))))),
     da_write = (\<lambda>seg (ea, tap) k.
       rbind (EthernetAdapter_write rs seg ea) (\<lambda>(out, seg, ea).
       rbind (write_frames sc out tap k) (\<lambda>(tap, k). Inr ((ea, tap), k)))),
     da_tick = (\<lambda>ms (ea, tap) k.
       let (out, ea) = EthernetAdapter_tick ms ea in
       rbind (write_frames sc out tap k) (\<lambda>(tap, k). Inr ((ea, tap), k))),
     da_config_mut = (\<lambda>cfg (ea, tap). (ea\<lparr>ea_base := (ea_base ea)\<lparr>fa_cfg := cfg\<rparr>\<rparr>, tap)),
     da_set_listening = (\<lambda>l (ea, tap). (ea\<lparr>ea_base := FdAdapterBase_set_listening l (ea_base ea)\<rparr>, tap))\<rparr>"

subsection \<open>State\<close>

record ('a, 'k) sponge_socket =
  sp_socket :: fd_wrapper
  sp_thread_data :: fd_wrapper
  sp_adapter :: 'a
  sp_tcp :: "tcp_connection option"
  sp_inbound_shutdown :: bool
  sp_outbound_shutdown :: bool
  sp_fully_acked :: bool
  sp_kernel :: 'k

text \<open>The environment: the clock of \<^verbatim>\<open>timestamp_ms\<close>, and \<^verbatim>\<open>_abort\<close>, which the owner's thread may have set.\<close>

record 'k environment =
  en_timestamp_ms :: "'k \<Rightarrow> u64 \<times> 'k"
  en_abort :: "'k \<Rightarrow> bool"

type_synonym ('a, 'k) sponge_rule = "('a, 'k) sponge_socket el_rule"

definition with_tcp :: "('a, 'k) sponge_socket \<Rightarrow> (tcp_connection \<Rightarrow> 'b res) \<Rightarrow> 'b res" where
  "with_tcp w f = (case sp_tcp w of None \<Rightarrow> Inl (Undefined_behaviour ''std::optional'') | Some tcp \<Rightarrow> f tcp)"

text \<open>Both ends of the pair are made local stream sockets, which checks their kind.\<close>

definition TCPSpongeSocket_of_pair ::
  "'k syscalls \<Rightarrow> 'k socket_calls \<Rightarrow> fd_wrapper \<times> fd_wrapper \<Rightarrow> 'a \<Rightarrow> 'k \<Rightarrow> ('a, 'k) sponge_socket res" where
  "TCPSpongeSocket_of_pair sc so data_socket_pair datagram_interface k =
     rbind (Socket_of_fd so (fst data_socket_pair) AF_UNIX SOCK_STREAM k) (\<lambda>(socket, k).
     rbind (Socket_of_fd so (snd data_socket_pair) AF_UNIX SOCK_STREAM k) (\<lambda>(thread_data, k).
     rbind (FileDescriptor_set_blocking sc False thread_data k) (\<lambda>k.
     Inr \<lparr>sp_socket = socket, sp_thread_data = thread_data, sp_adapter = datagram_interface,
          sp_tcp = None, sp_inbound_shutdown = False, sp_outbound_shutdown = False, sp_fully_acked = False, sp_kernel = k\<rparr>)))"

definition socket_pair_helper :: "'k socket_calls \<Rightarrow> int \<Rightarrow> 'k \<Rightarrow> ((fd_wrapper \<times> fd_wrapper) \<times> 'k) res" where
  "socket_pair_helper so type k =
     (let (ret, err, fd0, fd1, k) = so_socketpair so AF_UNIX type k in
      rbind (SystemCall ''socketpair'' ret err 0) (\<lambda>_.
      rbind (FDWrapper_new fd0) (\<lambda>fd0. rbind (FDWrapper_new fd1) (\<lambda>fd1. Inr ((fd0, fd1), k)))))"

definition TCPSpongeSocket_new :: "'k syscalls \<Rightarrow> 'k socket_calls \<Rightarrow> 'a \<Rightarrow> 'k \<Rightarrow> ('a, 'k) sponge_socket res" where
  "TCPSpongeSocket_new sc so datagram_interface k =
     rbind (socket_pair_helper so SOCK_STREAM k) (\<lambda>(pair, k). TCPSpongeSocket_of_pair sc so pair datagram_interface k)"

subsection \<open>Rules\<close>

definition sponge_rule1 :: "('a, 'k) datagram_adapter \<Rightarrow> ('a, 'k) sponge_rule" where
  "sponge_rule1 ad = \<lparr>ru_fd = (\<lambda>w. da_fd ad (sp_adapter w)), ru_direction = In,
     ru_callback = (\<lambda>w.
       rbind (da_read ad (sp_adapter w) (sp_kernel w)) (\<lambda>(seg, a, k).
       let w = w\<lparr>sp_adapter := a, sp_kernel := k\<rparr> in
       with_tcp w (\<lambda>tcp.
       rbind (case seg of None \<Rightarrow> Inr tcp | Some seg \<Rightarrow> TCPConnection_segment_received seg tcp) (\<lambda>tcp.
       let w = w\<lparr>sp_tcp := Some tcp\<rparr> in
       Inr (if fd_eof (sp_thread_data w) \<and> TCPConnection_bytes_in_flight tcp = 0 \<and> \<not> sp_fully_acked w
            then w\<lparr>sp_fully_acked := True\<rparr> else w))))),
     ru_interest = (\<lambda>w. case sp_tcp w of None \<Rightarrow> False | Some tcp \<Rightarrow> TCPConnection_active tcp),
     ru_cancel = (\<lambda>w. Inr w)\<rparr>"

definition sponge_rule2 :: "'k syscalls \<Rightarrow> ('a, 'k) sponge_rule" where
  "sponge_rule2 sc = \<lparr>ru_fd = sp_thread_data, ru_direction = In,
     ru_callback = (\<lambda>w.
       with_tcp w (\<lambda>tcp.
       rbind (FileDescriptor_read sc (TCPConnection_remaining_outbound_capacity tcp) (sp_thread_data w) (sp_kernel w)) (\<lambda>(data, fd, k).
       let w = w\<lparr>sp_thread_data := fd, sp_kernel := k\<rparr>; len = size64 data in
       rbind (TCPConnection_write data tcp) (\<lambda>(amount_written, tcp).
       if amount_written \<noteq> len
       then Inl (Runtime_error ''TCPConnection::write() accepted less than advertised length'')
       else if fd_eof fd
       then rbind (TCPConnection_end_input_stream tcp) (\<lambda>tcp. Inr (w\<lparr>sp_tcp := Some tcp, sp_outbound_shutdown := True\<rparr>))
       else Inr (w\<lparr>sp_tcp := Some tcp\<rparr>))))),
     ru_interest = (\<lambda>w. case sp_tcp w of None \<Rightarrow> False
       | Some tcp \<Rightarrow> TCPConnection_active tcp \<and> \<not> sp_outbound_shutdown w \<and> 0 < TCPConnection_remaining_outbound_capacity tcp),
     ru_cancel = (\<lambda>w.
       with_tcp w (\<lambda>tcp.
       rbind (TCPConnection_end_input_stream tcp) (\<lambda>tcp. Inr (w\<lparr>sp_tcp := Some tcp, sp_outbound_shutdown := True\<rparr>))))\<rparr>"

definition sponge_rule3 :: "'k syscalls \<Rightarrow> ('a, 'k) sponge_rule" where
  "sponge_rule3 sc = \<lparr>ru_fd = sp_thread_data, ru_direction = Out,
     ru_callback = (\<lambda>w.
       with_tcp w (\<lambda>tcp.
       let inbound = inbound_stream tcp;
           amount_to_write = min 65536 (ByteStream_buffer_size inbound);
           buffer = ByteStream_peek_output inbound amount_to_write
       in
       rbind (FileDescriptor_write sc [buffer] False (sp_thread_data w) (sp_kernel w)) (\<lambda>(bytes_written, fd, k).
       rbind (ByteStream_pop_output inbound bytes_written) (\<lambda>inbound.
       let w = w\<lparr>sp_thread_data := fd, sp_kernel := k, sp_tcp := Some (set_inbound_stream inbound tcp)\<rparr> in
       if ByteStream_eof inbound \<or> bs_error inbound
       then rbind (Socket_shutdown sc SHUT_WR (sp_thread_data w) (sp_kernel w)) (\<lambda>(fd, k).
            Inr (w\<lparr>sp_thread_data := fd, sp_kernel := k, sp_inbound_shutdown := True\<rparr>))
       else Inr w)))),
     ru_interest = (\<lambda>w. case sp_tcp w of None \<Rightarrow> False
       | Some tcp \<Rightarrow> \<not> ByteStream_buffer_empty (inbound_stream tcp) \<or>
           (ByteStream_eof (inbound_stream tcp) \<or> bs_error (inbound_stream tcp)) \<and> \<not> sp_inbound_shutdown w),
     ru_cancel = (\<lambda>w. Inr w)\<rparr>"

text \<open>Rule 4 hands every queued segment to the adapter.\<close>

primrec send_segments ::
  "('a, 'k) datagram_adapter \<Rightarrow> tcp_segment list \<Rightarrow> tcp_connection \<Rightarrow> 'a \<Rightarrow> 'k \<Rightarrow> (tcp_connection \<times> 'a \<times> 'k) res" where
  "send_segments ad [] tcp a k = Inr (tcp, a, k)"
| "send_segments ad (seg # segs) tcp a k =
     rbind (da_write ad seg a k) (\<lambda>(a, k). send_segments ad segs (tcp\<lparr>tc_segments_out := segs\<rparr>) a k)"

definition sponge_rule4 :: "('a, 'k) datagram_adapter \<Rightarrow> ('a, 'k) sponge_rule" where
  "sponge_rule4 ad = \<lparr>ru_fd = (\<lambda>w. da_fd ad (sp_adapter w)), ru_direction = Out,
     ru_callback = (\<lambda>w.
       with_tcp w (\<lambda>tcp.
       rbind (send_segments ad (tc_segments_out tcp) tcp (sp_adapter w) (sp_kernel w)) (\<lambda>(tcp, a, k).
       Inr (w\<lparr>sp_tcp := Some tcp, sp_adapter := a, sp_kernel := k\<rparr>)))),
     ru_interest = (\<lambda>w. case sp_tcp w of None \<Rightarrow> False | Some tcp \<Rightarrow> tc_segments_out tcp \<noteq> []),
     ru_cancel = (\<lambda>w. Inr w)\<rparr>"

definition initialize_TCP ::
  "('a, 'k) datagram_adapter \<Rightarrow> 'k syscalls \<Rightarrow> tcp_config \<Rightarrow> u32 \<Rightarrow>
   ('a, 'k) sponge_rule list \<times> ('a, 'k) sponge_socket \<Rightarrow> ('a, 'k) sponge_rule list \<times> ('a, 'k) sponge_socket" where
  "initialize_TCP ad sc config random s =
     (fst s @ [sponge_rule1 ad, sponge_rule2 sc, sponge_rule3 sc, sponge_rule4 ad],
      (snd s)\<lparr>sp_tcp := Some (TCPConnection_new config random)\<rparr>)"

subsection \<open>The loop\<close>

definition TCP_TICK_MS :: int where
  "TCP_TICK_MS = 10"

definition sponge_poll :: "'k syscalls \<Rightarrow> ('a, 'k) sponge_socket poll_call" where
  "sponge_poll sc ps timeout_ms w =
     (let (ret, err, revents, k) = sc_poll sc ps timeout_ms (sp_kernel w) in (ret, err, revents, w\<lparr>sp_kernel := k\<rparr>))"

text \<open>One turn of the loop; the result says whether the loop goes on.\<close>

definition tcp_turn ::
  "('a, 'k) datagram_adapter \<Rightarrow> 'k syscalls \<Rightarrow> 'k environment \<Rightarrow> u64 \<times> ('a, 'k) sponge_rule list \<times> ('a, 'k) sponge_socket \<Rightarrow>
   (bool \<times> u64 \<times> ('a, 'k) sponge_rule list \<times> ('a, 'k) sponge_socket) res" where
  "tcp_turn ad sc en = (\<lambda>(base_time, rules, w).
     rbind (EventLoop_wait_next_event (sponge_poll sc) TCP_TICK_MS rules w) (\<lambda>(ret, rules, w).
     if ret = Exit \<or> en_abort en (sp_kernel w) then Inr (False, base_time, rules, w)
     else case sp_tcp w of
       None \<Rightarrow> Inl (Runtime_error ''bad optional access'')
     | Some tcp \<Rightarrow>
         if TCPConnection_active tcp then
           let (next_time, k) = en_timestamp_ms en (sp_kernel w);
               w = w\<lparr>sp_kernel := k, sp_tcp := Some (TCPConnection_tick (next_time - base_time) tcp)\<rparr>
           in rbind (da_tick ad (next_time - base_time) (sp_adapter w) (sp_kernel w)) (\<lambda>(a, k).
              Inr (True, next_time, rules, w\<lparr>sp_adapter := a, sp_kernel := k\<rparr>))
         else Inr (True, base_time, rules, w)))"

primrec tcp_loop_from ::
  "nat \<Rightarrow> ('a, 'k) datagram_adapter \<Rightarrow> 'k syscalls \<Rightarrow> 'k environment \<Rightarrow> (('a, 'k) sponge_socket \<Rightarrow> bool res) \<Rightarrow>
   u64 \<times> ('a, 'k) sponge_rule list \<times> ('a, 'k) sponge_socket \<Rightarrow> (('a, 'k) sponge_rule list \<times> ('a, 'k) sponge_socket) res" where
  "tcp_loop_from 0 ad sc en condition s = Inl (No_return ''TCPSpongeSocket::_tcp_loop'')"
| "tcp_loop_from (Suc fuel) ad sc en condition s =
     rbind (condition (snd (snd s))) (\<lambda>b.
     if \<not> b then Inr (snd s)
     else rbind (tcp_turn ad sc en s) (\<lambda>(more, s).
          if more then tcp_loop_from fuel ad sc en condition s else Inr (snd s)))"

definition tcp_loop ::
  "nat \<Rightarrow> ('a, 'k) datagram_adapter \<Rightarrow> 'k syscalls \<Rightarrow> 'k environment \<Rightarrow> (('a, 'k) sponge_socket \<Rightarrow> bool res) \<Rightarrow>
   ('a, 'k) sponge_rule list \<times> ('a, 'k) sponge_socket \<Rightarrow> (('a, 'k) sponge_rule list \<times> ('a, 'k) sponge_socket) res" where
  "tcp_loop fuel ad sc en condition = (\<lambda>(rules, w).
     let (base_time, k) = en_timestamp_ms en (sp_kernel w)
     in tcp_loop_from fuel ad sc en condition (base_time, rules, w\<lparr>sp_kernel := k\<rparr>))"

subsection \<open>Connecting, listening and the thread\<close>

definition in_state :: "('a, 'k) sponge_socket \<Rightarrow> tcp_state_name \<Rightarrow> bool res" where
  "in_state w st = with_tcp w (\<lambda>tcp. Inr (TCPState_eq (TCPConnection_state tcp) (TCPState_of_name st)))"

definition TCPSpongeSocket_connect ::
  "nat \<Rightarrow> ('a, 'k) datagram_adapter \<Rightarrow> 'k syscalls \<Rightarrow> 'k environment \<Rightarrow> tcp_config \<Rightarrow> u32 \<Rightarrow> fd_adapter_config \<Rightarrow>
   ('a, 'k) sponge_rule list \<times> ('a, 'k) sponge_socket \<Rightarrow> (('a, 'k) sponge_rule list \<times> ('a, 'k) sponge_socket) res" where
  "TCPSpongeSocket_connect fuel ad sc en c_tcp random c_ad s =
     (if sp_tcp (snd s) \<noteq> None then Inl (Runtime_error ''connect() with TCPConnection already initialized'')
      else
        let (rules, w) = initialize_TCP ad sc c_tcp random s;
            w = w\<lparr>sp_adapter := da_config_mut ad c_ad (sp_adapter w)\<rparr>
        in
        with_tcp w (\<lambda>tcp.
        rbind (TCPConnection_connect tcp) (\<lambda>tcp.
        let w = w\<lparr>sp_tcp := Some tcp\<rparr>; expected_state = TCPState_of_name SYN_SENT in
        if TCPState_neq (TCPConnection_state tcp) expected_state
        then Inl (Runtime_error (''After TCPConnection::connect(), state was '' @ TCPState_name (TCPConnection_state tcp) @
               '' but expected '' @ TCPState_name expected_state))
        else tcp_loop fuel ad sc en (\<lambda>w. in_state w SYN_SENT) (rules, w))))"

definition TCPSpongeSocket_listen_and_accept ::
  "nat \<Rightarrow> ('a, 'k) datagram_adapter \<Rightarrow> 'k syscalls \<Rightarrow> 'k environment \<Rightarrow> tcp_config \<Rightarrow> u32 \<Rightarrow> fd_adapter_config \<Rightarrow>
   ('a, 'k) sponge_rule list \<times> ('a, 'k) sponge_socket \<Rightarrow> (('a, 'k) sponge_rule list \<times> ('a, 'k) sponge_socket) res" where
  "TCPSpongeSocket_listen_and_accept fuel ad sc en c_tcp random c_ad s =
     (if sp_tcp (snd s) \<noteq> None then Inl (Runtime_error ''listen_and_accept() with TCPConnection already initialized'')
      else
        let (rules, w) = initialize_TCP ad sc c_tcp random s;
            w = w\<lparr>sp_adapter := da_set_listening ad True (da_config_mut ad c_ad (sp_adapter w))\<rparr>
        in tcp_loop fuel ad sc en (\<lambda>w.
           rbind (in_state w LISTEN) (\<lambda>listen. rbind (in_state w SYN_RCVD) (\<lambda>syn_rcvd. rbind (in_state w SYN_SENT) (\<lambda>syn_sent.
           Inr (listen \<or> syn_rcvd \<or> syn_sent))))) (rules, w))"

text \<open>The connection is destroyed at the end; the result is the socket without it, and what the destructor left behind.\<close>

definition tcp_main ::
  "nat \<Rightarrow> ('a, 'k) datagram_adapter \<Rightarrow> 'k syscalls \<Rightarrow> 'k environment \<Rightarrow>
   ('a, 'k) sponge_rule list \<times> ('a, 'k) sponge_socket \<Rightarrow>
   (tcp_connection \<times> ('a, 'k) sponge_rule list \<times> ('a, 'k) sponge_socket) res" where
  "tcp_main fuel ad sc en s =
     (if sp_tcp (snd s) = None then Inl (Runtime_error ''no TCP'')
      else
        rbind (tcp_loop fuel ad sc en (\<lambda>w. Inr True) s) (\<lambda>(rules, w).
        rbind (Socket_shutdown sc SHUT_RDWR (sp_socket w) (sp_kernel w)) (\<lambda>(fd, k).
        let w = w\<lparr>sp_socket := fd, sp_kernel := k\<rparr> in
        with_tcp w (\<lambda>tcp. Inr (TCPConnection_destroy tcp, rules, w\<lparr>sp_tcp := None\<rparr>)))))"

text \<open>The owner's side of a clean shutdown; it then waits for the thread.\<close>

definition TCPSpongeSocket_wait_until_closed :: "'k syscalls \<Rightarrow> ('a, 'k) sponge_socket \<Rightarrow> ('a, 'k) sponge_socket res" where
  "TCPSpongeSocket_wait_until_closed sc w =
     rbind (Socket_shutdown sc SHUT_RDWR (sp_socket w) (sp_kernel w)) (\<lambda>(fd, k). Inr (w\<lparr>sp_socket := fd, sp_kernel := k\<rparr>))"

subsection \<open>Ready-made sockets\<close>

text \<open>What the random device returns is an argument: for the port, and for the bytes of the address.\<close>

definition helper_connect ::
  "string \<Rightarrow> nat \<Rightarrow> resolver \<Rightarrow> ('a, 'k) datagram_adapter \<Rightarrow> 'k syscalls \<Rightarrow> 'k environment \<Rightarrow> u32 \<Rightarrow> u32 \<Rightarrow> address \<Rightarrow>
   ('a, 'k) sponge_rule list \<times> ('a, 'k) sponge_socket \<Rightarrow> (('a, 'k) sponge_rule list \<times> ('a, 'k) sponge_socket) res" where
  "helper_connect source_ip fuel rs ad sc en random random_port address s =
     (let tcp_config = TCPConfig_new\<lparr>cf_rt_timeout := 100\<rparr> in
      rbind (FdAdapterConfig_new rs) (\<lambda>multiplexer_config.
      rbind (Address_of_host rs source_ip (dec_string (unat (ucast random_port :: u16)))) (\<lambda>source.
      TCPSpongeSocket_connect fuel ad sc en tcp_config random
        (multiplexer_config\<lparr>fc_source := source, fc_destination := address\<rparr>) s)))"

definition CS144TCPSocket_connect ::
  "nat \<Rightarrow> resolver \<Rightarrow> 'k syscalls \<Rightarrow> 'k environment \<Rightarrow> u32 \<Rightarrow> u32 \<Rightarrow> address \<Rightarrow>
   (fd_adapter_base \<times> fd_wrapper, 'k) sponge_rule list \<times> (fd_adapter_base \<times> fd_wrapper, 'k) sponge_socket \<Rightarrow>
   ((fd_adapter_base \<times> fd_wrapper, 'k) sponge_rule list \<times> (fd_adapter_base \<times> fd_wrapper, 'k) sponge_socket) res" where
  "CS144TCPSocket_connect fuel rs sc en random random_port address s =
     helper_connect ''169.254.144.9'' fuel rs (tun_device rs sc) sc en random random_port address s"

definition LOCAL_TAP_IP_ADDRESS :: string where
  "LOCAL_TAP_IP_ADDRESS = ''169.254.10.9''"

definition FullStackSocket_connect ::
  "nat \<Rightarrow> resolver \<Rightarrow> 'k syscalls \<Rightarrow> 'k environment \<Rightarrow> u32 \<Rightarrow> u32 \<Rightarrow> address \<Rightarrow>
   (eth_adapter \<times> fd_wrapper, 'k) sponge_rule list \<times> (eth_adapter \<times> fd_wrapper, 'k) sponge_socket \<Rightarrow>
   ((eth_adapter \<times> fd_wrapper, 'k) sponge_rule list \<times> (eth_adapter \<times> fd_wrapper, 'k) sponge_socket) res" where
  "FullStackSocket_connect fuel rs sc en random random_port address s =
     helper_connect LOCAL_TAP_IP_ADDRESS fuel rs (tap_device rs sc) sc en random random_port address s"

definition random_private_ethernet_address :: "(nat \<Rightarrow> u32) \<Rightarrow> ethernet_address" where
  "random_private_ethernet_address random =
     (let addr = map (\<lambda>n. ucast (random n)) [0..<6];
          addr = addr[0 := addr ! 0 OR 0x02]
      in addr[0 := addr ! 0 AND 0xfe])"

text \<open>Such an address is locally administered and not a multicast address.\<close>

lemma random_private_bits:
  "length (random_private_ethernet_address random) = 6"
  "bit (random_private_ethernet_address random ! 0) 1" "\<not> bit (random_private_ethernet_address random ! 0) 0"
  by (simp_all add: random_private_ethernet_address_def Let_def bit_simps)

end
