(* ===== verification/Socket_Runs.thy ===== *)
theory Socket_Runs
  imports Sponge_Socket Delivery
begin

text \<open>
  The thread of a \<^verbatim>\<open>TCPSpongeSocket\<close> refines an endpoint of \<open>Delivery\<close>: every turn of its loop is a
  sequence of the endpoint's steps, with what it has read from the owner's pipe as the bytes
  written to the connection and what it has written to the pipe as the bytes read from it. The
  delivery theorem of connections thus holds of the pipes.
\<close>

subsection \<open>The end of the outbound stream\<close>

definition out_ended :: "tcp_connection \<Rightarrow> bool" where
  "out_ended c \<longleftrightarrow> bs_input_ended (sn_stream (tc_sender c))"

lemma ByteStream_pop_ended: "ByteStream_pop_output s n = Inr s' \<Longrightarrow> bs_input_ended s' = bs_input_ended s"
  by (auto simp: ByteStream_pop_output_def Let_def rbind_eq_Inr)

lemma send_segment_stream [simp]: "sn_stream (TCPSender_send_segment seg s) = sn_stream s"
  by (simp add: TCPSender_send_segment_def Let_def)

lemma fill_body_ended:
  assumes "fill_body seg s = Inr (seg', s')"
  shows "bs_input_ended (sn_stream s') = bs_input_ended (sn_stream s)"
proof -
  from assms obtain n str st where r: "ByteStream_read (sn_stream s) n = Inr (str, st)" and s': "sn_stream s' = st"
    unfolding fill_body_def by (auto simp: Let_def rbind_eq_Inr case_prod_beta)
  from r have "ByteStream_pop_output (sn_stream s) n = Inr st" by (auto simp: ByteStream_read_def Let_def rbind_eq_Inr)
  with s' show ?thesis by (simp add: ByteStream_pop_ended)
qed

lemma fill_loop_ended:
  "fill_loop fuel seg s = Inr (seg', s') \<Longrightarrow> bs_input_ended (sn_stream s') = bs_input_ended (sn_stream s)"
proof (induction fuel arbitrary: seg s)
  case (Suc fuel)
  show ?case
  proof (cases "0 < ByteStream_buffer_size (sn_stream s) \<and> 0 < sn_recv_wdn_sz s")
    case True
    with Suc.prems obtain seg1 s1 where "fill_body seg s = Inr (seg1, s1)" "fill_loop fuel seg1 s1 = Inr (seg', s')"
      by (auto simp: rbind_eq_Inr)
    with Suc.IH fill_body_ended show ?thesis by metis
  next
    case False
    then show ?thesis using Suc.prems by (simp only: fill_loop.simps if_False sum.inject prod.inject)
  qed
qed (auto split: if_splits)

lemma fill_window_ended:
  "TCPSender_fill_window s = Inr s' \<Longrightarrow> bs_input_ended (sn_stream s') = bs_input_ended (sn_stream s)"
  by (auto simp: TCPSender_fill_window_def Let_def rbind_eq_Inr fill_loop_ended split: if_splits)

lemma ack_erase_stream [simp]: "sn_stream (ack_erase n s) = sn_stream s"
  by (simp add: ack_erase_def Let_def split: list.split prod.split)

lemma ack_received_ended:
  "TCPSender_ack_received ackno win s = Inr s' \<Longrightarrow> bs_input_ended (sn_stream s') = bs_input_ended (sn_stream s)"
  by (auto simp: TCPSender_ack_received_def Let_def fill_window_ended split: if_splits)

lemma tick_stream [simp]: "sn_stream (TCPSender_tick ms s) = sn_stream s"
  by (simp add: TCPSender_tick_def Let_def split: list.split)

lemma out_ended_flush [simp]: "out_ended (TCPConnection_flush_buffer c) = out_ended c"
  using keeps_flush [of c] by (simp add: out_ended_def keeps_streams_def)

lemma out_ended_reply [simp]: "out_ended (send_reply c) = out_ended c"
  using keeps_reply [of c] by (simp add: out_ended_def keeps_streams_def)

lemma out_ended_shutdown [simp]: "out_ended (TCPConnection_unclean_shutdown c) = out_ended c"
  using keeps_shutdown [of c] by (simp add: out_ended_def keeps_streams_def)

lemma out_ended_fields [simp]:
  "out_ended (c\<lparr>tc_linger := b\<rparr>) = out_ended c" "out_ended (c\<lparr>tc_receiver := r\<rparr>) = out_ended c"
  "out_ended (c\<lparr>tc_time_since_last_segment_received := t\<rparr>) = out_ended c" "out_ended (c\<lparr>tc_segments_out := q\<rparr>) = out_ended c"
  "out_ended (set_inbound_stream st c) = out_ended c"
  "out_ended (set_outbound_stream (ByteStream_set_error (sn_stream (tc_sender c))) c) = out_ended c"
  "sn_stream (TCPSender_send_empty_segment s) = sn_stream s"
  by (simp_all add: out_ended_def set_inbound_stream_def set_outbound_stream_def TCPSender_send_empty_segment_def Let_def)

lemma out_ended_sender: "out_ended (c\<lparr>tc_sender := s\<rparr>) = bs_input_ended (sn_stream s)"
  by (simp add: out_ended_def)

lemma segment_received_ended:
  assumes "TCPConnection_segment_received seg c = Inr c'"
  shows "out_ended c' = out_ended c"
proof (cases "\<not> TCPConnection_active c \<or> th_rst (ts_header seg)")
  case True
  with assms show ?thesis
    by (auto simp: TCPConnection_segment_received_def Let_def out_ended_def set_outbound_stream_def set_inbound_stream_def split: if_splits)
next
  case False
  let ?h = "ts_header seg" and ?c = "c\<lparr>tc_time_since_last_segment_received := 0\<rparr>"
  from assms False obtain r s c2 where
    s: "(if th_ack ?h then TCPSender_ack_received (th_ackno ?h) (th_win ?h) (tc_sender c) else Inr (tc_sender c)) = Inr s"
    and c2: "(if 0 < TCPSegment_length_in_sequence_space seg
        then rbind (if th_syn ?h \<and> \<not> th_ack ?h \<and> \<not> tc_initiator c then TCPSender_fill_window s else Inr (TCPSender_send_empty_segment s))
          (\<lambda>sender. Inr (send_reply (?c\<lparr>tc_receiver := r, tc_sender := sender\<rparr>)))
        else Inr (TCPConnection_flush_buffer (?c\<lparr>tc_receiver := r, tc_sender := s\<rparr>))) = Inr c2"
    and c': "c' = (if bs_input_ended (inbound_stream c2) \<and> \<not> ByteStream_eof (sn_stream (tc_sender c2)) then c2\<lparr>tc_linger := False\<rparr> else c2)"
    by (auto simp: TCPConnection_segment_received_def Let_def rbind_eq_Inr cong: if_cong)
  have "bs_input_ended (sn_stream s) = out_ended c" using s ack_received_ended by (auto simp: out_ended_def split: if_splits)
  moreover have "out_ended c2 = bs_input_ended (sn_stream s)"
    using c2 fill_window_ended [of s] by (auto simp: rbind_eq_Inr out_ended_sender split: if_splits)
  ultimately show ?thesis by (simp add: c')
qed

lemma connection_write_ended:
  assumes "TCPConnection_write data c = Inr (n, c')"
  shows "out_ended c' = out_ended c"
proof (cases "TCPConnection_active c")
  case True
  obtain st m where w: "ByteStream_write (sn_stream (tc_sender c)) data = (st, m)" by (cases "ByteStream_write (sn_stream (tc_sender c)) data")
  from assms True obtain s where s: "TCPSender_fill_window ((tc_sender c)\<lparr>sn_stream := st\<rparr>) = Inr s"
    "c' = TCPConnection_flush_buffer ((set_outbound_stream st c)\<lparr>tc_sender := s\<rparr>)"
    by (auto simp: TCPConnection_write_def w rbind_eq_Inr set_outbound_stream_def)
  have "bs_input_ended st = out_ended c" using ByteStream_write_frame(2) [of "sn_stream (tc_sender c)" data] by (simp add: w out_ended_def)
  with fill_window_ended [OF s(1)] show ?thesis by (simp add: s(2) out_ended_sender)
next
  case False
  with assms show ?thesis by (simp add: TCPConnection_write_def)
qed

lemma connection_tick_ended: "out_ended (TCPConnection_tick ms c) = out_ended c"
proof -
  have "out_ended (c\<lparr>tc_time_since_last_segment_received := t, tc_sender := TCPSender_tick ms (tc_sender c)\<rparr>) = out_ended c" for t
    by (simp add: out_ended_def)
  then show ?thesis by (simp add: TCPConnection_tick_def Let_def)
qed

subsection \<open>The simulation\<close>

text \<open>A step of the endpoint, or the removal of a segment that is sent.\<close>

inductive sock_move :: "tcp_segment set \<Rightarrow> endpoint \<Rightarrow> endpoint \<Rightarrow> bool" for net where
  move: "ep_step net a b \<Longrightarrow> sock_move net a b"
| send: "tc_segments_out c = seg # rest \<Longrightarrow> sock_move net (c, W, out) (c\<lparr>tc_segments_out := rest\<rparr>, W, out)"

text \<open>
  What the socket relies on of its adapter: on a descriptor other than the owner's pipe, the
  descriptor \<open>n\<close>, it leaves the pipe alone and keeps its descriptor, and every segment that it reads
  is in \<open>net\<close>.
\<close>

definition apart ::
  "('a, 'k) datagram_adapter \<Rightarrow> ('k \<Rightarrow> int \<Rightarrow> bytes) \<Rightarrow> ('k \<Rightarrow> int \<Rightarrow> bytes) \<Rightarrow> int \<Rightarrow> 'a \<Rightarrow> 'k \<Rightarrow> 'a \<Rightarrow> 'k \<Rightarrow> bool" where
  "apart ad taken given n a k a' k' \<longleftrightarrow>
     taken k' n = taken k n \<and> given k' n = given k n \<and> fd_fd (da_fd ad a') = fd_fd (da_fd ad a)"

definition adapter_ok ::
  "('a, 'k) datagram_adapter \<Rightarrow> ('k \<Rightarrow> int \<Rightarrow> bytes) \<Rightarrow> ('k \<Rightarrow> int \<Rightarrow> bytes) \<Rightarrow> int \<Rightarrow> tcp_segment set \<Rightarrow> bool" where
  "adapter_ok ad taken given n net \<longleftrightarrow> (\<forall>a k. fd_fd (da_fd ad a) \<noteq> n \<longrightarrow>
     (\<forall>seg a' k'. da_read ad a k = Inr (seg, a', k') \<longrightarrow>
        apart ad taken given n a k a' k' \<and> (case seg of None \<Rightarrow> True | Some s \<Rightarrow> s \<in> net)) \<and>
     (\<forall>seg a' k'. da_write ad seg a k = Inr (a', k') \<longrightarrow> apart ad taken given n a k a' k') \<and>
     (\<forall>ms a' k'. da_tick ad ms a k = Inr (a', k') \<longrightarrow> apart ad taken given n a k a' k'))"

lemma adapter_okD:
  assumes "adapter_ok ad taken given n net" and "fd_fd (da_fd ad a) \<noteq> n"
  shows "da_read ad a k = Inr (seg, a', k') \<Longrightarrow> apart ad taken given n a k a' k' \<and> (case seg of None \<Rightarrow> True | Some s \<Rightarrow> s \<in> net)"
    "da_write ad seg' a k = Inr (a', k') \<Longrightarrow> apart ad taken given n a k a' k'"
    "da_tick ad ms a k = Inr (a', k') \<Longrightarrow> apart ad taken given n a k a' k'"
  using assms unfolding adapter_ok_def by blast+

definition sp_sim ::
  "('k \<Rightarrow> int \<Rightarrow> bytes) \<Rightarrow> ('k \<Rightarrow> int \<Rightarrow> bytes) \<Rightarrow> tcp_segment set \<Rightarrow> 'k \<Rightarrow> int \<Rightarrow> endpoint \<Rightarrow> ('a, 'k) sponge_socket \<Rightarrow> bool" where
  "sp_sim taken given net k0 n e0 w \<longleftrightarrow> fd_fd (sp_thread_data w) = n \<and> (\<exists>tcp W out. sp_tcp w = Some tcp \<and>
     taken (sp_kernel w) n = taken k0 n @ W \<and> given (sp_kernel w) n = given k0 n @ out \<and>
     (length W < 2147483640 \<longrightarrow> (sock_move net)\<^sup>*\<^sup>* e0 (tcp, W, out)) \<and> (out_ended tcp \<longrightarrow> sp_outbound_shutdown w))"

definition sponge_rules :: "('a, 'k) datagram_adapter \<Rightarrow> 'k syscalls \<Rightarrow> ('a, 'k) sponge_rule list" where
  "sponge_rules ad sc = [sponge_rule1 ad, sponge_rule2 sc, sponge_rule3 sc, sponge_rule4 ad]"

lemma sponge_rules_distinct: "distinct (sponge_rules ad sc)"
proof -
  define w :: "('a, 'b) sponge_socket" where
    "w = \<lparr>sp_socket = undefined, sp_thread_data = undefined, sp_adapter = undefined, sp_tcp = None,
      sp_inbound_shutdown = False, sp_outbound_shutdown = False, sp_fully_acked = False, sp_kernel = undefined\<rparr>"
  define v where "v = w\<lparr>sp_tcp := Some ((TCPConnection_new TCPConfig_new 0)\<lparr>tc_segments_out := [TCPSegment_new]\<rparr>)\<rparr>"
  have "ru_cancel (sponge_rule1 ad) w \<noteq> ru_cancel (sponge_rule2 sc) w"
    by (simp add: sponge_rule1_def sponge_rule2_def with_tcp_def w_def)
  moreover have "ByteStream_buffer_empty (ByteStream_new c) \<and> \<not> ByteStream_eof (ByteStream_new c) \<and> \<not> bs_error (ByteStream_new c)" for c
    by (simp add: ByteStream_new_def ByteStream_buffer_empty_def ByteStream_eof_def BufferList_size_def)
  then have "ru_interest (sponge_rule3 sc) v \<noteq> ru_interest (sponge_rule4 ad) v"
    by (simp add: sponge_rule3_def sponge_rule4_def v_def w_def inbound_stream_def TCPConnection_new_def TCPReceiver_new_def
        StreamReassembler_new_def)
  moreover have "ru_direction (sponge_rule1 ad) = In" "ru_direction (sponge_rule2 sc) = In"
    "ru_direction (sponge_rule3 sc) = Out" "ru_direction (sponge_rule4 ad) = Out"
    by (simp_all add: sponge_rule1_def sponge_rule2_def sponge_rule3_def sponge_rule4_def)
  ultimately have "sponge_rule1 ad \<noteq> sponge_rule2 sc" "sponge_rule3 sc \<noteq> sponge_rule4 ad" "sponge_rule1 ad \<noteq> sponge_rule3 sc"
    "sponge_rule1 ad \<noteq> sponge_rule4 ad" "sponge_rule2 sc \<noteq> sponge_rule3 sc" "sponge_rule2 sc \<noteq> sponge_rule4 ad"
    by (metis direction.distinct(1))+
  then show ?thesis by (simp add: sponge_rules_def)
qed

lemma sp_simI:
  assumes s: "sp_sim taken given net k0 n e0 w" and t: "sp_tcp w = Some tcp"
    and t': "sp_tcp w' = Some tcp'" "\<And>W out. (sock_move net)\<^sup>*\<^sup>* (tcp, W, out) (tcp', W, out)"
    and f: "fd_fd (sp_thread_data w') = fd_fd (sp_thread_data w)" "taken (sp_kernel w') n = taken (sp_kernel w) n"
      "given (sp_kernel w') n = given (sp_kernel w) n" "out_ended tcp' \<longrightarrow> out_ended tcp \<or> sp_outbound_shutdown w'"
      "sp_outbound_shutdown w \<longrightarrow> sp_outbound_shutdown w'"
  shows "sp_sim taken given net k0 n e0 w'"
proof -
  from s t obtain W out where "taken (sp_kernel w) n = taken k0 n @ W" "given (sp_kernel w) n = given k0 n @ out"
    "length W < 2147483640 \<longrightarrow> (sock_move net)\<^sup>*\<^sup>* e0 (tcp, W, out)" "out_ended tcp \<longrightarrow> sp_outbound_shutdown w"
    "fd_fd (sp_thread_data w) = n"
    by (auto simp: sp_sim_def)
  moreover from this(3) have "length W < 2147483640 \<longrightarrow> (sock_move net)\<^sup>*\<^sup>* e0 (tcp', W, out)"
    using t'(2) by (blast intro: rtranclp_trans)
  ultimately show ?thesis using f t'(1) unfolding sp_sim_def by auto
qed

lemma sim_callback1:
  assumes a: "adapter_ok ad taken given n net" and p: "fd_fd (da_fd ad (sp_adapter w)) \<noteq> n" and s: "sp_sim taken given net k0 n e0 w"
    and c: "ru_callback (sponge_rule1 ad) w = Inr w'"
  shows "sp_sim taken given net k0 n e0 w' \<and> sp_outbound_shutdown w' = sp_outbound_shutdown w \<and>
     fd_fd (da_fd ad (sp_adapter w')) = fd_fd (da_fd ad (sp_adapter w))"
proof -
  obtain tcp where t: "sp_tcp w = Some tcp" using s by (auto simp: sp_sim_def)
  from c t obtain seg a' k' tcp' where r: "da_read ad (sp_adapter w) (sp_kernel w) = Inr (seg, a', k')"
    "(case seg of None \<Rightarrow> Inr tcp | Some seg \<Rightarrow> TCPConnection_segment_received seg tcp) = Inr tcp'"
    and w': "sp_tcp w' = Some tcp'" "sp_kernel w' = k'" "sp_thread_data w' = sp_thread_data w" "sp_outbound_shutdown w' = sp_outbound_shutdown w"
      "sp_adapter w' = a'"
    by (auto simp: sponge_rule1_def with_tcp_def Let_def rbind_eq_Inr)
  have f: "taken k' n = taken (sp_kernel w) n" "given k' n = given (sp_kernel w) n" "case seg of None \<Rightarrow> True | Some s \<Rightarrow> s \<in> net"
    "fd_fd (da_fd ad a') = fd_fd (da_fd ad (sp_adapter w))"
    using adapter_okD(1) [OF a p r(1)] by (simp_all add: apart_def)
  have "(sock_move net)\<^sup>*\<^sup>* (tcp, W, out) (tcp', W, out)" for W out
    using r(2) f(3) by (cases seg) (auto intro!: r_into_rtranclp sock_move.move ep_step.receive)
  moreover have "out_ended tcp' = out_ended tcp" using r(2) by (cases seg) (auto dest: segment_received_ended)
  ultimately show ?thesis using sp_simI [OF s t w'(1)] w' f(1,2,4) by simp
qed

lemma end_input_ended:
  "TCPConnection_end_input_stream c = Inr c' \<Longrightarrow> (sock_move net)\<^sup>*\<^sup>* (c, W, out) (c', W, out)"
  by (intro r_into_rtranclp sock_move.move ep_step.end_input)

lemma sim_callback2:
  assumes k: "kernel_ok sc taken given" and s: "sp_sim taken given net k0 n e0 w" and o: "\<not> sp_outbound_shutdown w"
    and c: "ru_callback (sponge_rule2 sc) w = Inr w'"
  shows "sp_sim taken given net k0 n e0 w' \<and> sp_adapter w' = sp_adapter w"
proof -
  obtain tcp W out where t: "sp_tcp w = Some tcp" and W: "taken (sp_kernel w) n = taken k0 n @ W" "given (sp_kernel w) n = given k0 n @ out"
    "length W < 2147483640 \<Longrightarrow> (sock_move net)\<^sup>*\<^sup>* e0 (tcp, W, out)" and n: "fd_fd (sp_thread_data w) = n" and e: "\<not> out_ended tcp"
    using s o by (auto simp: sp_sim_def)
  from c t obtain data fd k' tcp1 tcp' where
    r: "FileDescriptor_read sc (TCPConnection_remaining_outbound_capacity tcp) (sp_thread_data w) (sp_kernel w) = Inr (data, fd, k')"
    and wr: "TCPConnection_write data tcp = Inr (size64 data, tcp1)"
    and en: "if fd_eof fd then TCPConnection_end_input_stream tcp1 = Inr tcp' else tcp' = tcp1"
    and w': "sp_tcp w' = Some tcp'" "sp_kernel w' = k'" "sp_thread_data w' = fd" "sp_outbound_shutdown w' = fd_eof fd"
      "sp_adapter w' = sp_adapter w"
    using o by (auto simp: sponge_rule2_def with_tcp_def Let_def rbind_eq_Inr split: if_splits)
  note rd = FileDescriptor_read_ok [OF k r]
  have "str_ok data" using rd(1) unat64_lt [of "TCPConnection_remaining_outbound_capacity tcp"] by linarith
  then have "unat (size64 data) = length data" by simp
  then have put: "ep_step net (tcp, W, out) (tcp1, W @ data, out)" if "length (W @ data) < 2147483640"
    using ep_step.put [of tcp W data "size64 data" tcp1 net out] that e wr by (simp add: out_ended_def)
  have last: "(sock_move net)\<^sup>*\<^sup>* (tcp1, W @ data, out) (tcp', W @ data, out)"
    using en end_input_ended [of tcp1] by (auto split: if_splits)
  have "(sock_move net)\<^sup>*\<^sup>* e0 (tcp', W @ data, out)" if b: "length (W @ data) < 2147483640"
  proof -
    have "(sock_move net)\<^sup>*\<^sup>* e0 (tcp, W, out)" using W(3) b by simp
    also have "sock_move net (tcp, W, out) (tcp1, W @ data, out)" using put [OF b] by (rule sock_move.move)
    also note last
    finally show ?thesis .
  qed
  moreover have "out_ended tcp' \<longrightarrow> fd_eof fd" using en e connection_write_ended [OF wr] by (auto split: if_splits)
  ultimately show ?thesis using W(1,2) w' rd n by (auto simp: sp_sim_def)
qed

lemma peek_pop:
  assumes "ByteStream_pop_output s m = Inr s'" and "unat m \<le> length (ByteStream_peek_output s a)"
  shows "ByteStream_read s m = Inr (take (unat m) (ByteStream_peek_output s a), s')"
proof -
  let ?z = "ByteStream_buffer_size s"
  have "unat m \<le> unat (if a < ?z then a else ?z)" using assms(2) by (simp add: ByteStream_peek_output_def Let_def)
  moreover then have "\<not> ?z < m" by (auto simp: word_less_nat_alt split: if_splits)
  ultimately have "take (unat m) (ByteStream_peek_output s a) = ByteStream_peek_output s m"
    by (simp add: ByteStream_peek_output_def Let_def min_absorb1 not_less)
  with assms(1) show ?thesis by (simp add: ByteStream_read_def)
qed

lemma sim_callback3:
  assumes k: "kernel_ok sc taken given" and s: "sp_sim taken given net k0 n e0 w"
    and c: "ru_callback (sponge_rule3 sc) w = Inr w'"
  shows "sp_sim taken given net k0 n e0 w' \<and> sp_outbound_shutdown w' = sp_outbound_shutdown w \<and> sp_adapter w' = sp_adapter w"
proof -
  obtain tcp W out where t: "sp_tcp w = Some tcp" and W: "taken (sp_kernel w) n = taken k0 n @ W" "given (sp_kernel w) n = given k0 n @ out"
    "length W < 2147483640 \<longrightarrow> (sock_move net)\<^sup>*\<^sup>* e0 (tcp, W, out)" and n: "fd_fd (sp_thread_data w) = n"
    and e: "out_ended tcp \<longrightarrow> sp_outbound_shutdown w"
    using s by (auto simp: sp_sim_def)
  let ?in = "inbound_stream tcp"
  let ?buf = "ByteStream_peek_output ?in (min 65536 (ByteStream_buffer_size ?in))"
  from c t obtain m fd k1 st where
    wr: "FileDescriptor_write sc [?buf] False (sp_thread_data w) (sp_kernel w) = Inr (m, fd, k1)"
    and pop: "ByteStream_pop_output ?in m = Inr st"
    and last: "(if ByteStream_eof st \<or> bs_error st
      then rbind (Socket_shutdown sc SHUT_WR fd k1) (\<lambda>(fd, k). Inr (w\<lparr>sp_tcp := Some (set_inbound_stream st tcp), sp_thread_data := fd, sp_kernel := k, sp_inbound_shutdown := True\<rparr>))
      else Inr (w\<lparr>sp_thread_data := fd, sp_kernel := k1, sp_tcp := Some (set_inbound_stream st tcp)\<rparr>)) = Inr w'"
    by (auto simp: sponge_rule3_def with_tcp_def Let_def rbind_eq_Inr cong: if_cong)
  have "str_ok ?buf" using unat64_lt by (simp add: ByteStream_peek_output_def Let_def min_less_iff_disj)
  note wo = FileDescriptor_write_ok [OF k wr this]
  have f: "sp_tcp w' = Some (set_inbound_stream st tcp) \<and> sp_adapter w' = sp_adapter w \<and> sp_outbound_shutdown w' = sp_outbound_shutdown w \<and>
     fd_fd (sp_thread_data w') = fd_fd fd \<and> taken (sp_kernel w') = taken k1 \<and> given (sp_kernel w') = given k1"
  proof (cases "ByteStream_eof st \<or> bs_error st")
    case True
    with last obtain fd' k' where sh: "Socket_shutdown sc SHUT_WR fd k1 = Inr (fd', k')"
      and w': "w' = w\<lparr>sp_tcp := Some (set_inbound_stream st tcp), sp_thread_data := fd', sp_kernel := k', sp_inbound_shutdown := True\<rparr>"
      by (auto simp: rbind_eq_Inr)
    show ?thesis using Socket_shutdown_ok [OF k sh] by (simp add: w')
  next
    case False
    then have "w' = w\<lparr>sp_thread_data := fd, sp_kernel := k1, sp_tcp := Some (set_inbound_stream st tcp)\<rparr>" using last by simp
    then show ?thesis by simp
  qed
  have "sock_move net (tcp, W, out) (set_inbound_stream st tcp, W, out @ take (unat m) ?buf)"
    using peek_pop [OF pop wo(1)] by (intro sock_move.move ep_step.read)
  with W(3) have "length W < 2147483640 \<longrightarrow> (sock_move net)\<^sup>*\<^sup>* e0 (set_inbound_stream st tcp, W, out @ take (unat m) ?buf)"
    by (auto intro: rtranclp.rtrancl_into_rtrancl)
  then have "sp_sim taken given net k0 n e0 w'"
    unfolding sp_sim_def using W(1,2) wo(2-4) f n e
    by (intro conjI exI [of _ "set_inbound_stream st tcp"] exI [of _ W] exI [of _ "out @ take (unat m) ?buf"]) simp_all
  then show ?thesis using f by simp
qed

lemma send_segments_moves:
  assumes a: "adapter_ok ad taken given n net"
  shows "send_segments ad segs tcp a k = Inr (tcp', a', k') \<Longrightarrow> tc_segments_out tcp = segs \<Longrightarrow> fd_fd (da_fd ad a) \<noteq> n \<Longrightarrow>
     (sock_move net)\<^sup>*\<^sup>* (tcp, W, out) (tcp', W, out) \<and> out_ended tcp' = out_ended tcp \<and> apart ad taken given n a k a' k'"
proof (induction segs arbitrary: tcp a k)
  case (Cons seg segs)
  from Cons.prems(1) obtain a1 k1 where w: "da_write ad seg a k = Inr (a1, k1)"
    "send_segments ad segs (tcp\<lparr>tc_segments_out := segs\<rparr>) a1 k1 = Inr (tcp', a', k')"
    by (auto simp: rbind_eq_Inr)
  have p: "apart ad taken given n a k a1 k1" using adapter_okD(2) [OF a Cons.prems(3) w(1)] .
  have "sock_move net (tcp, W, out) (tcp\<lparr>tc_segments_out := segs\<rparr>, W, out)" using Cons.prems(2) by (rule sock_move.send)
  with Cons.IH [OF w(2)] p Cons.prems(3) show ?case by (auto simp: apart_def intro: converse_rtranclp_into_rtranclp)
qed (simp add: apart_def)

lemma sim_callback4:
  assumes a: "adapter_ok ad taken given n net" and p: "fd_fd (da_fd ad (sp_adapter w)) \<noteq> n" and s: "sp_sim taken given net k0 n e0 w"
    and c: "ru_callback (sponge_rule4 ad) w = Inr w'"
  shows "sp_sim taken given net k0 n e0 w' \<and> sp_outbound_shutdown w' = sp_outbound_shutdown w \<and>
     fd_fd (da_fd ad (sp_adapter w')) = fd_fd (da_fd ad (sp_adapter w))"
proof -
  obtain tcp where t: "sp_tcp w = Some tcp" using s by (auto simp: sp_sim_def)
  from c t obtain tcp' a' k' where r: "send_segments ad (tc_segments_out tcp) tcp (sp_adapter w) (sp_kernel w) = Inr (tcp', a', k')"
    "w' = w\<lparr>sp_tcp := Some tcp', sp_adapter := a', sp_kernel := k'\<rparr>"
    by (auto simp: sponge_rule4_def with_tcp_def rbind_eq_Inr)
  note m = send_segments_moves [OF a r(1) refl p]
  have "sp_tcp w' = Some tcp'" by (simp add: r(2))
  from sp_simI [OF s t this] m show ?thesis by (simp add: r(2) apart_def)
qed

lemma sim_cancel2:
  assumes s: "sp_sim taken given net k0 n e0 w" and c: "ru_cancel (sponge_rule2 sc) w = Inr w'"
  shows "sp_sim taken given net k0 n e0 w' \<and> sp_adapter w' = sp_adapter w"
proof -
  obtain tcp where t: "sp_tcp w = Some tcp" using s by (auto simp: sp_sim_def)
  from c t obtain tcp' where r: "TCPConnection_end_input_stream tcp = Inr tcp'" "w' = w\<lparr>sp_tcp := Some tcp', sp_outbound_shutdown := True\<rparr>"
    by (auto simp: sponge_rule2_def with_tcp_def rbind_eq_Inr)
  have "sp_tcp w' = Some tcp'" by (simp add: r(2))
  from sp_simI [OF s t this] end_input_ended [OF r(1)] show ?thesis by (simp add: r(2))
qed

subsection \<open>The rules as a client of the event loop\<close>

definition sp_inv ::
  "('a, 'k) datagram_adapter \<Rightarrow> 'k syscalls \<Rightarrow> ('k \<Rightarrow> int \<Rightarrow> bytes) \<Rightarrow> ('k \<Rightarrow> int \<Rightarrow> bytes) \<Rightarrow> tcp_segment set \<Rightarrow> 'k \<Rightarrow> int \<Rightarrow>
   endpoint \<Rightarrow> ('a, 'k) sponge_rule set \<Rightarrow> ('a, 'k) sponge_socket \<Rightarrow> bool" where
  "sp_inv ad sc taken given net k0 n e0 L w \<longleftrightarrow> kernel_ok sc taken given \<and> adapter_ok ad taken given n net \<and>
     L \<subseteq> set (sponge_rules ad sc) \<and> fd_fd (da_fd ad (sp_adapter w)) \<noteq> n \<and> sp_sim taken given net k0 n e0 w"

definition sp_armed :: "'k syscalls \<Rightarrow> ('a, 'k) sponge_rule \<Rightarrow> ('a, 'k) sponge_socket \<Rightarrow> bool" where
  "sp_armed sc r w \<longleftrightarrow> (r = sponge_rule2 sc \<longrightarrow> \<not> sp_outbound_shutdown w)"

lemma sp_rule_cases:
  assumes "sp_inv ad sc taken given net k0 n e0 L w" and "r \<in> L"
  obtains "r = sponge_rule1 ad" | "r = sponge_rule2 sc" | "r = sponge_rule3 sc" | "r = sponge_rule4 ad"
  using assms by (auto simp: sp_inv_def sponge_rules_def)

lemma sp_callback:
  assumes i: "sp_inv ad sc taken given net k0 n e0 L w" and r: "r \<in> L" and a: "sp_armed sc r w" and c: "ru_callback r w = Inr w'"
  shows "sp_inv ad sc taken given net k0 n e0 L w' \<and> (r \<noteq> sponge_rule2 sc \<longrightarrow> sp_outbound_shutdown w' = sp_outbound_shutdown w)"
proof -
  have d: "kernel_ok sc taken given" "adapter_ok ad taken given n net" "sp_sim taken given net k0 n e0 w"
    "fd_fd (da_fd ad (sp_adapter w)) \<noteq> n" using i by (simp_all add: sp_inv_def)
  have "sp_sim taken given net k0 n e0 w' \<and> fd_fd (da_fd ad (sp_adapter w')) = fd_fd (da_fd ad (sp_adapter w)) \<and> (r \<noteq> sponge_rule2 sc \<longrightarrow> sp_outbound_shutdown w' = sp_outbound_shutdown w)"
    using i r
  proof (cases rule: sp_rule_cases)
    case 1
    then show ?thesis using sim_callback1 [OF d(2,4,3) c [unfolded 1]] by simp
  next
    case 2
    then show ?thesis using sim_callback2 [OF d(1,3) _ c [unfolded 2]] a by (simp add: sp_armed_def)
  next
    case 3
    then show ?thesis using sim_callback3 [OF d(1,3) c [unfolded 3]] by simp
  next
    case 4
    then show ?thesis using sim_callback4 [OF d(2,4,3) c [unfolded 4]] by simp
  qed
  then show ?thesis using i by (simp add: sp_inv_def)
qed

lemma sp_cancel:
  assumes i: "sp_inv ad sc taken given net k0 n e0 L w" and r: "r \<in> L" and c: "ru_cancel r w = Inr w'"
  shows "sp_inv ad sc taken given net k0 n e0 (L - {r}) w' \<and> (r \<noteq> sponge_rule2 sc \<longrightarrow> w' = w)"
proof -
  have d: "sp_sim taken given net k0 n e0 w" using i by (simp add: sp_inv_def)
  have "sp_sim taken given net k0 n e0 w' \<and> fd_fd (da_fd ad (sp_adapter w')) = fd_fd (da_fd ad (sp_adapter w)) \<and> (r \<noteq> sponge_rule2 sc \<longrightarrow> w' = w)"
    using i r
  proof (cases rule: sp_rule_cases)
    case 1
    then have "w' = w" using c by (simp add: sponge_rule1_def)
    with d show ?thesis by simp
  next
    case 2
    then show ?thesis using sim_cancel2 [OF d c [unfolded 2]] by simp
  next
    case 3
    then have "w' = w" using c by (simp add: sponge_rule3_def)
    with d show ?thesis by simp
  next
    case 4
    then have "w' = w" using c by (simp add: sponge_rule4_def)
    with d show ?thesis by simp
  qed
  then show ?thesis using i by (auto simp: sp_inv_def)
qed

lemma sp_sim_kernel:
  assumes "sp_sim taken given net k0 n e0 w" and "taken k' n = taken (sp_kernel w) n" and "given k' n = given (sp_kernel w) n"
  shows "sp_sim taken given net k0 n e0 (w\<lparr>sp_kernel := k'\<rparr>)"
  using assms by (simp add: sp_sim_def)

lemma sp_poll_inv:
  assumes i: "sp_inv ad sc taken given net k0 n e0 L w" and p: "sponge_poll sc ps t w = (ret, err, revents, w')"
  shows "sp_inv ad sc taken given net k0 n e0 L w' \<and> sp_outbound_shutdown w' = sp_outbound_shutdown w"
proof -
  obtain k' where k: "sc_poll sc ps t (sp_kernel w) = (ret, err, revents, k')" and w': "w' = w\<lparr>sp_kernel := k'\<rparr>"
    using p by (auto simp: sponge_poll_def split: prod.splits)
  have "taken k' = taken (sp_kernel w)" "given k' = given (sp_kernel w)"
    using i k by (simp_all add: sp_inv_def kernel_ok_def kernel_quiet_def)
  then show ?thesis using i sp_sim_kernel [of taken given net k0 n e0 w k'] by (simp add: sp_inv_def w')
qed

interpretation sp: event_loop_client "sp_inv ad sc taken given net k0 n e0" "sp_armed sc" "\<lambda>r w. True" "sponge_poll sc"
  for ad :: "('a, 'k) datagram_adapter" and sc taken given net k0 n e0
proof unfold_locales
  fix L :: "('a, 'k) sponge_rule set" and r s :: "('a, 'k) sponge_rule" and w w' :: "('a, 'k) sponge_socket" and ps t ret err revents
  let ?inv = "sp_inv ad sc taken given net k0 n e0"
  show "sp_armed sc r w" if "ru_interest r w"
    using that by (auto simp: sp_armed_def sponge_rule2_def split: option.splits)
  show "?inv L w'" if "r \<in> L" "?inv L w" "sp_armed sc r w" "ru_callback r w = Inr w'" using sp_callback [OF that(2,1,3,4)] by simp
  show "sp_armed sc s w'" if "r \<in> L" "r \<noteq> s" "?inv L w" "sp_armed sc r w" "sp_armed sc s w" "ru_callback r w = Inr w'"
    using sp_callback [OF that(3,1,4,6)] that(2,5) by (auto simp: sp_armed_def)
  show "?inv (L - {r}) w'" if "r \<in> L" "?inv L w" "ru_cancel r w = Inr w'" using sp_cancel [OF that(2,1,3)] by simp
  show "sp_armed sc s w'" if "r \<in> L" "r \<noteq> s" "?inv L w" "sp_armed sc s w" "ru_cancel r w = Inr w'"
    using sp_cancel [OF that(3,1,5)] that(2,4) by (auto simp: sp_armed_def)
  show "?inv L w' \<and> (\<forall>r \<in> L. sp_armed sc r w \<longrightarrow> sp_armed sc r w')"
    if "?inv L w" "sponge_poll sc ps t w = (ret, err, revents, w')" using sp_poll_inv [OF that] by (simp add: sp_armed_def)
qed simp_all

subsection \<open>Turns of the loop\<close>

definition sponge_turn ::
  "('a, 'k) datagram_adapter \<Rightarrow> 'k syscalls \<Rightarrow> 'k environment \<Rightarrow> u64 \<times> ('a, 'k) sponge_rule list \<times> ('a, 'k) sponge_socket \<Rightarrow>
   u64 \<times> ('a, 'k) sponge_rule list \<times> ('a, 'k) sponge_socket \<Rightarrow> bool" where
  "sponge_turn ad sc en s t \<longleftrightarrow> (\<exists>more. tcp_turn ad sc en s = Inr (more, t))"

definition clock_ok :: "'k environment \<Rightarrow> ('k \<Rightarrow> int \<Rightarrow> bytes) \<Rightarrow> ('k \<Rightarrow> int \<Rightarrow> bytes) \<Rightarrow> int \<Rightarrow> bool" where
  "clock_ok en taken given n \<longleftrightarrow> (\<forall>k. taken (snd (en_timestamp_ms en k)) n = taken k n \<and> given (snd (en_timestamp_ms en k)) n = given k n)"

text \<open>The socket as \<^verbatim>\<open>connect\<close> or \<^verbatim>\<open>listen_and_accept\<close> starts its loop.\<close>

definition sponge_ready ::
  "('a, 'k) datagram_adapter \<Rightarrow> 'k syscalls \<Rightarrow> tcp_config \<Rightarrow> u32 \<Rightarrow> u64 \<times> ('a, 'k) sponge_rule list \<times> ('a, 'k) sponge_socket \<Rightarrow> bool" where
  "sponge_ready ad sc cfg r s \<longleftrightarrow> (case s of (t, rules, w) \<Rightarrow> rules = sponge_rules ad sc \<and> \<not> sp_outbound_shutdown w \<and>
     fd_fd (da_fd ad (sp_adapter w)) \<noteq> fd_fd (sp_thread_data w) \<and>
     (case sp_tcp w of None \<Rightarrow> False
      | Some tcp \<Rightarrow> tcp = TCPConnection_new cfg r \<or> TCPConnection_connect (TCPConnection_new cfg r) = Inr tcp))"

definition turn_inv ::
  "('a, 'k) datagram_adapter \<Rightarrow> 'k syscalls \<Rightarrow> 'k environment \<Rightarrow> ('k \<Rightarrow> int \<Rightarrow> bytes) \<Rightarrow> ('k \<Rightarrow> int \<Rightarrow> bytes) \<Rightarrow> tcp_segment set \<Rightarrow>
   'k \<Rightarrow> int \<Rightarrow> endpoint \<Rightarrow> u64 \<times> ('a, 'k) sponge_rule list \<times> ('a, 'k) sponge_socket \<Rightarrow> bool" where
  "turn_inv ad sc en taken given net k0 n e0 s \<longleftrightarrow> (case s of (t, rules, w) \<Rightarrow>
     clock_ok en taken given n \<and> distinct rules \<and> sp_inv ad sc taken given net k0 n e0 (set rules) w)"

lemma connect_ended:
  assumes "TCPConnection_connect c = Inr c'"
  shows "out_ended c' = out_ended c"
proof -
  from assms obtain s where s: "TCPSender_fill_window (tc_sender c) = Inr s" "sn_stream (tc_sender c') = sn_stream s"
    by (auto simp: TCPConnection_connect_def rbind_eq_Inr Let_def) (auto split: list.splits)
  with fill_window_ended [OF s(1)] show ?thesis by (simp add: out_ended_def)
qed

lemma sp_sim_tick:
  assumes a: "adapter_ok ad taken given n net" and c: "clock_ok en taken given n" and s: "sp_sim taken given net k0 n e0 w"
    and p: "fd_fd (da_fd ad (sp_adapter w)) \<noteq> n" and t: "sp_tcp w = Some tcp" and clk: "en_timestamp_ms en (sp_kernel w) = (now, k1)"
    and d: "da_tick ad ms (sp_adapter w) k1 = Inr (a', k')"
  shows "sp_sim taken given net k0 n e0 (w\<lparr>sp_kernel := k', sp_tcp := Some (TCPConnection_tick ms tcp), sp_adapter := a'\<rparr>) \<and>
     fd_fd (da_fd ad a') = fd_fd (da_fd ad (sp_adapter w))"
proof -
  let ?w = "w\<lparr>sp_kernel := k', sp_tcp := Some (TCPConnection_tick ms tcp), sp_adapter := a'\<rparr>"
  have k1: "taken k1 n = taken (sp_kernel w) n" "given k1 n = given (sp_kernel w) n"
    using c clk unfolding clock_ok_def by (metis snd_conv)+
  have k': "taken k' n = taken k1 n" "given k' n = given k1 n" "fd_fd (da_fd ad a') = fd_fd (da_fd ad (sp_adapter w))"
    using adapter_okD(3) [OF a p d] by (simp_all add: apart_def)
  have m: "(sock_move net)\<^sup>*\<^sup>* (tcp, W, out) (TCPConnection_tick ms tcp, W, out)" for W out
    by (intro r_into_rtranclp sock_move.move ep_step.tick)
  have t': "sp_tcp ?w = Some (TCPConnection_tick ms tcp)" by simp
  have "sp_sim taken given net k0 n e0 ?w" by (rule sp_simI [OF s t t' m]) (simp_all add: k1 k'(1,2) connection_tick_ended)
  with k'(3) show ?thesis by simp
qed

lemma turn_inv_step:
  assumes i: "turn_inv ad sc en taken given net k0 n e0 s" and st: "sponge_turn ad sc en s t"
  shows "turn_inv ad sc en taken given net k0 n e0 t"
proof -
  obtain base rules w where s: "s = (base, rules, w)" by (cases s)
  have c: "clock_ok en taken given n" and d: "distinct rules" "sp_inv ad sc taken given net k0 n e0 (set rules) w"
    using i by (simp_all add: turn_inv_def s)
  from st obtain more ret rules1 w1 where ev: "EventLoop_wait_next_event (sponge_poll sc) TCP_TICK_MS rules w = Inr (ret, rules1, w1)"
    and rest: "(if ret = Exit \<or> en_abort en (sp_kernel w1) then Inr (False, base, rules1, w1)
     else case sp_tcp w1 of
       None \<Rightarrow> Inl (Runtime_error ''bad optional access'')
     | Some tcp \<Rightarrow>
         if TCPConnection_active tcp then
           let (next_time, k) = en_timestamp_ms en (sp_kernel w1);
               w = w1\<lparr>sp_kernel := k, sp_tcp := Some (TCPConnection_tick (next_time - base) tcp)\<rparr>
           in rbind (da_tick ad (next_time - base) (sp_adapter w) (sp_kernel w)) (\<lambda>(a, k).
              Inr (True, next_time, rules1, w\<lparr>sp_adapter := a, sp_kernel := k\<rparr>))
         else Inr (True, base, rules1, w1)) = Inr (more, t)"
    by (auto simp: sponge_turn_def tcp_turn_def s rbind_eq_Inr)
  have i1: "sp_inv ad sc taken given net k0 n e0 (set rules1) w1" "distinct rules1"
    using sp.wait_inv [OF ev d] subseq_keeps(2) d(1) by blast+
  consider (same) b where "t = (b, rules1, w1)"
    | (tick) tcp now k1 a' k' where "sp_tcp w1 = Some tcp" "en_timestamp_ms en (sp_kernel w1) = (now, k1)"
       "da_tick ad (now - base) (sp_adapter w1) k1 = Inr (a', k')"
       "t = (now, rules1, w1\<lparr>sp_kernel := k', sp_tcp := Some (TCPConnection_tick (now - base) tcp), sp_adapter := a'\<rparr>)"
    using rest by (cases "en_timestamp_ms en (sp_kernel w1)") (auto simp: rbind_eq_Inr Let_def split: if_splits option.splits)
  then show ?thesis
  proof cases
    case same
    then show ?thesis using c i1 by (simp add: turn_inv_def)
  next
    case tick
    then show ?thesis using c i1 sp_sim_tick [OF _ c _ _ tick(1,2,3), of net k0 e0]
      by (simp add: turn_inv_def sp_inv_def)
  qed
qed

lemma ready_inv:
  assumes "kernel_ok sc taken given" "adapter_ok ad taken given n net" "clock_ok en taken given n"
    and r: "sponge_ready ad sc cfg r (t, rules, w)" and n: "fd_fd (sp_thread_data w) = n"
  shows "turn_inv ad sc en taken given net (sp_kernel w) n (TCPConnection_new cfg r, [], []) (t, rules, w)"
proof -
  let ?c = "TCPConnection_new cfg r"
  from r obtain tcp where tcp: "sp_tcp w = Some tcp" "tcp = ?c \<or> TCPConnection_connect ?c = Inr tcp"
    by (auto simp: sponge_ready_def split: option.splits)
  have "\<not> out_ended ?c" by (simp add: out_ended_def TCPConnection_new_def TCPSender_new_def ByteStream_new_def)
  then have "\<not> out_ended tcp" using tcp(2) connect_ended by auto
  moreover have "(sock_move net)\<^sup>*\<^sup>* (?c, [], []) (tcp, [], [])" using tcp(2)
    by (elim disjE) (simp, rule r_into_rtranclp, rule sock_move.move, rule ep_step.connect)
  ultimately have "sp_sim taken given net (sp_kernel w) n (?c, [], []) w" using tcp(1) n by (simp add: sp_sim_def)
  then show ?thesis using assms sponge_rules_distinct by (simp add: turn_inv_def sp_inv_def sponge_ready_def)
qed

definition sponge_started ::
  "('a, 'k) datagram_adapter \<Rightarrow> 'k syscalls \<Rightarrow> 'k environment \<Rightarrow> ('k \<Rightarrow> int \<Rightarrow> bytes) \<Rightarrow> ('k \<Rightarrow> int \<Rightarrow> bytes) \<Rightarrow> tcp_segment set \<Rightarrow>
   tcp_config \<Rightarrow> u32 \<Rightarrow> int \<Rightarrow> 'k \<Rightarrow> u64 \<times> ('a, 'k) sponge_rule list \<times> ('a, 'k) sponge_socket \<Rightarrow> bool" where
  "sponge_started ad sc en taken given net cfg r n k0 s \<longleftrightarrow> kernel_ok sc taken given \<and> adapter_ok ad taken given n net \<and>
     clock_ok en taken given n \<and> sponge_ready ad sc cfg r s \<and> fd_fd (sp_thread_data (snd (snd s))) = n \<and> sp_kernel (snd (snd s)) = k0"

interpretation spt: invariant_system "sponge_started ad sc en taken given net cfg r n k0" "sponge_turn ad sc en"
  "turn_inv ad sc en taken given net k0 n (TCPConnection_new cfg r, [], [])"
  for ad :: "('a, 'k) datagram_adapter" and sc en taken given net cfg r n k0
proof unfold_locales
  fix s t :: "u64 \<times> ('a, 'k) sponge_rule list \<times> ('a, 'k) sponge_socket"
  show "turn_inv ad sc en taken given net k0 n (TCPConnection_new cfg r, [], []) s"
    if "sponge_started ad sc en taken given net cfg r n k0 s"
    using that ready_inv [of sc taken given ad n net en cfg r "fst s" "fst (snd s)" "snd (snd s)"] by (simp add: sponge_started_def)
  show "turn_inv ad sc en taken given net k0 n (TCPConnection_new cfg r, [], []) t"
    if "turn_inv ad sc en taken given net k0 n (TCPConnection_new cfg r, [], []) s" "sponge_turn ad sc en s t"
    by (rule turn_inv_step [OF that])
qed

end
