(* ===== verification/Socket_Delivery.thy ===== *)
theory Socket_Delivery
  imports Socket_Runs Pipes
begin

text \<open>
  What a \<^verbatim>\<open>TCPSpongeSocket\<close> delivers between the owner's pipe and the network, that the adapters of
  the repository meet the contract that this relies on, and what goes wrong when a connection is
  reset or aborted. The concrete runs use the kernel of pipes and an adapter that reads the same
  segment again and again.
\<close>

subsection \<open>A turn of the loop\<close>

text \<open>An adapter that reads the same segment again and again.\<close>

definition line_device :: "tcp_segment \<Rightarrow> (fd_wrapper, 'k) datagram_adapter" where
  "line_device seg = \<lparr>da_fd = (\<lambda>a. a), da_read = (\<lambda>a k. Inr (Some seg, register_read a, k)),
     da_write = (\<lambda>seg a k. Inr (register_write a, k)), da_tick = (\<lambda>ms a k. Inr (a, k)),
     da_config_mut = (\<lambda>cfg a. a), da_set_listening = (\<lambda>l a. a)\<rparr>"

definition demo_clock :: "pipes environment" where
  "demo_clock = \<lparr>en_timestamp_ms = (\<lambda>k. (10, k)), en_abort = (\<lambda>k. False)\<rparr>"

definition demo_first :: tcp_segment where
  "demo_first = TCPSegment_new\<lparr>ts_header := TCPHeader_new\<lparr>th_syn := True, th_seqno := wrap 0 (WrappingInt32 5)\<rparr>\<rparr>"

definition demo_socket :: "(fd_wrapper, pipes) sponge_socket" where
  "demo_socket = \<lparr>sp_socket = fd_open 4, sp_thread_data = fd_open 5, sp_adapter = fd_open 6,
     sp_tcp = Some (TCPConnection_new TCPConfig_new 0), sp_inbound_shutdown = False, sp_outbound_shutdown = False, sp_fully_acked = False,
     sp_kernel = \<lparr>pi_pending = (\<lambda>fd. [])(5 := [7, 8]), pi_taken = (\<lambda>fd. []), pi_given = (\<lambda>fd. [])\<rparr>\<rparr>"

lemma line_device_ok: "seg \<in> net \<Longrightarrow> adapter_ok (line_device seg) taken given n net"
  by (auto simp: adapter_ok_def apart_def line_device_def register_read_def register_write_def)

lemma demo_first_genuine: "genuine (WrappingInt32 5) [4] 0 demo_first"
  by code_simp

lemma demo_new:
  "TCPConnection_active (TCPConnection_new TCPConfig_new 0)" "TCPConnection_remaining_outbound_capacity (TCPConnection_new TCPConfig_new 0) = 64000"
  "ByteStream_buffer_empty (inbound_stream (TCPConnection_new TCPConfig_new 0))" "\<not> ByteStream_eof (inbound_stream (TCPConnection_new TCPConfig_new 0))"
  "\<not> bs_error (inbound_stream (TCPConnection_new TCPConfig_new 0))" "tc_segments_out (TCPConnection_new TCPConfig_new 0) = []"
  by code_simp+

lemma demo_conn:
  "case TCPConnection_segment_received demo_first (TCPConnection_new TCPConfig_new 0) of Inl _ \<Rightarrow> False
   | Inr c1 \<Rightarrow> TCPConnection_remaining_outbound_capacity c1 = 64000 \<and> TCPConnection_active c1 \<and>
      (case TCPConnection_write [7, 8] c1 of Inl _ \<Rightarrow> False | Inr (n, c2) \<Rightarrow> n = 2 \<and> TCPConnection_active c2)"
  by code_simp

lemma sponge_rule_sel:
  "ru_fd (sponge_rule1 ad) w = da_fd ad (sp_adapter w)" "ru_fd (sponge_rule2 sc) w = sp_thread_data w"
  "ru_fd (sponge_rule3 sc) w = sp_thread_data w" "ru_fd (sponge_rule4 ad) w = da_fd ad (sp_adapter w)"
  "ru_direction (sponge_rule1 ad) = In" "ru_direction (sponge_rule2 sc) = In"
  "ru_direction (sponge_rule3 sc) = Out" "ru_direction (sponge_rule4 ad) = Out"
  by (simp_all add: sponge_rule1_def sponge_rule2_def sponge_rule3_def sponge_rule4_def)

lemma sponge_interests:
  assumes "sp_tcp w = Some tcp"
  shows "ru_interest (sponge_rule1 ad) w \<longleftrightarrow> TCPConnection_active tcp"
    "ru_interest (sponge_rule2 sc) w \<longleftrightarrow> TCPConnection_active tcp \<and> \<not> sp_outbound_shutdown w \<and> 0 < TCPConnection_remaining_outbound_capacity tcp"
    "ru_interest (sponge_rule3 sc) w \<longleftrightarrow> \<not> ByteStream_buffer_empty (inbound_stream tcp) \<or>
           (ByteStream_eof (inbound_stream tcp) \<or> bs_error (inbound_stream tcp)) \<and> \<not> sp_inbound_shutdown w"
    "ru_interest (sponge_rule4 ad) w \<longleftrightarrow> tc_segments_out tcp \<noteq> []"
  using assms by (simp_all add: sponge_rule1_def sponge_rule2_def sponge_rule3_def sponge_rule4_def)

lemma sponge_receives:
  assumes "sp_tcp w = Some tcp" and "da_read ad (sp_adapter w) (sp_kernel w) = Inr (Some seg, a, k)"
    and "TCPConnection_segment_received seg tcp = Inr tcp'" and "\<not> fd_eof (sp_thread_data w)"
  shows "ru_callback (sponge_rule1 ad) w = Inr (w\<lparr>sp_adapter := a, sp_kernel := k, sp_tcp := Some tcp'\<rparr>)"
  using assms by (simp add: sponge_rule1_def with_tcp_def)

lemma sponge_takes:
  assumes "sp_tcp w = Some tcp"
    and "FileDescriptor_read sc (TCPConnection_remaining_outbound_capacity tcp) (sp_thread_data w) (sp_kernel w) = Inr (data, fd, k)"
    and "TCPConnection_write data tcp = Inr (size64 data, tcp')" and "\<not> fd_eof fd"
  shows "ru_callback (sponge_rule2 sc) w = Inr (w\<lparr>sp_thread_data := fd, sp_kernel := k, sp_tcp := Some tcp'\<rparr>)"
  using assms by (simp add: sponge_rule2_def with_tcp_def)

lemma demo_turn: "\<exists>c a. tcp_turn (line_device demo_first) pipe_kernel demo_clock (0, sponge_rules (line_device demo_first) pipe_kernel, demo_socket) =
   Inr (True, 10, sponge_rules (line_device demo_first) pipe_kernel, demo_socket\<lparr>sp_thread_data := register_read (fd_open 5), sp_adapter := a, sp_tcp := Some c,
     sp_kernel := \<lparr>pi_pending = (\<lambda>fd. []), pi_taken = (\<lambda>fd. [])(5 := [7, 8]), pi_given = (\<lambda>fd. [])\<rparr>\<rparr>)"
proof -
  let ?ad = "line_device demo_first :: (fd_wrapper, pipes) datagram_adapter" and ?sc = pipe_kernel
  obtain c1 c2 where c: "TCPConnection_segment_received demo_first (TCPConnection_new TCPConfig_new 0) = Inr c1"
    "TCPConnection_remaining_outbound_capacity c1 = 64000" "TCPConnection_active c1" "TCPConnection_write [7, 8] c1 = Inr (2, c2)" "TCPConnection_active c2"
    using demo_conn by (auto split: sum.splits)
  let ?k = "\<lparr>pi_pending = (\<lambda>fd. []), pi_taken = (\<lambda>fd. [])(5 := [7, 8]), pi_given = (\<lambda>fd. [])\<rparr>"
  let ?w1 = "demo_socket\<lparr>sp_adapter := register_read (fd_open 6), sp_tcp := Some c1\<rparr>"
  let ?w2 = "?w1\<lparr>sp_thread_data := register_read (fd_open 5), sp_kernel := ?k, sp_tcp := Some c2\<rparr>"
  have d: "sp_tcp demo_socket = Some (TCPConnection_new TCPConfig_new 0)" "sp_adapter demo_socket = fd_open 6" "sp_thread_data demo_socket = fd_open 5"
    "\<not> sp_outbound_shutdown demo_socket" "\<not> sp_inbound_shutdown demo_socket"
    "sp_kernel demo_socket = \<lparr>pi_pending = (\<lambda>fd. [])(5 := [7, 8]), pi_taken = (\<lambda>fd. []), pi_given = (\<lambda>fd. [])\<rparr>"
    by (simp_all add: demo_socket_def)
  have f: "fd_fd (fd_open n) = n" "\<not> fd_eof (fd_open n)" "\<not> fd_closed (fd_open n)" "fd_read_count (fd_open n) = 0" for n by (simp_all add: fd_open_def)
  have rc: "fd_read_count (register_read fd) = fd_read_count fd + 1" for fd by (simp add: register_read_def)
  have l: "da_fd ?ad a = a" "da_read ?ad a k = Inr (Some demo_first, register_read a, k)" "da_tick ?ad ms a k = Inr (a, k)" for a k ms
    by (simp_all add: line_device_def)
  have p: "sponge_poll ?sc ps t w = (int (length ps), 0, map snd ps, w)" for ps t and w :: "(fd_wrapper, pipes) sponge_socket"
    by (simp add: sponge_poll_def pipe_kernel_def)
  have r1: "ru_callback (sponge_rule1 ?ad) demo_socket = Inr ?w1"
    using sponge_receives [of demo_socket _ ?ad, OF d(1)] c(1) by (simp add: d l f)
  have "FileDescriptor_read ?sc 64000 (fd_open 5) (sp_kernel demo_socket) = Inr ([7, 8], register_read (fd_open 5), ?k)"
    using pipe_read [of "sp_kernel demo_socket" "fd_open 5" 64000] by (simp add: d f Let_def) (simp add: fun_eq_iff)
  then have r2: "ru_callback (sponge_rule2 ?sc) ?w1 = Inr ?w2"
    using sponge_takes [of ?w1 c1 ?sc "[7, 8]" "register_read (fd_open 5)" ?k c2] c by (simp add: d f register_read_def size64_def)
  have "setup_polls (sponge_rules ?ad ?sc) demo_socket = Inr ([(sponge_rule1 ?ad, 6, POLLIN), (sponge_rule2 ?sc, 5, POLLIN),
      (sponge_rule3 ?sc, 5, 0), (sponge_rule4 ?ad, 6, 0)], demo_socket)"
    using sponge_interests [OF d(1)] by (simp add: sponge_rules_def sponge_rule_sel d f l demo_new)
  moreover have "service_polls [(sponge_rule1 ?ad, POLLIN, POLLIN), (sponge_rule2 ?sc, POLLIN, POLLIN), (sponge_rule3 ?sc, 0, 0), (sponge_rule4 ?ad, 0, 0)]
      demo_socket = Inr (sponge_rules ?ad ?sc, ?w2)"
    by (simp add: r1 r2 poll_ready_def poll_hup_def POLLIN_def POLLERR_def POLLNVAL_def POLLHUP_def Rule_service_count_def sponge_rule_sel
        d f l rc sponge_rules_def)
  ultimately have "EventLoop_wait_next_event (sponge_poll ?sc) TCP_TICK_MS (sponge_rules ?ad ?sc) demo_socket = Inr (Success, sponge_rules ?ad ?sc, ?w2)"
    by (simp add: EventLoop_wait_next_event_def p POLLIN_def SystemCall_def signed_take_bit_31 sponge_rules_def Let_def)
  then show ?thesis
    by (intro exI [of _ "TCPConnection_tick 10 c2"] exI [of _ "register_read (fd_open 6)"]) (simp add: tcp_turn_def demo_clock_def c l)
qed


lemma demo_ready:
  "sponge_ready (line_device demo_first) pipe_kernel TCPConfig_new 0 (0, sponge_rules (line_device demo_first) pipe_kernel, demo_socket)"
  "clock_ok demo_clock pi_taken pi_given n" "5 = fd_fd (sp_thread_data demo_socket)"
  by (simp_all add: sponge_ready_def clock_ok_def demo_clock_def demo_socket_def line_device_def fd_open_def)

lemma demo_turns: "\<exists>c a. (sponge_turn (line_device demo_first) pipe_kernel demo_clock)\<^sup>*\<^sup>*
   (0, sponge_rules (line_device demo_first) pipe_kernel, demo_socket)
   (10, sponge_rules (line_device demo_first) pipe_kernel, demo_socket\<lparr>sp_thread_data := register_read (fd_open 5), sp_adapter := a, sp_tcp := Some c,
     sp_kernel := \<lparr>pi_pending = (\<lambda>fd. []), pi_taken = (\<lambda>fd. [])(5 := [7, 8]), pi_given = (\<lambda>fd. [])\<rparr>\<rparr>)"
proof -
  obtain c a where "tcp_turn (line_device demo_first) pipe_kernel demo_clock (0, sponge_rules (line_device demo_first) pipe_kernel, demo_socket) =
    Inr (True, 10, sponge_rules (line_device demo_first) pipe_kernel, demo_socket\<lparr>sp_thread_data := register_read (fd_open 5), sp_adapter := a,
     sp_tcp := Some c, sp_kernel := \<lparr>pi_pending = (\<lambda>fd. []), pi_taken = (\<lambda>fd. [])(5 := [7, 8]), pi_given = (\<lambda>fd. [])\<rparr>\<rparr>)"
    using demo_turn by blast
  then show ?thesis by (intro exI [of _ c] exI [of _ a] r_into_rtranclp) (auto simp: sponge_turn_def intro: exI [of _ True])
qed

subsection \<open>What the socket delivers\<close>

text \<open>
  C14. The thread of a socket refines an endpoint: whatever the kernel, the adapter and the owner
  do, after any number of turns of \<^verbatim>\<open>_tcp_loop\<close> the socket's connection is one that the steps of
  an endpoint (receiving a segment that the adapter delivered, writing, ending the stream,
  letting time pass, reading, handing a segment over) lead to from a new connection, and in these
  steps exactly the bytes read from the owner's pipe were written to the connection and exactly
  the bytes written to the pipe were read from it.
\<close>

theorem socket_refines_endpoint:
  assumes "kernel_ok sc taken given" and "n = fd_fd (sp_thread_data w0)" and "adapter_ok ad taken given n net"
    and "clock_ok en taken given n" and "sponge_ready ad sc cfg r (t0, rules0, w0)"
    and "(sponge_turn ad sc en)\<^sup>*\<^sup>* (t0, rules0, w0) (t, rules, w)"
  shows "\<exists>tcp W out. sp_tcp w = Some tcp \<and> taken (sp_kernel w) n = taken (sp_kernel w0) n @ W \<and>
     given (sp_kernel w) n = given (sp_kernel w0) n @ out \<and>
     (length W < 2147483640 \<longrightarrow> (sock_move net)\<^sup>*\<^sup>* (TCPConnection_new cfg r, [], []) (tcp, W, out))"
proof -
  have "sponge_started ad sc en taken given net cfg r n (sp_kernel w0) (t0, rules0, w0)"
    using assms(1-5) by (simp add: sponge_started_def)
  from spt.steps_inv [OF assms(6) spt.init_inv [OF this]] show ?thesis by (auto simp: turn_inv_def sp_inv_def sp_sim_def)
qed

theorem socket_refines_endpoint_witness:
  "\<exists>t rules w tcp out. (sponge_turn (line_device demo_first) pipe_kernel demo_clock)\<^sup>*\<^sup>*
       (0, sponge_rules (line_device demo_first) pipe_kernel, demo_socket) (t, rules, w) \<and> sp_tcp w = Some tcp \<and>
     (sock_move UNIV)\<^sup>*\<^sup>* (TCPConnection_new TCPConfig_new 0, [], []) (tcp, [7, 8], out)"
proof -
  obtain c a where st: "(sponge_turn (line_device demo_first) pipe_kernel demo_clock)\<^sup>*\<^sup>*
     (0, sponge_rules (line_device demo_first) pipe_kernel, demo_socket)
     (10, sponge_rules (line_device demo_first) pipe_kernel, demo_socket\<lparr>sp_thread_data := register_read (fd_open 5), sp_adapter := a, sp_tcp := Some c,
       sp_kernel := \<lparr>pi_pending = (\<lambda>fd. []), pi_taken = (\<lambda>fd. [])(5 := [7, 8]), pi_given = (\<lambda>fd. [])\<rparr>\<rparr>)"
    (is "_ (10, _, ?w)") using demo_turns by blast
  from socket_refines_endpoint [OF pipe_kernel_ok demo_ready(3) line_device_ok [OF UNIV_I] demo_ready(2,1) st]
  obtain out where "(sock_move UNIV)\<^sup>*\<^sup>* (TCPConnection_new TCPConfig_new 0, [], []) (c, [7, 8], out)"
    by (auto simp: demo_socket_def)
  with st show ?thesis
    by (intro exI [of _ 10] exI [of _ "sponge_rules (line_device demo_first) pipe_kernel"] exI [of _ ?w] exI [of _ c] exI [of _ out]) simp
qed

lemma moves_half:
  assumes "(sock_move net)\<^sup>*\<^sup>* e e'" and "half isn pisn D S e snt" and "length S < 2147483640"
    and "\<forall>seg \<in> net. \<exists>q. genuine pisn S q seg"
  shows "\<exists>D' snt'. half isn pisn D' S e' snt'"
  using assms(1,2)
proof (induction rule: rtranclp_induct)
  case (step a b)
  then obtain D' snt' where h: "half isn pisn D' S a snt'" by blast
  from step.hyps(2) show ?case
  proof cases
    case move
    from half_step [OF h assms(3,4) this] show ?thesis by blast
  next
    case (send c seg rest W out)
    from half_sends [of isn pisn D' S c W out snt' seg rest] h send show ?thesis by blast
  qed
qed blast

lemma half_new:
  assumes "unat (cf_recv_capacity cfg) < 9223372036854775808"
  shows "half (isn_of cfg r) pisn [] S (TCPConnection_new cfg r, [], []) {}"
  using assms cn_inv_new [of cfg r pisn S] by (simp add: half_def isn_of_def)
    (simp add: TCPConnection_new_def TCPReceiver_new_def TCPSender_new_def)

text \<open>
  C13. A socket delivers its peer's stream in order: when every segment that the adapter
  delivers is one that a peer with initial sequence number \<open>pisn\<close> may send for the stream \<open>S\<close>, after
  any number of turns the bytes written to the owner's pipe, followed by those that wait to be
  written, are a beginning of \<open>S\<close>; and every segment that waits to be sent carries the bytes read
  from the owner's pipe at their place. This holds while less than \<open>2 ^ 31 - 8\<close> bytes have been read
  from the pipe.
\<close>

theorem socket_delivers_prefix:
  assumes "kernel_ok sc taken given" and "n = fd_fd (sp_thread_data w0)"
    and "adapter_ok ad taken given n {seg. \<exists>q. genuine pisn S q seg}" and "length S < 2147483640"
    and "clock_ok en taken given n" and "sponge_ready ad sc cfg r (t0, rules0, w0)" and "unat (cf_recv_capacity cfg) < 9223372036854775808"
    and "(sponge_turn ad sc en)\<^sup>*\<^sup>* (t0, rules0, w0) (t, rules, w)"
    and "length (taken (sp_kernel w) n) < length (taken (sp_kernel w0) n) + 2147483640"
  shows "\<exists>tcp W out. sp_tcp w = Some tcp \<and> taken (sp_kernel w) n = taken (sp_kernel w0) n @ W \<and>
     given (sp_kernel w) n = given (sp_kernel w0) n @ out \<and>
     (\<exists>m. out @ bs_contents (inbound_stream tcp) = take m S) \<and>
     (\<forall>seg \<in> set (tc_segments_out tcp). \<exists>q. genuine (isn_of cfg r) W q seg)"
proof -
  have "sponge_started ad sc en taken given {seg. \<exists>q. genuine pisn S q seg} cfg r n (sp_kernel w0) (t0, rules0, w0)"
    using assms(1-6) by (simp add: sponge_started_def)
  from spt.steps_inv [OF assms(8) spt.init_inv [OF this]] obtain tcp W out where
    w: "sp_tcp w = Some tcp" "taken (sp_kernel w) n = taken (sp_kernel w0) n @ W" "given (sp_kernel w) n = given (sp_kernel w0) n @ out"
    and mv: "length W < 2147483640 \<longrightarrow> (sock_move {seg. \<exists>q. genuine pisn S q seg})\<^sup>*\<^sup>* (TCPConnection_new cfg r, [], []) (tcp, W, out)"
    by (auto simp: turn_inv_def sp_inv_def sp_sim_def)
  have "length W < 2147483640" using assms(9) w(2) by simp
  from moves_half [OF mv [rule_format, OF this] half_new [OF assms(7), where pisn = pisn] assms(4)] obtain D snt where
    h: "half (isn_of cfg r) pisn D S (tcp, W, out) snt" by auto
  then have c: "cn_inv (isn_of cfg r) pisn S D tcp out" and W: "W = D @ bs_contents (sn_stream (tc_sender tcp))" by (simp_all add: half_def)
  have "\<exists>m. out @ bs_contents (inbound_stream tcp) = take m S"
    using c by (auto simp: cn_inv_def rc_inv_def ra_data_def inbound_stream_def)
  moreover have "\<exists>q. genuine (isn_of cfg r) W q seg" if "seg \<in> set (tc_segments_out tcp)" for seg
    using c that genuine_mono unfolding cn_inv_def W sent_at_def by blast
  ultimately show ?thesis using w by blast
qed

theorem socket_delivers_prefix_witness:
  "\<exists>t rules w tcp m. (sponge_turn (line_device demo_first) pipe_kernel demo_clock)\<^sup>*\<^sup>*
       (0, sponge_rules (line_device demo_first) pipe_kernel, demo_socket) (t, rules, w) \<and> sp_tcp w = Some tcp \<and>
     pi_taken (sp_kernel w) 5 = [7, 8] \<and> pi_given (sp_kernel w) 5 @ bs_contents (inbound_stream tcp) = take m [4]"
proof -
  obtain c a where st: "(sponge_turn (line_device demo_first) pipe_kernel demo_clock)\<^sup>*\<^sup>*
     (0, sponge_rules (line_device demo_first) pipe_kernel, demo_socket)
     (10, sponge_rules (line_device demo_first) pipe_kernel, demo_socket\<lparr>sp_thread_data := register_read (fd_open 5), sp_adapter := a, sp_tcp := Some c,
       sp_kernel := \<lparr>pi_pending = (\<lambda>fd. []), pi_taken = (\<lambda>fd. [])(5 := [7, 8]), pi_given = (\<lambda>fd. [])\<rparr>\<rparr>)"
    (is "_ (10, _, ?w)") using demo_turns by blast
  have "demo_first \<in> {seg. \<exists>q. genuine (WrappingInt32 5) [4] q seg}" using demo_first_genuine by blast
  note ok = line_device_ok [OF this]
  have "unat (cf_recv_capacity TCPConfig_new) < 9223372036854775808" by (simp add: TCPConfig_new_def DEFAULT_CAPACITY_def)
  from socket_delivers_prefix [OF pipe_kernel_ok demo_ready(3) ok _ demo_ready(2,1) this st]
  obtain m where "bs_contents (inbound_stream c) = take m [4]" by (auto simp: demo_socket_def)
  with st show ?thesis by (intro exI [of _ 10] exI [of _ "sponge_rules (line_device demo_first) pipe_kernel"] exI [of _ ?w] exI [of _ c] exI [of _ m]) simp
qed

subsection \<open>The adapters\<close>

lemma tun_device_ok:
  assumes k: "kernel_ok sc taken given"
  shows "adapter_ok (tun_device rs sc) taken given n UNIV"
proof -
  have "apart (tun_device rs sc) taken given n (fa, tun) k (fa', tun') k'"
    if "da_read (tun_device rs sc) (fa, tun) k = Inr (seg, (fa', tun'), k')" "fd_fd tun \<noteq> n" for fa tun k seg fa' tun' k'
    using that FileDescriptor_read_ok [OF k] by (fastforce simp: apart_def tun_device_def rbind_eq_Inr)
  moreover have "apart (tun_device rs sc) taken given n (fa, tun) k (fa', tun') k'"
    if "da_write (tun_device rs sc) seg (fa, tun) k = Inr ((fa', tun'), k')" "fd_fd tun \<noteq> n" for fa tun k seg fa' tun' k'
    using that FileDescriptor_write_frame [OF k] by (fastforce simp: apart_def tun_device_def rbind_eq_Inr)
  ultimately show ?thesis
    unfolding adapter_ok_def by (auto simp: tun_device_def apart_def split: option.split)
qed

lemma write_frames_frame:
  assumes k: "kernel_ok sc taken given"
  shows "write_frames sc frames tap k0 = Inr (tap', k') \<Longrightarrow>
     taken k' = taken k0 \<and> (\<forall>x. x \<noteq> fd_fd tap \<longrightarrow> given k' x = given k0 x) \<and> fd_fd tap' = fd_fd tap"
proof (induction frames arbitrary: tap k0)
  case (Cons frame frames)
  from Cons.prems obtain m tap1 k1 where w: "FileDescriptor_write sc (BufferViewList_of frame) True tap k0 = Inr (m, tap1, k1)"
    "write_frames sc frames tap1 k1 = Inr (tap', k')" by (auto simp: rbind_eq_Inr)
  from FileDescriptor_write_frame [OF k w(1)] Cons.IH [OF w(2)] show ?case by auto
qed simp

lemma tap_device_ok:
  assumes k: "kernel_ok sc taken given"
  shows "adapter_ok (tap_device rs sc) taken given n UNIV"
proof -
  have fd: "da_fd (tap_device rs sc) a = snd a" for a by (simp add: tap_device_def)
  have r: "apart (tap_device rs sc) taken given n (ea, tap) k0 (ea', tap') k'"
    if r: "da_read (tap_device rs sc) (ea, tap) k0 = Inr (seg, (ea', tap'), k')" and n: "fd_fd tap \<noteq> n" for ea tap k0 seg ea' tap' k'
  proof -
    from r obtain s tap1 k1 out where "FileDescriptor_read sc SIZE_T_MAX tap k0 = Inr (s, tap1, k1)" "write_frames sc out tap1 k1 = Inr (tap', k')"
      by (auto simp: tap_device_def rbind_eq_Inr)
    from FileDescriptor_read_ok [OF k this(1)] write_frames_frame [OF k this(2)] n show ?thesis by (simp add: apart_def fd)
  qed
  have w: "apart (tap_device rs sc) taken given n (ea, tap) k0 (ea', tap') k'"
    if r: "da_write (tap_device rs sc) seg (ea, tap) k0 = Inr ((ea', tap'), k')" and n: "fd_fd tap \<noteq> n" for ea tap k0 seg ea' tap' k'
  proof -
    from r obtain out where "write_frames sc out tap k0 = Inr (tap', k')" by (auto simp: tap_device_def rbind_eq_Inr)
    from write_frames_frame [OF k this] n show ?thesis by (simp add: apart_def fd)
  qed
  have t: "apart (tap_device rs sc) taken given n (ea, tap) k0 (ea', tap') k'"
    if r: "da_tick (tap_device rs sc) ms (ea, tap) k0 = Inr ((ea', tap'), k')" and n: "fd_fd tap \<noteq> n" for ea tap k0 ms ea' tap' k'
  proof -
    from r obtain out where "write_frames sc out tap k0 = Inr (tap', k')"
      by (cases "EthernetAdapter_tick ms ea") (auto simp: tap_device_def rbind_eq_Inr)
    from write_frames_frame [OF k this] n show ?thesis by (simp add: apart_def fd)
  qed
  show ?thesis unfolding adapter_ok_def using r w t by (simp add: fd split: option.split)
qed

text \<open>Datagrams do not count as bytes read from or written to a descriptor.\<close>

definition datagrams_quiet :: "'k socket_calls \<Rightarrow> ('k \<Rightarrow> int \<Rightarrow> bytes) \<Rightarrow> ('k \<Rightarrow> int \<Rightarrow> bytes) \<Rightarrow> bool" where
  "datagrams_quiet so taken given \<longleftrightarrow>
     (\<forall>fd n k ret err filled source fromlen k'. so_recvfrom so fd n k = (ret, err, filled, source, fromlen, k') \<longrightarrow>
        taken k' = taken k \<and> given k' = given k) \<and>
     (\<forall>fd dest iov k ret err k'. so_sendmsg so fd dest iov k = (ret, err, k') \<longrightarrow> taken k' = taken k \<and> given k' = given k)"

lemma udp_device_ok:
  assumes q: "datagrams_quiet so taken given"
  shows "adapter_ok (udp_device rs so) taken given n UNIV"
proof -
  have "taken k' = taken k0 \<and> given k' = given k0 \<and> fd_fd fd' = fd_fd fd" if "UDPSocket_recv so m fd k0 = Inr (dg, fd', k')" for m fd k0 dg fd' k'
    using that q by (auto simp: UDPSocket_recv_def datagrams_quiet_def Let_def rbind_eq_Inr register_read_def split: prod.splits if_splits)
  moreover have "taken k' = taken k0 \<and> given k' = given k0 \<and> fd_fd fd' = fd_fd fd"
    if "UDPSocket_sendto so dst vs fd k0 = Inr (fd', k')" for dst vs fd k0 fd' k'
    using that q by (auto simp: UDPSocket_sendto_def sendmsg_helper_def datagrams_quiet_def Let_def rbind_eq_Inr register_write_def
        split: prod.splits if_splits)
  ultimately show ?thesis
    unfolding adapter_ok_def by (fastforce simp: udp_device_def apart_def rbind_eq_Inr split: option.split)
qed

subsection \<open>Resets and aborts\<close>

lemma reset_inactive:
  assumes "TCPConnection_active tcp" and "th_rst (ts_header seg)"
  shows "\<exists>tcp'. TCPConnection_segment_received seg tcp = Inr tcp' \<and> \<not> TCPConnection_active tcp' \<and>
     TCPConnection_remaining_outbound_capacity tcp' = TCPConnection_remaining_outbound_capacity tcp"
proof -
  define tcp' where "tcp' = (set_inbound_stream (ByteStream_set_error (inbound_stream tcp))
    (set_outbound_stream (ByteStream_set_error (sn_stream (tc_sender tcp))) (tcp\<lparr>tc_time_since_last_segment_received := 0\<rparr>)))\<lparr>tc_linger := False\<rparr>"
  have "TCPConnection_segment_received seg tcp = Inr tcp'"
    using assms by (simp add: TCPConnection_segment_received_def Let_def tcp'_def inbound_stream_def set_outbound_stream_def)
  moreover have "bs_error (sn_stream (tc_sender tcp'))" "bs_error (inbound_stream tcp')"
    by (simp_all add: tcp'_def set_inbound_stream_def set_outbound_stream_def inbound_stream_def ByteStream_set_error_def)
  then have "\<not> TCPConnection_active tcp'" by (simp add: TCPConnection_active_def Let_def)
  moreover have "TCPConnection_remaining_outbound_capacity tcp' = TCPConnection_remaining_outbound_capacity tcp"
    by (simp add: TCPConnection_remaining_outbound_capacity_def tcp'_def set_inbound_stream_def set_outbound_stream_def
        ByteStream_set_error_def ByteStream_remaining_capacity_def)
  ultimately show ?thesis by blast
qed

text \<open>
  C40. A finding: a reset can bring the whole program down. When a segment with the RST flag and
  data from the owner are ready in the same round, rule 1 makes the connection inactive, and
  rule 2, which is served next without another look at its interest, has its write refused: it
  throws, and the exception leaves the thread, so that the program is terminated.
\<close>

theorem reset_race_throws:
  assumes "sp_tcp w = Some tcp" and "TCPConnection_active tcp"
    and "da_read ad (sp_adapter w) (sp_kernel w) = Inr (Some seg, a, k)" and "th_rst (ts_header seg)"
    and "FileDescriptor_read sc (TCPConnection_remaining_outbound_capacity tcp) (sp_thread_data w) k = Inr (data, fd, k')"
    and "data \<noteq> []" and "str_ok data"
  shows "service_polls ((sponge_rule1 ad, POLLIN, POLLIN) # (sponge_rule2 sc, POLLIN, POLLIN) # its) w =
     Inl (Runtime_error ''TCPConnection::write() accepted less than advertised length'')"
proof -
  obtain tcp' where t: "TCPConnection_segment_received seg tcp = Inr tcp'" "\<not> TCPConnection_active tcp'"
    "TCPConnection_remaining_outbound_capacity tcp' = TCPConnection_remaining_outbound_capacity tcp"
    using reset_inactive [OF assms(2,4)] by blast
  have "\<exists>w1. ru_callback (sponge_rule1 ad) w = Inr w1 \<and> sp_tcp w1 = Some tcp' \<and> sp_thread_data w1 = sp_thread_data w \<and> sp_kernel w1 = k"
    using assms(1,3) t(1) by (simp add: sponge_rule1_def with_tcp_def Let_def)
  then obtain w1 where w1: "ru_callback (sponge_rule1 ad) w = Inr w1" "sp_tcp w1 = Some tcp'" "sp_thread_data w1 = sp_thread_data w" "sp_kernel w1 = k"
    by blast
  have "\<not> ru_interest (sponge_rule1 ad) w1" using w1(2) t(2) by (simp add: sponge_rule1_def)
  moreover have "size64 data \<noteq> 0" using assms(6,7) by (simp add: size64_eq_0_iff)
  then have "ru_callback (sponge_rule2 sc) w1 = Inl (Runtime_error ''TCPConnection::write() accepted less than advertised length'')"
    using w1 t(2,3) assms(5) by (simp add: sponge_rule2_def with_tcp_def TCPConnection_write_def)
  ultimately show ?thesis using w1(1)
    by (simp add: poll_ready_def poll_hup_def POLLIN_def POLLERR_def POLLNVAL_def POLLHUP_def)
qed

theorem reset_race_throws_witness:
  "service_polls [(sponge_rule1 (line_device (TCPSegment_new\<lparr>ts_header := TCPHeader_new\<lparr>th_rst := True\<rparr>\<rparr>)), POLLIN, POLLIN),
       (sponge_rule2 pipe_kernel, POLLIN, POLLIN)] demo_socket =
     Inl (Runtime_error ''TCPConnection::write() accepted less than advertised length'')"
proof (rule reset_race_throws)
  show "sp_tcp demo_socket = Some (TCPConnection_new TCPConfig_new 0)" by (simp add: demo_socket_def)
  show "TCPConnection_active (TCPConnection_new TCPConfig_new 0)" by (rule demo_new(1))
  let ?seg = "TCPSegment_new\<lparr>ts_header := TCPHeader_new\<lparr>th_rst := True\<rparr>\<rparr>"
  show "da_read (line_device ?seg) (sp_adapter demo_socket) (sp_kernel demo_socket) =
      Inr (Some ?seg, register_read (sp_adapter demo_socket), sp_kernel demo_socket)" by (simp add: line_device_def)
  show "FileDescriptor_read pipe_kernel (TCPConnection_remaining_outbound_capacity (TCPConnection_new TCPConfig_new 0))
      (sp_thread_data demo_socket) (sp_kernel demo_socket) = Inr ([7, 8], register_read (fd_open 5),
        \<lparr>pi_pending = (\<lambda>fd. [])(5 := []), pi_taken = (\<lambda>fd. [])(5 := [7, 8]), pi_given = (\<lambda>fd. [])\<rparr>)"
    using pipe_read [of "sp_kernel demo_socket" "fd_open 5" 64000] by (simp add: demo_new(2) demo_socket_def Let_def fd_open_def)
qed simp_all

text \<open>
  A finding: a socket that is destroyed while its connection is open sends no RST, although the
  header says so. The destructor of the connection puts the RST segment into the queue of the
  dying object; the thread has left its loop, and the adapter is not called again.
\<close>

theorem abort_sends_no_reset:
  assumes "tcp_loop fuel ad sc en (\<lambda>w. Inr True) s = Inr (rules, w)" and "sp_tcp w = Some tcp" and "TCPConnection_active tcp"
    and "tcp_main fuel ad sc en s = Inr (dead, rules', w')"
  shows "(\<exists>seg \<in> set (tc_segments_out dead). th_rst (ts_header seg)) \<and> sp_adapter w' = sp_adapter w \<and> sp_tcp w' = None"
proof -
  have "dead = TCPConnection_destroy tcp" "sp_adapter w' = sp_adapter w" "sp_tcp w' = None"
    using assms(1,2,4) by (auto simp: tcp_main_def with_tcp_def rbind_eq_Inr Let_def split: if_splits)
  moreover have "\<exists>seg \<in> set (tc_segments_out (TCPConnection_unclean_shutdown tcp)). th_rst (ts_header seg)"
    by (simp add: TCPConnection_unclean_shutdown_def Let_def)
  ultimately show ?thesis using assms(3) by (simp add: TCPConnection_destroy_def)
qed

end
