(* ===== verification/Printing.thy ===== *)
theory Printing
  imports Ethernet_ARP Address
begin

text \<open>
  What the library prints: \<^verbatim>\<open>to_string\<close> and \<^verbatim>\<open>summary\<close> of \<^verbatim>\<open>tcp_header.cc\<close>, \<^verbatim>\<open>ipv4_header.cc\<close>,
  \<^verbatim>\<open>ethernet_header.cc\<close> and \<^verbatim>\<open>arp_message.cc\<close> under \<^verbatim>\<open>libsponge/tcp_helpers\<close>, and \<^verbatim>\<open>hexdump\<close> of
  \<^verbatim>\<open>libsponge/util/util.cc\<close>. A stream that is written to is the string that it holds at the end; the
  manipulator \<^verbatim>\<open>hex\<close> lasts until the stream is gone, so the numbers after it are hexadecimal.
\<close>

subsection \<open>Numbers\<close>

definition hex_digit :: "nat \<Rightarrow> char" where
  "hex_digit n = (if n < 10 then char_of (48 + n) else char_of (87 + n))"

fun hex_string :: "nat \<Rightarrow> string" where
  "hex_string n = (if n < 16 then [hex_digit n] else hex_string (n div 16) @ [hex_digit (n mod 16)])"

declare hex_string.simps [simp del]

definition setw :: "nat \<Rightarrow> char \<Rightarrow> string \<Rightarrow> string" where
  "setw w fill s = replicate (w - length s) fill @ s"

definition hex_word :: "'l :: len word \<Rightarrow> string" where
  "hex_word w = hex_string (unat w)"

definition dec_word :: "'l :: len word \<Rightarrow> string" where
  "dec_word w = dec_string (unat w)"

definition boolalpha :: "bool \<Rightarrow> string" where
  "boolalpha b = (if b then ''true'' else ''false'')"

definition endl :: string where
  "endl = [char_of (10 :: nat)]"

text \<open>A string of bytes as characters and back.\<close>

definition chars_of :: "bytes \<Rightarrow> string" where
  "chars_of b = map (\<lambda>x. char_of (unat x)) b"

definition bytes_of :: "string \<Rightarrow> bytes" where
  "bytes_of s = map of_char s"

subsection \<open>Headers\<close>

definition TCPHeader_to_string :: "tcp_header \<Rightarrow> string" where
  "TCPHeader_to_string h =
     ''TCP source port: '' @ hex_word (th_sport h) @ endl @
     ''TCP dest port: '' @ hex_word (th_dport h) @ endl @
     ''TCP seqno: '' @ hex_word (raw_value (th_seqno h)) @ endl @
     ''TCP ackno: '' @ hex_word (raw_value (th_ackno h)) @ endl @
     ''TCP doff: '' @ hex_word (th_doff h) @ endl @
     ''Flags: urg: '' @ boolalpha (th_urg h) @ '' ack: '' @ boolalpha (th_ack h) @ '' psh: '' @ boolalpha (th_psh h) @
     '' rst: '' @ boolalpha (th_rst h) @ '' syn: '' @ boolalpha (th_syn h) @ '' fin: '' @ boolalpha (th_fin h) @ endl @
     ''TCP winsize: '' @ hex_word (th_win h) @ endl @
     ''TCP cksum: '' @ hex_word (th_cksum h) @ endl @
     ''TCP uptr: '' @ hex_word (th_uptr h) @ endl"

definition TCPHeader_summary :: "tcp_header \<Rightarrow> string" where
  "TCPHeader_summary h =
     ''Header(flags='' @ (if th_syn h then ''S'' else '''') @ (if th_ack h then ''A'' else '''') @
     (if th_rst h then ''R'' else '''') @ (if th_fin h then ''F'' else '''') @
     '',seqno='' @ dec_word (raw_value (th_seqno h)) @ '',ack='' @ dec_word (raw_value (th_ackno h)) @
     '',win='' @ dec_word (th_win h) @ '')''"

definition IPv4Header_to_string :: "ipv4_header \<Rightarrow> string" where
  "IPv4Header_to_string h =
     ''IP version: '' @ hex_word (ih_ver h) @ endl @
     ''IP hdr len: '' @ hex_word (ih_hlen h) @ endl @
     ''IP tos: '' @ hex_word (ih_tos h) @ endl @
     ''IP dgram len: '' @ hex_word (ih_len h) @ endl @
     ''IP id: '' @ hex_word (ih_id h) @ endl @
     ''Flags: df: '' @ boolalpha (ih_df h) @ '' mf: '' @ boolalpha (ih_mf h) @ endl @
     ''Offset: '' @ hex_word (ih_offset h) @ endl @
     ''TTL: '' @ hex_word (ih_ttl h) @ endl @
     ''Protocol: '' @ hex_word (ih_proto h) @ endl @
     ''Checksum: '' @ hex_word (ih_cksum h) @ endl @
     ''Src addr: '' @ hex_word (ih_src h) @ endl @
     ''Dst addr: '' @ hex_word (ih_dst h) @ endl"

definition IPv4Header_summary :: "resolver \<Rightarrow> ipv4_header \<Rightarrow> string" where
  "IPv4Header_summary rs h =
     ''IPv'' @ hex_word (ih_ver h) @ '', '' @
     ''len='' @ hex_word (ih_len h) @ '', '' @
     ''protocol='' @ hex_word (ih_proto h) @ '', '' @ (if 10 \<le> ih_ttl h then '''' else ''ttl='' @ dec_word (ih_ttl h) @ '', '') @
     ''src='' @ rs_inet_ntoa rs (be_bytes 4 (ih_src h)) @ '', '' @
     ''dst='' @ rs_inet_ntoa rs (be_bytes 4 (ih_dst h))"

fun EthernetAddress_to_string :: "ethernet_address \<Rightarrow> string" where
  "EthernetAddress_to_string [] = ''''"
| "EthernetAddress_to_string [b] = setw 2 (CHR ''0'') (hex_word b)"
| "EthernetAddress_to_string (b # c # bs) = setw 2 (CHR ''0'') (hex_word b) @ '':'' @ EthernetAddress_to_string (c # bs)"

definition EthernetHeader_to_string :: "ethernet_header \<Rightarrow> string" where
  "EthernetHeader_to_string h =
     ''dst='' @ EthernetAddress_to_string (eh_dst h) @
     '', src='' @ EthernetAddress_to_string (eh_src h) @
     '', type='' @
     (if eh_type h = TYPE_IPv4 then ''IPv4''
      else if eh_type h = TYPE_ARP then ''ARP''
      else ''[unknown type '' @ hex_word (eh_type h) @ ''!]'')"

definition ARPMessage_to_string :: "resolver \<Rightarrow> arp_message \<Rightarrow> string" where
  "ARPMessage_to_string rs m =
     (let opcode_str = ''(unknown type)'';
          opcode_str = (if am_opcode m = OPCODE_REQUEST then ''REQUEST'' else opcode_str);
          opcode_str = (if am_opcode m = OPCODE_REPLY then ''REPLY'' else opcode_str)
      in ''opcode='' @ opcode_str @ '', sender='' @ EthernetAddress_to_string (am_sender_ethernet_address m) @ ''/'' @
         rs_inet_ntoa rs (be_bytes 4 (am_sender_ip_address m)) @ '', target='' @
         EthernetAddress_to_string (am_target_ethernet_address m) @ ''/'' @
         rs_inet_ntoa rs (be_bytes 4 (am_target_ip_address m)))"

subsection \<open>Dumps\<close>

text \<open>
  \<^verbatim>\<open>pchars\<close> holds a blank when it is new, but is written from its beginning, so that the first character
  replaces the blank. The state of the loop is the output, \<^verbatim>\<open>pchars\<close>, the characters put into it, and
  \<^verbatim>\<open>printed\<close>.
\<close>

definition isprint :: "u8 \<Rightarrow> bool" where
  "isprint b \<longleftrightarrow> 32 \<le> b \<and> b < 127"

definition pchars_str :: "string \<Rightarrow> string" where
  "pchars_str put = (if put = [] then '' '' else put)"

fun hexdump_loop :: "string \<Rightarrow> bytes \<Rightarrow> string \<times> string \<times> nat \<Rightarrow> string \<times> string \<times> nat" where
  "hexdump_loop indent_string [] s = s"
| "hexdump_loop indent_string (b # data) (out, pchars, printed) =
     (let (out, pchars) =
        (if printed mod 16 = 0 then
           let (out, pchars) = (if printed \<noteq> 0 then (out @ ''    '' @ pchars_str pchars @ endl, '''') else (out, pchars))
           in (out @ indent_string @ setw 8 (CHR ''0'') (hex_string printed) @ '':    '', pchars)
         else if printed mod 2 = 0 then (out @ '' '', pchars)
         else (out, pchars));
          out = out @ setw 2 (CHR ''0'') (hex_word b);
          pchars = pchars @ [if isprint b then char_of (unat b) else CHR ''.'']
      in hexdump_loop indent_string data (out, pchars, printed + 1))"

definition hexdump :: "bytes \<Rightarrow> nat \<Rightarrow> string" where
  "hexdump data indent =
     (let indent_string = replicate indent (CHR '' '');
          (out, pchars, printed) = hexdump_loop indent_string data ('''', '''', 0);
          print_rem = (16 - printed mod 16) mod 16
      in out @ replicate (2 * print_rem + print_rem div 2 + 4) (CHR '' '') @ pchars_str pchars @ endl @ endl)"

subsection \<open>What the output determines\<close>

definition hex_value :: "char \<Rightarrow> nat" where
  "hex_value c = (if of_char c < (58 :: nat) then of_char c - 48 else of_char c - 87)"

lemma hex_value_digit [simp]: "n < 16 \<Longrightarrow> hex_value (hex_digit n) = n"
  by (auto simp: hex_value_def hex_digit_def)

lemma hex_digit_0: "hex_digit 0 = CHR ''0''"
  by code_simp

text \<open>A byte is printed as its two digits.\<close>

lemma setw_hex_byte:
  "setw 2 (CHR ''0'') (hex_word (b :: u8)) = [hex_digit (unat b div 16), hex_digit (unat b mod 16)]"
proof -
  have "unat b < 256" using unsigned_less [of b] by simp
  then have hi: "unat b div 16 < 16" by linarith
  show ?thesis
  proof (cases "unat b < 16")
    case True
    then show ?thesis
      by (simp add: hex_word_def hex_string.simps [of "unat b"] setw_def hex_digit_0)
  next
    case False
    with hi show ?thesis
      by (simp add: hex_word_def hex_string.simps [of "unat b"] hex_string.simps [of "unat b div 16"] setw_def)
  qed
qed

lemma hex_byte_inject:
  "setw 2 (CHR ''0'') (hex_word (b :: u8)) = setw 2 (CHR ''0'') (hex_word (c :: u8)) \<longleftrightarrow> b = c"
proof
  assume "setw 2 (CHR ''0'') (hex_word b) = setw 2 (CHR ''0'') (hex_word c)"
  then have d: "hex_digit (unat b div 16) = hex_digit (unat c div 16)" "hex_digit (unat b mod 16) = hex_digit (unat c mod 16)"
    by (simp_all add: setw_hex_byte)
  have "unat b < 256" "unat c < 256" using unsigned_less [of b] unsigned_less [of c] by simp_all
  then have "unat b div 16 < 16" "unat c div 16 < 16" by linarith+
  with d have "unat b div 16 = unat c div 16" "unat b mod 16 = unat c mod 16" using hex_value_digit by (metis, metis hex_value_digit mod_less_divisor zero_less_numeral)
  then have "unat b = unat c" by (metis div_mult_mod_eq)
  then show "b = c" by (simp add: unat_eq_iff)
qed simp

text \<open>An Ethernet address can be read from its string, which has 17 characters.\<close>

lemma EthernetAddress_to_string_length:
  "bs \<noteq> [] \<Longrightarrow> length (EthernetAddress_to_string bs) + 1 = 3 * length bs"
  by (induction bs rule: EthernetAddress_to_string.induct) (simp_all add: setw_hex_byte)

lemma EthernetAddress_to_string_inject:
  assumes "length bs = length cs" and "EthernetAddress_to_string bs = EthernetAddress_to_string cs"
  shows "bs = cs"
  using assms
proof (induction bs arbitrary: cs rule: EthernetAddress_to_string.induct)
  case (2 b)
  then obtain c where "cs = [c]" by (cases cs) auto
  with 2 show ?case by (simp add: hex_byte_inject)
next
  case (3 b b' bs)
  then obtain c c' cs' where cs: "cs = c # c' # cs'" by (cases cs; cases "tl cs") auto
  have "setw 2 (CHR ''0'') (hex_word b) = setw 2 (CHR ''0'') (hex_word c) \<and>
      EthernetAddress_to_string (b' # bs) = EthernetAddress_to_string (c' # cs')"
    using 3(3) by (simp add: cs setw_hex_byte)
  with 3(1) [of "c' # cs'"] 3(2) show ?case by (simp add: cs hex_byte_inject)
qed simp

text \<open>Every line of a dump ends with the characters of its bytes; the blank that \<^verbatim>\<open>pchars\<close> starts with is lost.\<close>

definition dump_char :: "u8 \<Rightarrow> char" where
  "dump_char b = (if isprint b then char_of (unat b) else CHR ''.'')"

lemma hexdump_loop_line:
  assumes "n + length data \<le> 16" and "0 < n"
  shows "\<exists>out'. hexdump_loop indent_string data (out, pchars, n) = (out', pchars @ map dump_char data, n + length data)"
  using assms
proof (induction data arbitrary: out pchars n)
  case (Cons b data)
  then have "n mod 16 \<noteq> 0" by simp
  then obtain o1 where "hexdump_loop indent_string (b # data) (out, pchars, n) = hexdump_loop indent_string data (o1, pchars @ [dump_char b], Suc n)"
    by (cases "n mod 2 = 0") (simp_all add: Let_def dump_char_def)
  with Cons.IH [of "Suc n" o1 "pchars @ [dump_char b]"] Cons.prems show ?case by simp
qed simp

lemma hexdump_short:
  assumes "data \<noteq> []" and "length data \<le> 16"
  shows "\<exists>front. hexdump data indent = front @ ''    '' @ map dump_char data @ endl @ endl"
proof -
  obtain b bs where d: "data = b # bs" using assms(1) by (cases data) auto
  let ?ind = "replicate indent (CHR '' '')"
  let ?out = "?ind @ setw 8 (CHR ''0'') (hex_string 0) @ '':    '' @ setw 2 (CHR ''0'') (hex_word b)"
  have "hexdump_loop ?ind data ([], [], 0) = hexdump_loop ?ind bs (?out, [dump_char b], 1)"
    by (simp add: d dump_char_def)
  then obtain out where l: "hexdump_loop ?ind data ([], [], 0) = (out, map dump_char data, length data)"
    using hexdump_loop_line [of 1 bs ?ind ?out "[dump_char b]"] assms(2) by (auto simp: d)
  have "replicate (n + 4) c = replicate n c @ [c, c, c, c]" for n and c :: char
    by (simp add: replicate_add [symmetric] numeral_eq_Suc replicate_append_same [symmetric])
  with l show ?thesis by (simp add: hexdump_def Let_def pchars_str_def d)
qed

end
