(* ===== verification/Network_Simulator.thy ===== *)
theory Network_Simulator
  imports Router Printing
begin

text \<open>
  \<^verbatim>\<open>apps/network_simulator.cc\<close>: six hosts and a router with seven interfaces, joined by simulated
  Ethernet links, and the test that sends datagrams between them. The random generator is a
  parameter: a function that gives a number and the next state of the generator. What is printed is
  computed where the computation may fail and then left out. \<^verbatim>\<open>std::unordered_map\<close> is an association
  list: the order of its elements is not specified, and only the choice of the host whose failure is
  reported first depends on it.
\<close>

subsection \<open>Random addresses\<close>

primrec random_bytes :: "('g \<Rightarrow> u32 \<times> 'g) \<Rightarrow> nat \<Rightarrow> 'g \<Rightarrow> bytes \<times> 'g" where
  "random_bytes rd 0 g = ([], g)"
| "random_bytes rd (Suc n) g = (let (x, g) = rd g; (bs, g) = random_bytes rd n g in (ucast x # bs, g))"

definition random_host_ethernet_address :: "('g \<Rightarrow> u32 \<times> 'g) \<Rightarrow> 'g \<Rightarrow> ethernet_address \<times> 'g" where
  "random_host_ethernet_address rd g =
     (let (addr, g) = random_bytes rd 6 g;
          addr = addr[0 := addr ! 0 OR 0x02];
          addr = addr[0 := addr ! 0 AND 0xfe]
      in (addr, g))"

definition random_router_ethernet_address :: "('g \<Rightarrow> u32 \<times> 'g) \<Rightarrow> 'g \<Rightarrow> ethernet_address \<times> 'g" where
  "random_router_ethernet_address rd g =
     (let (addr, g) = random_bytes rd 6 g;
          addr = addr[0 := 0x02];
          addr = addr[1 := 0];
          addr = addr[2 := 0]
      in (addr, g))"

definition ip_of :: "resolver \<Rightarrow> string \<Rightarrow> u32 res" where
  "ip_of rs str = rbind (Address_of_ip rs str 0) Address_ipv4_numeric"

subsection \<open>Frames\<close>

fun clear_queues :: "'a list \<Rightarrow> 'a list \<Rightarrow> ('a list \<times> 'a list) res" where
  "clear_queues [] queue2 = Inr ([], queue2)"
| "clear_queues (x # queue1) [] = Inl (Undefined_behaviour ''std::queue::pop'')"
| "clear_queues (x # queue1) (y # queue2) = clear_queues queue1 queue2"

definition frame_summary :: "resolver \<Rightarrow> ethernet_frame \<Rightarrow> string res" where
  "frame_summary rs frame =
     (let ret = EthernetHeader_to_string (ef_header frame) in
      if eh_type (ef_header frame) = TYPE_IPv4 then
        rbind (BufferList_to_Buffer (ef_payload frame)) (\<lambda>payload.
        rbind (IPv4Datagram_parse IPv4Datagram_new payload) (\<lambda>(r, dgram).
        if r = NoError
        then Inr (ret @ '' '' @ IPv4Header_summary rs (id_header dgram) @
               '' payload='' @ [char_of (34 :: nat)] @ chars_of (BufferList_concatenate (id_payload dgram)) @ [char_of (34 :: nat)])
        else Inr (ret @ '' (bad IPv4)'')))
      else if eh_type (ef_header frame) = TYPE_ARP then
        rbind (BufferList_to_Buffer (ef_payload frame)) (\<lambda>payload.
        rbind (ARPMessage_parse ARPMessage_new payload) (\<lambda>(r, arp).
        if r = NoError then Inr (ret @ '' '' @ ARPMessage_to_string rs arp) else Inr (ret @ '' (bad ARP)'')))
      else Inr ret)"

subsection \<open>Hosts\<close>

record host =
  ho_name :: string
  ho_my_address :: address
  ho_interface :: async_interface
  ho_next_hop :: address
  ho_expecting_to_receive :: "ipv4_datagram list"

definition datagram_bytes :: "ipv4_datagram \<Rightarrow> bytes res" where
  "datagram_bytes dgram = rbind (IPv4Datagram_serialize dgram) (\<lambda>bl. Inr (BufferList_concatenate bl))"

definition datagram_text :: "resolver \<Rightarrow> ipv4_datagram \<Rightarrow> string" where
  "datagram_text rs dgram = IPv4Header_summary rs (id_header dgram) @ '' payload='' @ [char_of (34 :: nat)] @
     chars_of (BufferList_concatenate (id_payload dgram)) @ [char_of (34 :: nat)]"

fun Host_expecting :: "ipv4_datagram list \<Rightarrow> ipv4_datagram \<Rightarrow> bool res" where
  "Host_expecting [] expected = Inr False"
| "Host_expecting (x # xs) expected =
     rbind (datagram_bytes x) (\<lambda>a. rbind (datagram_bytes expected) (\<lambda>b.
     if a = b then Inr True else Host_expecting xs expected))"

fun Host_remove_expectation :: "ipv4_datagram list \<Rightarrow> ipv4_datagram \<Rightarrow> ipv4_datagram list res" where
  "Host_remove_expectation [] expected = Inr []"
| "Host_remove_expectation (x # xs) expected =
     rbind (datagram_bytes x) (\<lambda>a. rbind (datagram_bytes expected) (\<lambda>b.
     if a = b then Inr xs else rbind (Host_remove_expectation xs expected) (\<lambda>xs. Inr (x # xs))))"

definition Host_new ::
  "('g \<Rightarrow> u32 \<times> 'g) \<Rightarrow> resolver \<Rightarrow> string \<Rightarrow> address \<Rightarrow> address \<Rightarrow> 'g \<Rightarrow> (host \<times> 'g) res" where
  "Host_new rd rs name my_address next_hop g =
     (let (eth, g) = random_host_ethernet_address rd g in
      rbind (NetworkInterface_new rs eth my_address) (\<lambda>ni.
      Inr (\<lparr>ho_name = name, ho_my_address = my_address, ho_interface = AsyncNetworkInterface_new ni,
            ho_next_hop = next_hop, ho_expecting_to_receive = []\<rparr>, g)))"

definition Host_send_to ::
  "('g \<Rightarrow> u32 \<times> 'g) \<Rightarrow> resolver \<Rightarrow> address \<Rightarrow> u8 \<Rightarrow> host \<Rightarrow> 'g \<Rightarrow> (ipv4_datagram \<times> host \<times> 'g) res" where
  "Host_send_to rd rs destination ttl h g =
     rbind (Address_ipv4_numeric (ho_my_address h)) (\<lambda>src.
     rbind (Address_ipv4_numeric destination) (\<lambda>dst.
     let (x, g) = rd g;
         payload = BufferList_of_string (bytes_of (''random payload: {'' @ dec_word x @ ''}''));
         len = ucast (ih_hlen IPv4Header_new) * 4 + BufferList_size payload;
         dgram = \<lparr>id_header = IPv4Header_new\<lparr>ih_src := src, ih_dst := dst, ih_len := ucast len, ih_ttl := ttl\<rparr>,
                  id_payload = payload\<rparr>
     in
     rbind (NetworkInterface_send_datagram dgram (ho_next_hop h) (ai_interface (ho_interface h))) (\<lambda>ni.
     rbind (Address_ip rs (ho_next_hop h)) (\<lambda>_.
     Inr (dgram, h\<lparr>ho_interface := (ho_interface h)\<lparr>ai_interface := ni\<rparr>\<rparr>, g)))))"

definition Host_expect :: "ipv4_datagram \<Rightarrow> host \<Rightarrow> host" where
  "Host_expect expected h = h\<lparr>ho_expecting_to_receive := ho_expecting_to_receive h @ [expected]\<rparr>"

primrec host_check_loop :: "resolver \<Rightarrow> ipv4_datagram list \<Rightarrow> host \<Rightarrow> host res" where
  "host_check_loop rs [] h = Inr h"
| "host_check_loop rs (dgram_received # q) h =
     rbind (Host_expecting (ho_expecting_to_receive h) dgram_received) (\<lambda>b.
     if \<not> b
     then Inl (Runtime_error (''Host '' @ ho_name h @ '' received unexpected Internet datagram: '' @ datagram_text rs dgram_received))
     else
       rbind (Host_remove_expectation (ho_expecting_to_receive h) dgram_received) (\<lambda>e.
       host_check_loop rs q (h\<lparr>ho_expecting_to_receive := e, ho_interface := (ho_interface h)\<lparr>ai_datagrams_out := q\<rparr>\<rparr>)))"

definition Host_check :: "resolver \<Rightarrow> host \<Rightarrow> host res" where
  "Host_check rs h =
     rbind (host_check_loop rs (ai_datagrams_out (ho_interface h)) h) (\<lambda>h.
     case ho_expecting_to_receive h of
       [] \<Rightarrow> Inr h
     | expected # _ \<Rightarrow> Inl (Runtime_error (''Host '' @ ho_name h @ '' did NOT receive an expected Internet datagram: '' @
                          datagram_text rs expected)))"

subsection \<open>Links\<close>

fun deliver :: "resolver \<Rightarrow> ethernet_frame list \<Rightarrow> async_interface \<Rightarrow> async_interface res" where
  "deliver rs [] dst = Inr dst"
| "deliver rs (frame # to_send) dst =
     (let frame = frame\<lparr>ef_payload := BufferList_of_string (BufferList_concatenate (ef_payload frame))\<rparr> in
      rbind (frame_summary rs frame) (\<lambda>_.
      rbind (AsyncNetworkInterface_recv_frame frame dst) (\<lambda>dst. deliver rs to_send dst)))"

definition frames_out :: "async_interface \<Rightarrow> ethernet_frame list" where
  "frames_out ai = ni_frames_out (ai_interface ai)"

definition clear_frames :: "ethernet_frame list \<Rightarrow> async_interface \<Rightarrow> async_interface res" where
  "clear_frames sent ai =
     rbind (clear_queues sent (frames_out ai)) (\<lambda>(_, q).
     Inr (ai\<lparr>ai_interface := (ai_interface ai)\<lparr>ni_frames_out := q\<rparr>\<rparr>))"

definition exchange_frames2 :: "resolver \<Rightarrow> async_interface \<times> async_interface \<Rightarrow> (async_interface \<times> async_interface) res" where
  "exchange_frames2 rs = (\<lambda>(x, y).
     let x_frames = frames_out x; y_frames = frames_out y in
     rbind (deliver rs x_frames y) (\<lambda>y.
     rbind (deliver rs y_frames x) (\<lambda>x.
     rbind (clear_frames x_frames x) (\<lambda>x.
     rbind (clear_frames y_frames y) (\<lambda>y. Inr (x, y))))))"

definition exchange_frames3 ::
  "resolver \<Rightarrow> async_interface \<times> async_interface \<times> async_interface \<Rightarrow> (async_interface \<times> async_interface \<times> async_interface) res" where
  "exchange_frames3 rs = (\<lambda>(x, y, z).
     let x_frames = frames_out x; y_frames = frames_out y; z_frames = frames_out z in
     rbind (deliver rs x_frames y) (\<lambda>y.
     rbind (deliver rs x_frames z) (\<lambda>z.
     rbind (deliver rs y_frames x) (\<lambda>x.
     rbind (deliver rs y_frames z) (\<lambda>z.
     rbind (deliver rs z_frames x) (\<lambda>x.
     rbind (deliver rs z_frames y) (\<lambda>y.
     rbind (clear_frames x_frames x) (\<lambda>x.
     rbind (clear_frames y_frames y) (\<lambda>y.
     rbind (clear_frames z_frames z) (\<lambda>z. Inr (x, y, z)))))))))))"

subsection \<open>The network\<close>

record network =
  nw_router :: router
  nw_default_id :: u64
  nw_eth0_id :: u64
  nw_eth1_id :: u64
  nw_eth2_id :: u64
  nw_uun3_id :: u64
  nw_hs4_id :: u64
  nw_mit5_id :: u64
  nw_hosts :: "(string \<times> host) list"

definition Network_host :: "string \<Rightarrow> network \<Rightarrow> host res" where
  "Network_host name nw =
     (case map_of (nw_hosts nw) name of
        None \<Rightarrow> Inl (Runtime_error (''unknown host: '' @ name))
      | Some h \<Rightarrow> if ho_name h \<noteq> name then Inl (Runtime_error (''invalid host: '' @ name)) else Inr h)"

text \<open>An element of the table is changed in place, as through the reference that \<^verbatim>\<open>host\<close> returns.\<close>

definition set_host :: "string \<Rightarrow> host \<Rightarrow> network \<Rightarrow> network" where
  "set_host name h nw = nw\<lparr>nw_hosts := map (\<lambda>(n, x). (n, if n = name then h else x)) (nw_hosts nw)\<rparr>"

definition set_interface :: "u64 \<Rightarrow> async_interface \<Rightarrow> network \<Rightarrow> network" where
  "set_interface iid ai nw =
     nw\<lparr>nw_router := (nw_router nw)\<lparr>rt_interfaces := (rt_interfaces (nw_router nw))[unat iid := ai]\<rparr>\<rparr>"

definition connect2 :: "resolver \<Rightarrow> u64 \<Rightarrow> string \<Rightarrow> network \<Rightarrow> network res" where
  "connect2 rs iid name nw =
     rbind (Router_interface iid (nw_router nw)) (\<lambda>x.
     rbind (Network_host name nw) (\<lambda>h.
     rbind (exchange_frames2 rs (x, ho_interface h)) (\<lambda>(x, y).
     Inr (set_host name (h\<lparr>ho_interface := y\<rparr>) (set_interface iid x nw)))))"

definition connect3 :: "resolver \<Rightarrow> u64 \<Rightarrow> string \<Rightarrow> string \<Rightarrow> network \<Rightarrow> network res" where
  "connect3 rs iid name1 name2 nw =
     rbind (Router_interface iid (nw_router nw)) (\<lambda>x.
     rbind (Network_host name1 nw) (\<lambda>h1.
     rbind (Network_host name2 nw) (\<lambda>h2.
     rbind (exchange_frames3 rs (x, ho_interface h1, ho_interface h2)) (\<lambda>(x, y, z).
     Inr (set_host name2 (h2\<lparr>ho_interface := z\<rparr>) (set_host name1 (h1\<lparr>ho_interface := y\<rparr>) (set_interface iid x nw)))))))"

definition simulate_physical_connections :: "resolver \<Rightarrow> network \<Rightarrow> network res" where
  "simulate_physical_connections rs nw =
     rbind (connect2 rs (nw_default_id nw) ''default_router'' nw) (\<lambda>nw.
     rbind (connect2 rs (nw_eth0_id nw) ''applesauce'' nw) (\<lambda>nw.
     rbind (connect2 rs (nw_eth2_id nw) ''cherrypie'' nw) (\<lambda>nw.
     rbind (connect2 rs (nw_hs4_id nw) ''hs_router'' nw) (\<lambda>nw.
     connect3 rs (nw_uun3_id nw) ''dm42'' ''dm43'' nw))))"

definition simulate_round :: "resolver \<Rightarrow> network \<Rightarrow> network res" where
  "simulate_round rs nw =
     rbind (Router_route (nw_router nw)) (\<lambda>r. simulate_physical_connections rs (nw\<lparr>nw_router := r\<rparr>))"

primrec simulate_rounds :: "nat \<Rightarrow> resolver \<Rightarrow> network \<Rightarrow> network res" where
  "simulate_rounds 0 rs nw = Inr nw"
| "simulate_rounds (Suc n) rs nw = rbind (simulate_round rs nw) (\<lambda>nw. simulate_rounds n rs nw)"

primrec check_hosts :: "resolver \<Rightarrow> (string \<times> host) list \<Rightarrow> (string \<times> host) list res" where
  "check_hosts rs [] = Inr []"
| "check_hosts rs (nh # hosts) =
     rbind (Host_check rs (snd nh)) (\<lambda>h. rbind (check_hosts rs hosts) (\<lambda>hosts. Inr ((fst nh, h) # hosts)))"

definition Network_simulate :: "resolver \<Rightarrow> network \<Rightarrow> network res" where
  "Network_simulate rs nw =
     rbind (simulate_rounds 256 rs nw) (\<lambda>nw.
     rbind (check_hosts rs (nw_hosts nw)) (\<lambda>hosts. Inr (nw\<lparr>nw_hosts := hosts\<rparr>)))"

definition add_router_interface ::
  "('g \<Rightarrow> u32 \<times> 'g) \<Rightarrow> resolver \<Rightarrow> string \<Rightarrow> router \<Rightarrow> 'g \<Rightarrow> (u64 \<times> router \<times> 'g) res" where
  "add_router_interface rd rs ip r g =
     (let (eth, g) = random_router_ethernet_address rd g in
      rbind (Address_of_ip rs ip 0) (\<lambda>a.
      rbind (NetworkInterface_new rs eth a) (\<lambda>ni.
      let (iid, r) = Router_add_interface (AsyncNetworkInterface_new ni) r in Inr (iid, r, g))))"

definition insert_host ::
  "('g \<Rightarrow> u32 \<times> 'g) \<Rightarrow> resolver \<Rightarrow> string \<Rightarrow> string \<Rightarrow> string \<Rightarrow> network \<Rightarrow> 'g \<Rightarrow> (network \<times> 'g) res" where
  "insert_host rd rs name my_ip hop_ip nw g =
     rbind (Address_of_ip rs my_ip 0) (\<lambda>my_address.
     rbind (Address_of_ip rs hop_ip 0) (\<lambda>next_hop.
     rbind (Host_new rd rs name my_address next_hop g) (\<lambda>(h, g).
     Inr (nw\<lparr>nw_hosts := nw_hosts nw @ [(name, h)]\<rparr>, g))))"

text \<open>A route to a prefix, by way of a named host or directly.\<close>

definition add_route :: "resolver \<Rightarrow> string \<Rightarrow> u8 \<Rightarrow> address option \<Rightarrow> u64 \<Rightarrow> network \<Rightarrow> network res" where
  "add_route rs prefix len hop iid nw =
     rbind (ip_of rs prefix) (\<lambda>p.
     rbind (Router_add_route rs p len hop iid (nw_router nw)) (\<lambda>r. Inr (nw\<lparr>nw_router := r\<rparr>)))"

definition host_address :: "string \<Rightarrow> network \<Rightarrow> address res" where
  "host_address name nw = rbind (Network_host name nw) (\<lambda>h. Inr (ho_my_address h))"

definition add_route_via :: "resolver \<Rightarrow> string \<Rightarrow> u8 \<Rightarrow> string \<Rightarrow> u64 \<Rightarrow> network \<Rightarrow> network res" where
  "add_route_via rs prefix len name iid nw =
     rbind (host_address name nw) (\<lambda>a. add_route rs prefix len (Some a) iid nw)"

definition Network_interfaces :: "('g \<Rightarrow> u32 \<times> 'g) \<Rightarrow> resolver \<Rightarrow> 'g \<Rightarrow> (network \<times> 'g) res" where
  "Network_interfaces rd rs g =
     rbind (add_router_interface rd rs ''171.67.76.46'' Router_new g) (\<lambda>(default_id, r, g).
     rbind (add_router_interface rd rs ''10.0.0.1'' r g) (\<lambda>(eth0_id, r, g).
     rbind (add_router_interface rd rs ''172.16.0.1'' r g) (\<lambda>(eth1_id, r, g).
     rbind (add_router_interface rd rs ''192.168.0.1'' r g) (\<lambda>(eth2_id, r, g).
     rbind (add_router_interface rd rs ''198.178.229.1'' r g) (\<lambda>(uun3_id, r, g).
     rbind (add_router_interface rd rs ''143.195.0.2'' r g) (\<lambda>(hs4_id, r, g).
     rbind (add_router_interface rd rs ''128.30.76.255'' r g) (\<lambda>(mit5_id, r, g).
     Inr (\<lparr>nw_router = r, nw_default_id = default_id, nw_eth0_id = eth0_id, nw_eth1_id = eth1_id, nw_eth2_id = eth2_id,
           nw_uun3_id = uun3_id, nw_hs4_id = hs4_id, nw_mit5_id = mit5_id, nw_hosts = []\<rparr>, g))))))))"

definition Network_insert_hosts :: "('g \<Rightarrow> u32 \<times> 'g) \<Rightarrow> resolver \<Rightarrow> network \<times> 'g \<Rightarrow> (network \<times> 'g) res" where
  "Network_insert_hosts rd rs = (\<lambda>(nw, g).
     rbind (insert_host rd rs ''applesauce'' ''10.0.0.2'' ''10.0.0.1'' nw g) (\<lambda>(nw, g).
     rbind (insert_host rd rs ''default_router'' ''171.67.76.1'' ''0'' nw g) (\<lambda>(nw, g).
     rbind (insert_host rd rs ''cherrypie'' ''192.168.0.2'' ''192.168.0.1'' nw g) (\<lambda>(nw, g).
     rbind (insert_host rd rs ''hs_router'' ''143.195.0.1'' ''0'' nw g) (\<lambda>(nw, g).
     rbind (insert_host rd rs ''dm42'' ''198.178.229.42'' ''198.178.229.1'' nw g) (\<lambda>(nw, g).
     insert_host rd rs ''dm43'' ''198.178.229.43'' ''198.178.229.1'' nw g))))))"

definition Network_add_routes :: "resolver \<Rightarrow> network \<Rightarrow> network res" where
  "Network_add_routes rs nw =
     rbind (add_route_via rs ''0.0.0.0'' 0 ''default_router'' (nw_default_id nw) nw) (\<lambda>nw.
     rbind (add_route rs ''10.0.0.0'' 8 None (nw_eth0_id nw) nw) (\<lambda>nw.
     rbind (add_route rs ''172.16.0.0'' 16 None (nw_eth1_id nw) nw) (\<lambda>nw.
     rbind (add_route rs ''192.168.0.0'' 24 None (nw_eth2_id nw) nw) (\<lambda>nw.
     rbind (add_route rs ''198.178.229.0'' 24 None (nw_uun3_id nw) nw) (\<lambda>nw.
     rbind (add_route_via rs ''143.195.0.0'' 17 ''hs_router'' (nw_hs4_id nw) nw) (\<lambda>nw.
     rbind (add_route_via rs ''143.195.128.0'' 18 ''hs_router'' (nw_hs4_id nw) nw) (\<lambda>nw.
     rbind (add_route_via rs ''143.195.192.0'' 19 ''hs_router'' (nw_hs4_id nw) nw) (\<lambda>nw.
     rbind (Address_of_ip rs ''128.30.0.1'' 0) (\<lambda>a. add_route rs ''128.30.76.255'' 16 (Some a) (nw_mit5_id nw) nw)))))))))"

definition Network_new :: "('g \<Rightarrow> u32 \<times> 'g) \<Rightarrow> resolver \<Rightarrow> 'g \<Rightarrow> (network \<times> 'g) res" where
  "Network_new rd rs g =
     rbind (Network_interfaces rd rs g) (\<lambda>s.
     rbind (Network_insert_hosts rd rs s) (\<lambda>(nw, g).
     rbind (Network_add_routes rs nw) (\<lambda>nw. Inr (nw, g))))"

subsection \<open>The tests\<close>

definition network_send ::
  "('g \<Rightarrow> u32 \<times> 'g) \<Rightarrow> resolver \<Rightarrow> string \<Rightarrow> address \<Rightarrow> u8 \<Rightarrow> network \<times> 'g \<Rightarrow> (ipv4_datagram \<times> network \<times> 'g) res" where
  "network_send rd rs sender destination ttl = (\<lambda>(nw, g).
     rbind (Network_host sender nw) (\<lambda>h.
     rbind (Host_send_to rd rs destination ttl h g) (\<lambda>(dgram, h, g).
     Inr (dgram, set_host sender h nw, g))))"

text \<open>A datagram that has to arrive at a host with its time to live decreased, and one that has to expire.\<close>

definition test_arrival ::
  "('g \<Rightarrow> u32 \<times> 'g) \<Rightarrow> resolver \<Rightarrow> string \<Rightarrow> address \<Rightarrow> string \<Rightarrow> network \<times> 'g \<Rightarrow> (network \<times> 'g) res" where
  "test_arrival rd rs sender destination receiver s =
     rbind (network_send rd rs sender destination 64 s) (\<lambda>(dgram_sent, nw, g).
     let dgram_sent = dgram_sent\<lparr>id_header := (id_header dgram_sent)\<lparr>ih_ttl := ih_ttl (id_header dgram_sent) - 1\<rparr>\<rparr> in
     rbind (Network_host receiver nw) (\<lambda>h.
     rbind (Network_simulate rs (set_host receiver (Host_expect dgram_sent h) nw)) (\<lambda>nw. Inr (nw, g))))"

definition test_expiry :: "('g \<Rightarrow> u32 \<times> 'g) \<Rightarrow> resolver \<Rightarrow> string \<Rightarrow> address \<Rightarrow> u8 \<Rightarrow> network \<times> 'g \<Rightarrow> (network \<times> 'g) res" where
  "test_expiry rd rs sender destination ttl s =
     rbind (network_send rd rs sender destination ttl s) (\<lambda>(_, nw, g).
     rbind (Network_simulate rs nw) (\<lambda>nw. Inr (nw, g)))"

definition test_to_host ::
  "('g \<Rightarrow> u32 \<times> 'g) \<Rightarrow> resolver \<Rightarrow> string \<Rightarrow> string \<Rightarrow> network \<times> 'g \<Rightarrow> (network \<times> 'g) res" where
  "test_to_host rd rs sender receiver s =
     rbind (host_address receiver (fst s)) (\<lambda>a. test_arrival rd rs sender a receiver s)"

definition test_to_ip ::
  "('g \<Rightarrow> u32 \<times> 'g) \<Rightarrow> resolver \<Rightarrow> string \<Rightarrow> string \<Rightarrow> string \<Rightarrow> network \<times> 'g \<Rightarrow> (network \<times> 'g) res" where
  "test_to_ip rd rs sender ip receiver s =
     rbind (Address_of_ip rs ip 0) (\<lambda>a. test_arrival rd rs sender a receiver s)"

definition network_simulator :: "('g \<Rightarrow> u32 \<times> 'g) \<Rightarrow> resolver \<Rightarrow> 'g \<Rightarrow> (network \<times> 'g) res" where
  "network_simulator rd rs g =
     rbind (Network_new rd rs g) (\<lambda>s.
     rbind (test_to_host rd rs ''applesauce'' ''cherrypie'' s) (\<lambda>s.
     rbind (test_to_host rd rs ''cherrypie'' ''applesauce'' s) (\<lambda>s.
     rbind (test_to_ip rd rs ''applesauce'' ''1.2.3.4'' ''default_router'' s) (\<lambda>s.
     rbind (test_to_ip rd rs ''applesauce'' ''143.195.131.17'' ''hs_router'' s) (\<lambda>s.
     rbind (test_to_ip rd rs ''cherrypie'' ''143.195.193.52'' ''hs_router'' s) (\<lambda>s.
     rbind (test_to_ip rd rs ''cherrypie'' ''143.195.223.255'' ''hs_router'' s) (\<lambda>s.
     rbind (test_to_ip rd rs ''cherrypie'' ''143.195.224.0'' ''default_router'' s) (\<lambda>s.
     rbind (test_to_host rd rs ''dm42'' ''dm43'' s) (\<lambda>s.
     rbind (Address_of_ip rs ''1.2.3.4'' 0) (\<lambda>a.
     rbind (test_expiry rd rs ''applesauce'' a 1 s) (\<lambda>s. test_expiry rd rs ''applesauce'' a 0 s)))))))))))"

end
