(* ===== verification/Simulated_Links.thy ===== *)
theory Simulated_Links
  imports Network_Simulator
begin

text \<open>
  The links of the simulated network. A network is seen as a function from its sites, the
  interfaces of the router and the hosts, to their state: as long as one site has one frame to send,
  a round of \<^verbatim>\<open>simulate_physical_connections\<close> takes that frame to every other site of its link and
  leaves everything else alone.
\<close>

subsection \<open>Frames\<close>

definition flat :: "ethernet_frame \<Rightarrow> ethernet_frame" where
  "flat f = f\<lparr>ef_payload := BufferList_of_string (BufferList_concatenate (ef_payload f))\<rparr>"

lemma flat_header [simp]: "ef_header (flat f) = ef_header f"
  by (simp add: flat_def)

lemma flat_concatenate:
  "str_ok (BufferList_concatenate (ef_payload f)) \<Longrightarrow>
     BufferList_concatenate (ef_payload (flat f)) = BufferList_concatenate (ef_payload f)"
  by (simp add: flat_def BufferList_of_string_def BufferList_concatenate_eq)

lemma recv_frame_flat:
  "str_ok (BufferList_concatenate (ef_payload f)) \<Longrightarrow> NetworkInterface_recv_frame (flat f) ni = NetworkInterface_recv_frame f ni"
  unfolding NetworkInterface_recv_frame_def flat_header by (simp only: flat_concatenate)

text \<open>A frame that can be printed, so that its delivery does not fail.\<close>

definition readable :: "ethernet_frame \<Rightarrow> bool" where
  "readable f \<longleftrightarrow> str_ok (BufferList_concatenate (ef_payload f)) \<and> (\<forall>rs. \<exists>s. frame_summary rs (flat f) = Inr s)"

lemma deliver_one:
  assumes "readable f"
  shows "deliver rs [f] ai = AsyncNetworkInterface_recv_frame f ai"
proof -
  obtain s where "frame_summary rs (flat f) = Inr s" using assms by (auto simp: readable_def)
  moreover have "AsyncNetworkInterface_recv_frame (flat f) ai = AsyncNetworkInterface_recv_frame f ai"
    using assms by (simp add: AsyncNetworkInterface_recv_frame_def recv_frame_flat readable_def)
  ultimately show ?thesis
    by (cases "AsyncNetworkInterface_recv_frame f ai") (simp_all add: flat_def [symmetric])
qed

lemma flat_to_Buffer: "BufferList_to_Buffer (ef_payload (flat f)) = Inr (Buffer_of (BufferList_concatenate (ef_payload f)))"
  by (simp add: BufferList_to_Buffer_def flat_def BufferList_of_string_def)

lemma readable_arp:
  assumes "arp_in ni f = Some m" and "str_ok (BufferList_concatenate (ef_payload f))"
  shows "readable f"
proof -
  have "ARPMessage_parse ARPMessage_new (Buffer_of (BufferList_concatenate (ef_payload f))) = Inr (NoError, m)"
    "eh_type (ef_header f) = TYPE_ARP"
    using assms(1) by (auto simp: arp_in_def split: if_splits sum.splits prod.splits ParseResult.splits)
  with assms(2) show ?thesis by (simp add: readable_def frame_summary_def Let_def flat_to_Buffer TYPE_ARP_def TYPE_IPv4_def)
qed

lemma readable_ip:
  assumes "datagram_ok dg" and "sent_as own (ip, e, dg) f"
  shows "readable f"
proof -
  obtain bl where bl: "IPv4Datagram_serialize dg = Inr bl" "length (BufferList_concatenate bl) = unat (ih_len (id_header dg))"
    "\<And>dg0 b. buffer_ok b \<Longrightarrow> Buffer_str b = BufferList_concatenate bl \<Longrightarrow> \<exists>dg'. IPv4Datagram_parse dg0 b = Inr (NoError, dg')"
    using datagram_roundtrip [OF assms(1)] by metis
  have f: "ef_payload f = bl" "eh_type (ef_header f) = TYPE_IPv4" using assms(2) bl(1) by (simp_all add: sent_as_def)
  have short: "str_ok (BufferList_concatenate bl)" using bl(2) unat16_lt [of "ih_len (id_header dg)"] by linarith
  then obtain d where "IPv4Datagram_parse IPv4Datagram_new (Buffer_of (BufferList_concatenate bl)) = Inr (NoError, d)"
    using bl(3) by fastforce
  with f short show ?thesis by (simp add: readable_def frame_summary_def Let_def flat_to_Buffer)
qed

subsection \<open>One exchange\<close>

definition cleared :: "async_interface \<Rightarrow> async_interface" where
  "cleared ai = ai\<lparr>ai_interface := (ai_interface ai)\<lparr>ni_frames_out := []\<rparr>\<rparr>"

lemma clear_nothing: "clear_frames [] ai = Inr ai"
  by (simp add: clear_frames_def frames_out_def)

lemma clear_own: "frames_out ai = [f] \<Longrightarrow> clear_frames [f] ai = Inr (cleared ai)"
  by (simp add: clear_frames_def cleared_def)

lemma exchange2_quiet: "frames_out x = [] \<Longrightarrow> frames_out y = [] \<Longrightarrow> exchange_frames2 rs (x, y) = Inr (x, y)"
  by (simp add: exchange_frames2_def clear_nothing)

lemma exchange2_one:
  "readable f \<Longrightarrow> frames_out x = [f] \<Longrightarrow> frames_out y = [] \<Longrightarrow> AsyncNetworkInterface_recv_frame f y = Inr y' \<Longrightarrow>
     exchange_frames2 rs (x, y) = Inr (cleared x, y')"
  "readable f \<Longrightarrow> frames_out y = [f] \<Longrightarrow> frames_out x = [] \<Longrightarrow> AsyncNetworkInterface_recv_frame f x = Inr x' \<Longrightarrow>
     exchange_frames2 rs (x, y) = Inr (x', cleared y)"
  by (simp_all add: exchange_frames2_def clear_nothing clear_own deliver_one del: deliver.simps(2))

lemma exchange3_quiet:
  "frames_out x = [] \<Longrightarrow> frames_out y = [] \<Longrightarrow> frames_out z = [] \<Longrightarrow> exchange_frames3 rs (x, y, z) = Inr (x, y, z)"
  by (simp add: exchange_frames3_def clear_nothing)

lemma exchange3_one:
  assumes "readable f"
  shows "frames_out x = [f] \<Longrightarrow> frames_out y = [] \<Longrightarrow> frames_out z = [] \<Longrightarrow> AsyncNetworkInterface_recv_frame f y = Inr y' \<Longrightarrow>
     AsyncNetworkInterface_recv_frame f z = Inr z' \<Longrightarrow> exchange_frames3 rs (x, y, z) = Inr (cleared x, y', z')"
  "frames_out y = [f] \<Longrightarrow> frames_out x = [] \<Longrightarrow> frames_out z = [] \<Longrightarrow> AsyncNetworkInterface_recv_frame f x = Inr x' \<Longrightarrow>
     AsyncNetworkInterface_recv_frame f z = Inr z' \<Longrightarrow> exchange_frames3 rs (x, y, z) = Inr (x', cleared y, z')"
  "frames_out z = [f] \<Longrightarrow> frames_out x = [] \<Longrightarrow> frames_out y = [] \<Longrightarrow> AsyncNetworkInterface_recv_frame f x = Inr x' \<Longrightarrow>
     AsyncNetworkInterface_recv_frame f y = Inr y' \<Longrightarrow> exchange_frames3 rs (x, y, z) = Inr (x', y', cleared z)"
  using assms by (simp_all add: exchange_frames3_def clear_nothing clear_own deliver_one del: deliver.simps(2))

subsection \<open>Sites\<close>

datatype site = Rif nat | Hst nat

definition host_names :: "string list" where
  "host_names = [''applesauce'', ''default_router'', ''cherrypie'', ''hs_router'', ''dm42'', ''dm43'']"

definition valid_site :: "site \<Rightarrow> bool" where
  "valid_site s = (case s of Rif k \<Rightarrow> k < 7 | Hst k \<Rightarrow> k < 6)"

definition site_at :: "network \<Rightarrow> site \<Rightarrow> async_interface" where
  "site_at nw s = (case s of Rif k \<Rightarrow> rt_interfaces (nw_router nw) ! k | Hst k \<Rightarrow> ho_interface (snd (nw_hosts nw ! k)))"

definition put_site :: "site \<Rightarrow> async_interface \<Rightarrow> network \<Rightarrow> network" where
  "put_site s ai nw = (case s of
     Rif k \<Rightarrow> nw\<lparr>nw_router := (nw_router nw)\<lparr>rt_interfaces := (rt_interfaces (nw_router nw))[k := ai]\<rparr>\<rparr>
   | Hst k \<Rightarrow> nw\<lparr>nw_hosts := (nw_hosts nw)[k := (fst (nw_hosts nw ! k), (snd (nw_hosts nw ! k))\<lparr>ho_interface := ai\<rparr>)]\<rparr>)"

definition net_shape :: "network \<Rightarrow> bool" where
  "net_shape nw \<longleftrightarrow> length (rt_interfaces (nw_router nw)) = 7 \<and> map fst (nw_hosts nw) = host_names \<and>
     map (ho_name \<circ> snd) (nw_hosts nw) = host_names \<and> nw_default_id nw = 0 \<and> nw_eth0_id nw = 1 \<and> nw_eth2_id nw = 3 \<and>
     nw_uun3_id nw = 4 \<and> nw_hs4_id nw = 5"

text \<open>What the links never change: the routes, and everything of a host but its interface.\<close>

definition net_rest :: "network \<Rightarrow> (routing_info \<times> next_hop) list \<times> host list" where
  "net_rest nw = (rt_rtable (nw_router nw), map (\<lambda>nh. (snd nh)\<lparr>ho_interface := undefined\<rparr>) (nw_hosts nw))"

lemma net_shape_lengths:
  assumes "net_shape nw"
  shows "length (rt_interfaces (nw_router nw)) = 7" "length (nw_hosts nw) = 6"
proof -
  show "length (rt_interfaces (nw_router nw)) = 7" using assms by (simp add: net_shape_def)
  have "length (nw_hosts nw) = length (map fst (nw_hosts nw))" by simp
  also have "\<dots> = 6" using assms by (simp add: net_shape_def host_names_def)
  finally show "length (nw_hosts nw) = 6" .
qed

lemma site_at_put:
  assumes "net_shape nw" and "valid_site s"
  shows "site_at (put_site s ai nw) t = (if t = s then ai else site_at nw t)"
  using assms net_shape_lengths [OF assms(1)]
  by (auto simp: site_at_def put_site_def valid_site_def split: site.splits)

lemma net_rest_put:
  assumes "net_shape nw" and "valid_site s"
  shows "net_rest (put_site s ai nw) = net_rest nw"
  using assms net_shape_lengths [OF assms(1)]
  by (auto simp: net_rest_def put_site_def valid_site_def map_update list_update_same_conv split: site.splits)

lemma net_shape_names:
  assumes "net_shape nw" and "k < 6"
  shows "fst (nw_hosts nw ! k) = host_names ! k" "ho_name (snd (nw_hosts nw ! k)) = host_names ! k"
proof -
  have "map fst (nw_hosts nw) ! k = host_names ! k" "map (ho_name \<circ> snd) (nw_hosts nw) ! k = host_names ! k"
    using assms(1) by (simp_all add: net_shape_def)
  then show "fst (nw_hosts nw ! k) = host_names ! k" "ho_name (snd (nw_hosts nw ! k)) = host_names ! k"
    using net_shape_lengths [OF assms(1)] assms(2) by simp_all
qed

lemma net_shape_put:
  assumes "net_shape nw" and "valid_site s"
  shows "net_shape (put_site s ai nw)"
  using assms net_shape_lengths [OF assms(1)] net_shape_names [OF assms(1)]
  by (auto simp: net_shape_def put_site_def valid_site_def map_update list_update_same_conv split: site.splits)

lemmas put_site_simps = site_at_put net_rest_put net_shape_put

lemma put_site_same:
  assumes "net_shape nw" and "valid_site s"
  shows "put_site s (site_at nw s) nw = nw"
  using assms net_shape_lengths [OF assms(1)]
  by (auto simp: site_at_def put_site_def valid_site_def split: site.splits)

subsection \<open>Links\<close>

lemma distinct_host_names: "distinct host_names"
  by (simp add: host_names_def)

lemma Network_host_nth:
  assumes "net_shape nw" and "k < 6"
  shows "Network_host (host_names ! k) nw = Inr (snd (nw_hosts nw ! k))"
proof -
  have "distinct (map fst (nw_hosts nw))" using assms(1) by (simp add: net_shape_def distinct_host_names)
  moreover have "(host_names ! k, snd (nw_hosts nw ! k)) \<in> set (nw_hosts nw)"
    using net_shape_names(1) [OF assms] net_shape_lengths [OF assms(1)] assms(2) by (metis nth_mem prod.collapse)
  ultimately have "map_of (nw_hosts nw) (host_names ! k) = Some (snd (nw_hosts nw ! k))" by (rule map_of_is_SomeI)
  then show ?thesis using net_shape_names(2) [OF assms] by (simp add: Network_host_def)
qed

lemma set_host_nth:
  assumes "net_shape nw" and "k < 6"
  shows "set_host (host_names ! k) h nw = nw\<lparr>nw_hosts := (nw_hosts nw)[k := (host_names ! k, h)]\<rparr>"
proof -
  have l: "length (nw_hosts nw) = 6" by (rule net_shape_lengths [OF assms(1)])
  have "map (\<lambda>(n, x). (n, if n = host_names ! k then h else x)) (nw_hosts nw) = (nw_hosts nw)[k := (host_names ! k, h)]"
  proof (rule nth_equalityI)
    fix i assume "i < length (map (\<lambda>(n, x). (n, if n = host_names ! k then h else x)) (nw_hosts nw))"
    then have i: "i < 6" using l by simp
    have "host_names ! i = host_names ! k \<longleftrightarrow> i = k"
      using i assms(2) distinct_host_names by (simp add: nth_eq_iff_index_eq host_names_def)
    then show "map (\<lambda>(n, x). (n, if n = host_names ! k then h else x)) (nw_hosts nw) ! i = (nw_hosts nw)[k := (host_names ! k, h)] ! i"
      using i l net_shape_names(1) [OF assms(1) i]
      by (cases "nw_hosts nw ! i") (auto simp: nth_list_update)
  qed simp
  then show ?thesis by (simp add: set_host_def)
qed

lemma set_host_put:
  assumes "net_shape nw" and "k < 6" and "h\<lparr>ho_interface := ai\<rparr> = (snd (nw_hosts nw ! k))\<lparr>ho_interface := ai\<rparr>"
  shows "set_host (host_names ! k) (h\<lparr>ho_interface := ai\<rparr>) nw = put_site (Hst k) ai nw"
  using assms net_shape_names(1) [OF assms(1,2)] by (simp add: set_host_nth put_site_def)

lemma set_interface_put: "set_interface iid ai nw = put_site (Rif (unat iid)) ai nw"
  by (simp add: set_interface_def put_site_def)

lemma connect2_eq:
  assumes "net_shape nw" and "unat iid < 7" and "k < 6"
  shows "connect2 rs iid (host_names ! k) nw = rbind (exchange_frames2 rs (site_at nw (Rif (unat iid)), site_at nw (Hst k)))
     (\<lambda>(x, y). Inr (put_site (Hst k) y (put_site (Rif (unat iid)) x nw)))"
proof -
  let ?r = "Rif (unat iid)"
  have v: "valid_site ?r" using assms(2) by (simp add: valid_site_def)
  have i: "Router_interface iid (nw_router nw) = Inr (site_at nw ?r)"
    using assms(2) net_shape_lengths [OF assms(1)] by (simp add: Router_interface_def site_at_def word_less_nat_alt size64_def)
  have "set_host (host_names ! k) ((snd (nw_hosts nw ! k))\<lparr>ho_interface := y\<rparr>) (put_site ?r x nw) = put_site (Hst k) y (put_site ?r x nw)" for x y
    by (rule set_host_put [OF net_shape_put [OF assms(1) v] assms(3)]) (simp add: put_site_def)
  then show ?thesis
    by (simp add: connect2_def i Network_host_nth [OF assms(1,3)] set_interface_put site_at_def [of nw "Hst k"])
qed

lemma connect3_eq:
  assumes "net_shape nw" and "unat iid < 7" and "k < 6" and "k' < 6" and "k \<noteq> k'"
  shows "connect3 rs iid (host_names ! k) (host_names ! k') nw =
     rbind (exchange_frames3 rs (site_at nw (Rif (unat iid)), site_at nw (Hst k), site_at nw (Hst k')))
     (\<lambda>(x, y, z). Inr (put_site (Hst k') z (put_site (Hst k) y (put_site (Rif (unat iid)) x nw))))"
proof -
  let ?r = "Rif (unat iid)"
  have v: "valid_site ?r" "valid_site (Hst k)" using assms(2,3) by (simp_all add: valid_site_def)
  have i: "Router_interface iid (nw_router nw) = Inr (site_at nw ?r)"
    using assms(2) net_shape_lengths [OF assms(1)] by (simp add: Router_interface_def site_at_def word_less_nat_alt size64_def)
  have s1: "set_host (host_names ! k) ((snd (nw_hosts nw ! k))\<lparr>ho_interface := y\<rparr>) (put_site ?r x nw) = put_site (Hst k) y (put_site ?r x nw)" for x y
    by (rule set_host_put [OF net_shape_put [OF assms(1) v(1)] assms(3)]) (simp add: put_site_def)
  have s2: "set_host (host_names ! k') ((snd (nw_hosts nw ! k'))\<lparr>ho_interface := z\<rparr>) (put_site (Hst k) y (put_site ?r x nw)) =
      put_site (Hst k') z (put_site (Hst k) y (put_site ?r x nw))" for x y z
    by (rule set_host_put [OF net_shape_put [OF net_shape_put [OF assms(1) v(1)] v(2)] assms(4)])
      (use assms(5) in \<open>simp add: put_site_def\<close>)
  show ?thesis
    by (simp add: connect3_def i Network_host_nth [OF assms(1,3)] Network_host_nth [OF assms(1,4)] set_interface_put s1 s2
        site_at_def [of nw "Hst k"] site_at_def [of nw "Hst k'"])
qed

definition members :: "nat \<Rightarrow> site list" where
  "members l = [[Rif 0, Hst 1], [Rif 1, Hst 0], [Rif 3, Hst 2], [Rif 5, Hst 3], [Rif 4, Hst 4, Hst 5]] ! l"

definition run_link :: "resolver \<Rightarrow> nat \<Rightarrow> network \<Rightarrow> network res" where
  "run_link rs l nw = [connect2 rs 0 (host_names ! 1) nw, connect2 rs 1 (host_names ! 0) nw, connect2 rs 3 (host_names ! 2) nw,
     connect2 rs 5 (host_names ! 3) nw, connect3 rs 4 (host_names ! 4) (host_names ! 5) nw] ! l"

lemma less_5_cases:
  assumes "(l :: nat) < 5"
  obtains "l = 0" | "l = 1" | "l = 2" | "l = 3" | "l = 4"
  using assms by linarith

lemma members_simps [simp]:
  "members 0 = [Rif 0, Hst 1]" "members 1 = [Rif 1, Hst 0]" "members (Suc 0) = [Rif 1, Hst 0]" "members 2 = [Rif 3, Hst 2]"
  "members 3 = [Rif 5, Hst 3]" "members 4 = [Rif 4, Hst 4, Hst 5]"
  by (simp_all add: members_def)

lemma run_link_eqs:
  assumes "net_shape nw"
  shows "run_link rs 0 nw = rbind (exchange_frames2 rs (site_at nw (Rif 0), site_at nw (Hst 1)))
      (\<lambda>(x, y). Inr (put_site (Hst 1) y (put_site (Rif 0) x nw)))"
    "run_link rs 1 nw = rbind (exchange_frames2 rs (site_at nw (Rif 1), site_at nw (Hst 0)))
      (\<lambda>(x, y). Inr (put_site (Hst 0) y (put_site (Rif 1) x nw)))"
    "run_link rs 2 nw = rbind (exchange_frames2 rs (site_at nw (Rif 3), site_at nw (Hst 2)))
      (\<lambda>(x, y). Inr (put_site (Hst 2) y (put_site (Rif 3) x nw)))"
    "run_link rs 3 nw = rbind (exchange_frames2 rs (site_at nw (Rif 5), site_at nw (Hst 3)))
      (\<lambda>(x, y). Inr (put_site (Hst 3) y (put_site (Rif 5) x nw)))"
    "run_link rs 4 nw = rbind (exchange_frames3 rs (site_at nw (Rif 4), site_at nw (Hst 4), site_at nw (Hst 5)))
      (\<lambda>(x, y, z). Inr (put_site (Hst 5) z (put_site (Hst 4) y (put_site (Rif 4) x nw))))"
  using connect2_eq [OF assms, of 0 1 rs] connect2_eq [OF assms, of 1 0 rs] connect2_eq [OF assms, of 3 2 rs]
    connect2_eq [OF assms, of 5 3 rs] connect3_eq [OF assms, of 4 4 5 rs]
  by (simp_all add: run_link_def)

lemma valid_sites: "k < 7 \<Longrightarrow> valid_site (Rif k)" "k < 6 \<Longrightarrow> valid_site (Hst k)"
  by (simp_all add: valid_site_def)

text \<open>A link on which nothing is sent, and one on which one site sends one frame.\<close>

lemma run_link_quiet:
  assumes "net_shape nw" and "l < 5" and "\<forall>s \<in> set (members l). frames_out (site_at nw s) = []"
  shows "run_link rs l nw = Inr nw"
  using assms(2)
proof (cases l rule: less_5_cases)
qed (use assms(1,3) in \<open>simp_all add: run_link_eqs exchange2_quiet exchange3_quiet put_site_same valid_sites
    flip: One_nat_def\<close>)

lemma run_link_one:
  assumes "net_shape nw" and "l < 5" and "a \<in> set (members l)" and "readable f" and "frames_out (site_at nw a) = [f]"
    and "\<And>b. b \<in> set (members l) \<Longrightarrow> b \<noteq> a \<Longrightarrow> frames_out (site_at nw b) = [] \<and> AsyncNetworkInterface_recv_frame f (site_at nw b) = Inr (A b)"
  shows "\<exists>nw'. run_link rs l nw = Inr nw' \<and> net_shape nw' \<and> net_rest nw' = net_rest nw \<and>
     (\<forall>s. site_at nw' s = (if s = a then cleared (site_at nw a) else if s \<in> set (members l) then A s else site_at nw s))"
  using assms(2)
proof (cases l rule: less_5_cases)
  case 1
  with assms(3) have "a = Rif 0 \<or> a = Hst 1" by simp
  with assms 1 show ?thesis by (auto simp: run_link_eqs exchange2_one put_site_simps valid_sites)
next
  case 2
  with assms(3) have "a = Rif 1 \<or> a = Hst 0" by simp
  with assms 2 show ?thesis by (auto simp: run_link_eqs exchange2_one put_site_simps valid_sites simp flip: One_nat_def)
next
  case 3
  with assms(3) have "a = Rif 3 \<or> a = Hst 2" by simp
  with assms 3 show ?thesis by (auto simp: run_link_eqs exchange2_one put_site_simps valid_sites)
next
  case 4
  with assms(3) have "a = Rif 5 \<or> a = Hst 3" by simp
  with assms 4 show ?thesis by (auto simp: run_link_eqs exchange2_one put_site_simps valid_sites)
next
  case 5
  with assms(3) have "a = Rif 4 \<or> a = Hst 4 \<or> a = Hst 5" by simp
  with assms 5 show ?thesis by (auto simp: run_link_eqs exchange3_one put_site_simps valid_sites)
qed

lemma phys_links:
  assumes "net_shape nw" and "net_shape nw'" and "l < 5" and "run_link rs l nw = Inr nw'"
    and "\<And>k. k < 5 \<Longrightarrow> k \<noteq> l \<Longrightarrow> run_link rs k nw = Inr nw \<and> run_link rs k nw' = Inr nw'"
  shows "simulate_physical_connections rs nw = Inr nw'"
proof -
  have ids: "nw_default_id v = 0" "nw_eth0_id v = 1" "nw_eth2_id v = 3" "nw_hs4_id v = 5" "nw_uun3_id v = 4"
    if "v = nw \<or> v = nw'" for v using that assms(1,2) by (auto simp: net_shape_def)
  have links: "connect2 rs 0 ''default_router'' v = run_link rs 0 v" "connect2 rs 1 ''applesauce'' v = run_link rs 1 v"
    "connect2 rs 3 ''cherrypie'' v = run_link rs 2 v" "connect2 rs 5 ''hs_router'' v = run_link rs 3 v"
    "connect3 rs 4 ''dm42'' ''dm43'' v = run_link rs 4 v" for v by (simp_all add: run_link_def host_names_def)
  show ?thesis using assms(3)
  proof (cases l rule: less_5_cases)
  qed (use assms(4) assms(5) [of 0] assms(5) [of 1] assms(5) [of 2] assms(5) [of 3] assms(5) [of 4] in
      \<open>simp_all add: simulate_physical_connections_def ids links flip: One_nat_def\<close>)
qed

lemma members_disjoint:
  "l < 5 \<Longrightarrow> k < 5 \<Longrightarrow> s \<in> set (members l) \<Longrightarrow> s \<in> set (members k) \<Longrightarrow> k = l"
  by (cases l rule: less_5_cases; cases k rule: less_5_cases) auto

lemma members_valid: "l < 5 \<Longrightarrow> s \<in> set (members l) \<Longrightarrow> valid_site s"
  by (cases l rule: less_5_cases) (auto simp: valid_site_def)

text \<open>A round of exchanges when nothing is sent, and when one site sends one frame.\<close>

lemma phys_quiet:
  assumes "net_shape nw" and "\<And>s. valid_site s \<Longrightarrow> frames_out (site_at nw s) = []"
  shows "simulate_physical_connections rs nw = Inr nw"
proof -
  have "run_link rs k nw = Inr nw" if "k < 5" for k
    by (rule run_link_quiet [OF assms(1) that]) (use assms(2) members_valid [OF that] in blast)
  then show ?thesis by (intro phys_links [OF assms(1,1), of 0]) simp_all
qed

lemma phys_one:
  assumes "net_shape nw" and "l < 5" and "a \<in> set (members l)" and "readable f" and "frames_out (site_at nw a) = [f]"
    and "\<And>s. valid_site s \<Longrightarrow> s \<noteq> a \<Longrightarrow> frames_out (site_at nw s) = []"
    and "\<And>b. b \<in> set (members l) \<Longrightarrow> b \<noteq> a \<Longrightarrow> AsyncNetworkInterface_recv_frame f (site_at nw b) = Inr (A b)"
  shows "\<exists>nw'. simulate_physical_connections rs nw = Inr nw' \<and> net_shape nw' \<and> net_rest nw' = net_rest nw \<and>
     (\<forall>s. site_at nw' s = (if s = a then cleared (site_at nw a) else if s \<in> set (members l) then A s else site_at nw s))"
proof -
  have "frames_out (site_at nw b) = [] \<and> AsyncNetworkInterface_recv_frame f (site_at nw b) = Inr (A b)"
    if "b \<in> set (members l)" "b \<noteq> a" for b using assms(6,7) members_valid [OF assms(2) that(1)] that by blast
  then obtain nw' where nw': "run_link rs l nw = Inr nw'" "net_shape nw'" "net_rest nw' = net_rest nw"
    and at: "\<And>s. site_at nw' s = (if s = a then cleared (site_at nw a) else if s \<in> set (members l) then A s else site_at nw s)"
    using run_link_one [OF assms(1-5)] by metis
  have "run_link rs k nw = Inr nw \<and> run_link rs k nw' = Inr nw'" if k: "k < 5" "k \<noteq> l" for k
  proof
    have s: "s \<notin> set (members l)" "s \<noteq> a" "valid_site s" if "s \<in> set (members k)" for s
      using members_disjoint [OF assms(2) k(1)] that k assms(3) members_valid [OF k(1)] by auto
    then show "run_link rs k nw = Inr nw" "run_link rs k nw' = Inr nw'"
      using assms(6) at by (auto intro!: run_link_quiet assms(1) nw'(2) k(1))
  qed
  from phys_links [OF assms(1) nw'(2) assms(2) nw'(1) this] nw'(2,3) at show ?thesis by blast
qed

end
