(* ===== verification/Simulated_Hops.thy ===== *)
theory Simulated_Hops
  imports Simulated_Links
begin

text \<open>
  How a datagram crosses one link of the simulated network. \<open>E\<close> gives the Ethernet address of every
  site. A hop goes through the phases \<open>asking\<close>, \<open>replying\<close> and \<open>sending\<close>, of which the first two are
  left out when the address is already known, and ends when the datagram has \<open>arrived\<close>.
\<close>

subsection \<open>Stations\<close>

definition site_ip :: "site \<Rightarrow> u32" where
  "site_ip s = (case s of
     Rif k \<Rightarrow> [0xAB434C2E, 0x0A000001, 0xAC100001, 0xC0A80001, 0xC6B2E501, 0x8FC30002, 0x801E4CFF] ! k
   | Hst k \<Rightarrow> [0x0A000002, 0xAB434C01, 0xC0A80002, 0x8FC30001, 0xC6B2E52A, 0xC6B2E52B] ! k)"

lemma site_ip_inject:
  "l < 5 \<Longrightarrow> s \<in> set (members l) \<Longrightarrow> t \<in> set (members l) \<Longrightarrow> site_ip s = site_ip t \<longleftrightarrow> s = t"
  by (cases l rule: less_5_cases) (auto simp: site_ip_def)

definition station :: "(site \<Rightarrow> ethernet_address) \<Rightarrow> site \<Rightarrow> network_interface \<Rightarrow> bool" where
  "station E s ni \<longleftrightarrow> ni_ethernet_address ni = E s \<and> addr_ok (E s) \<and> E s \<noteq> ETHERNET_BROADCAST \<and>
     Address_ipv4_numeric (ni_ip_address ni) = Inr (site_ip s) \<and>
     omap_ok (ni_dg_map ni) \<and> omap_ok (ni_ip_to_eth_table ni) \<and> omap_ok (ni_ip_timeout_table ni) \<and>
     (\<forall>l i e. l < 5 \<longrightarrow> s \<in> set (members l) \<longrightarrow> omap_find (ni_ip_to_eth_table ni) i = Some e \<longrightarrow>
        (\<exists>t \<in> set (members l). i = site_ip t \<and> e = E t))"

text \<open>No datagram is kept and no request is open; or one datagram waits for the address it goes to.\<close>

definition calm :: "network_interface \<Rightarrow> bool" where
  "calm ni \<longleftrightarrow> (\<forall>i. dg_queue (ni_dg_map ni) i = []) \<and>
     (\<forall>i. omap_find (ni_ip_to_eth_table ni) i = None \<longrightarrow> omap_find (ni_ip_timeout_table ni) i = None)"

definition waits :: "network_interface \<Rightarrow> u32 \<Rightarrow> ipv4_datagram \<Rightarrow> bool" where
  "waits ni ip dg \<longleftrightarrow> omap_find (ni_ip_to_eth_table ni) ip = None \<and>
     (\<forall>i. dg_queue (ni_dg_map ni) i = (if i = ip then [dg] else [])) \<and>
     (\<forall>i. i \<noteq> ip \<longrightarrow> omap_find (ni_ip_to_eth_table ni) i = None \<longrightarrow> omap_find (ni_ip_timeout_table ni) i = None)"

lemma station_learn:
  assumes "station E s ni" and "l < 5" and "s \<in> set (members l)" and "a \<in> set (members l)"
  shows "station E s (learn_mapping (site_ip a) (E a) ni)"
proof (cases "omap_find (ni_ip_to_eth_table ni) (site_ip a)")
  case None
  have "\<exists>t \<in> set (members k). i = site_ip t \<and> e = E t"
    if k: "k < 5" "s \<in> set (members k)" and f: "omap_find (omap_insert (site_ip a) (E a) (ni_ip_to_eth_table ni)) i = Some e" for k i e
  proof (cases "i = site_ip a")
    case True
    have "k = l" by (rule members_disjoint [OF assms(2) k(1) assms(3) k(2)])
    with True f assms None show ?thesis by (auto simp: station_def om.find_insert)
  next
    case False
    with f assms(1) k show ?thesis by (auto simp: station_def om.find_insert)
  qed
  with None assms(1) show ?thesis by (simp add: station_def learn_mapping_def)
next
  case (Some e)
  with assms(1) show ?thesis by (simp add: learn_mapping_def)
qed

lemma calm_learn:
  assumes "calm ni" and "omap_ok (ni_ip_to_eth_table ni)" and "omap_ok (ni_ip_timeout_table ni)"
  shows "calm (learn_mapping ip e ni)"
  using assms by (auto simp: calm_def learn_mapping_def om.find_insert split: option.splits if_splits)

lemma calm_flush:
  assumes "station E s ni" and "datagram_ok dg" and "\<And>i. dg_queue (ni_dg_map ni) i = (if i = ip then [dg] else [])"
    and "omap_find (ni_ip_to_eth_table ni) ip \<noteq> None"
    and "\<And>i. i \<noteq> ip \<Longrightarrow> omap_find (ni_ip_to_eth_table ni) i = None \<Longrightarrow> omap_find (ni_ip_timeout_table ni) i = None"
  obtains f ni' where "NetworkInterface_flush_buffer ip eth ni = Inr ni'" "station E s ni'" "calm ni'"
    "ni_frames_out ni' = ni_frames_out ni @ [f]" "sent_as (E s) (ip, eth, dg) f"
proof -
  have ok: "omap_ok (ni_dg_map ni)" "ni_ethernet_address ni = E s" using assms(1) by (simp_all add: station_def)
  have q: "dg_queue (ni_dg_map ni) ip = [dg]" by (simp add: assms(3))
  obtain f m where fl: "NetworkInterface_flush_buffer ip eth ni = Inr (ni\<lparr>ni_dg_map := m, ni_frames_out := ni_frames_out ni @ [f]\<rparr>)"
    "sent_as (E s) (ip, eth, dg) f"
    using flush_buffer_single [OF assms(2) ok(1) q] ok(2) by metis
  have mv: "moves ni [] [(ip, eth, dg)] (ni\<lparr>ni_dg_map := m, ni_frames_out := ni_frames_out ni @ [f]\<rparr>)"
    using flush_buffer_moves(1) [OF fl(1) ok(1)] q by simp
  have "dg_queue m i = []" for i
  proof -
    have "sent_to i [(ip, eth, dg)] @ dg_queue m i = dg_queue (ni_dg_map ni) i" using mv by (simp add: moves_def)
    then show ?thesis using assms(3) [of i] by (auto simp: sent_to_def split: if_splits)
  qed
  moreover have "omap_ok m" using mv by (simp add: moves_def)
  moreover have "omap_find (ni_ip_timeout_table ni) i = None" if "omap_find (ni_ip_to_eth_table ni) i = None" for i
    using that assms(4,5) by (cases "i = ip") auto
  ultimately show thesis using fl assms(1)
    by (intro that [of "ni\<lparr>ni_dg_map := m, ni_frames_out := ni_frames_out ni @ [f]\<rparr>" f]) (auto simp: station_def calm_def)
qed

subsection \<open>Messages\<close>

text \<open>The frames of an exchange between two sites.\<close>

definition request_frame :: "(site \<Rightarrow> ethernet_address) \<Rightarrow> site \<Rightarrow> site \<Rightarrow> ethernet_frame \<Rightarrow> bool" where
  "request_frame E a b f \<longleftrightarrow> readable f \<and> eh_src (ef_header f) = E a \<and>
     (\<forall>ni. arp_in ni f = Some (arp_request_for (E a) (site_ip a) (site_ip b)))"

definition reply_frame :: "(site \<Rightarrow> ethernet_address) \<Rightarrow> site \<Rightarrow> site \<Rightarrow> ethernet_frame \<Rightarrow> bool" where
  "reply_frame E a b f \<longleftrightarrow> readable f \<and> eh_src (ef_header f) = E b \<and> eh_dst (ef_header f) = E a \<and>
     (\<forall>ni. ni_ethernet_address ni = E a \<longrightarrow> arp_in ni f = Some (arp_reply_to (E b) (site_ip b) (E a) (site_ip a)))"

lemma arp_frame_readable:
  assumes ok: "arp_ok m" and s: "ARPMessage_serialize m = Inr s" and "d = ETHERNET_BROADCAST \<or> d = ni_ethernet_address ni"
    and f_def: "f = \<lparr>ef_header = \<lparr>eh_dst = d, eh_src = e, eh_type = TYPE_ARP\<rparr>, ef_payload = BufferList_of_string s\<rparr>"
  shows "arp_in ni f = Some m" "readable f"
proof -
  show a: "arp_in ni f = Some m" by (rule arp_in_frame [OF ok s, where d = d]) (use assms(3) in \<open>simp_all add: f_def\<close>)
  have "length s = 28" using arp_roundtrip [OF ok] s by (metis sum.inject(2))
  then have "str_ok (BufferList_concatenate (ef_payload f))" by (simp add: f_def BufferList_of_string_def BufferList_concatenate_eq)
  with a show "readable f" by (rule readable_arp)
qed

lemma send_request:
  assumes "station E a ni"
  obtains f where "send_arp_request (site_ip b) ni = Inr (ni\<lparr>ni_frames_out := ni_frames_out ni @ [f]\<rparr>)" "request_frame E a b f"
proof -
  let ?m = "arp_request_for (E a) (site_ip a) (site_ip b)"
  have st: "addr_ok (E a)" "ni_ethernet_address ni = E a" "Address_ipv4_numeric (ni_ip_address ni) = Inr (site_ip a)"
    using assms by (simp_all add: station_def)
  obtain s where s: "ARPMessage_serialize ?m = Inr s" using arp_roundtrip [OF arp_messages_ok(1) [OF st(1)]] by metis
  let ?f = "\<lparr>ef_header = \<lparr>eh_dst = ETHERNET_BROADCAST, eh_src = E a, eh_type = TYPE_ARP\<rparr>, ef_payload = BufferList_of_string s\<rparr>"
  have "request_frame E a b ?f"
    using arp_frame_readable [OF arp_messages_ok(1) [OF st(1)] s disjI1 [OF refl] refl, where e = "E a"] by (simp add: request_frame_def)
  moreover have "send_arp_request (site_ip b) ni = Inr (ni\<lparr>ni_frames_out := ni_frames_out ni @ [?f]\<rparr>)"
    using st s by (simp add: send_arp_request_def Let_def arp_request_for_def)
  ultimately show thesis by (rule that [rotated])
qed

lemma send_reply:
  assumes "station E b ni" and "addr_ok (E a)"
  obtains f where "send_arp_reply (E a) (site_ip b) (site_ip a) ni = Inr (ni\<lparr>ni_frames_out := ni_frames_out ni @ [f]\<rparr>)" "reply_frame E a b f"
proof -
  let ?m = "arp_reply_to (E b) (site_ip b) (E a) (site_ip a)"
  have st: "addr_ok (E b)" "ni_ethernet_address ni = E b" using assms(1) by (simp_all add: station_def)
  note ok = arp_messages_ok(2) [OF st(1) assms(2), of "site_ip b" "site_ip a"]
  obtain s where s: "ARPMessage_serialize ?m = Inr s" using arp_roundtrip [OF ok] by metis
  let ?f = "\<lparr>ef_header = \<lparr>eh_dst = E a, eh_src = E b, eh_type = TYPE_ARP\<rparr>, ef_payload = BufferList_of_string s\<rparr>"
  have "arp_in nj ?f = Some ?m" "readable ?f" if "ni_ethernet_address nj = E a" for nj
    using arp_frame_readable [OF ok s, of "E a" nj ?f "E b"] that by simp_all
  moreover have "\<exists>nj :: network_interface. ni_ethernet_address nj = E a" by (rule exI [of _ "ni\<lparr>ni_ethernet_address := E a\<rparr>"]) simp
  ultimately have "reply_frame E a b ?f" by (auto simp: reply_frame_def)
  moreover have "send_arp_reply (E a) (site_ip b) (site_ip a) ni = Inr (ni\<lparr>ni_frames_out := ni_frames_out ni @ [?f]\<rparr>)"
    using st s by (simp add: send_arp_reply_def Let_def arp_reply_to_def)
  ultimately show thesis by (rule that [rotated])
qed

subsection \<open>What a station does\<close>

lemma send_known:
  assumes "station E a ni" and "calm ni" and "Address_ipv4_numeric hop = Inr (site_ip b)" and "datagram_ok dg"
    and "omap_find (ni_ip_to_eth_table ni) (site_ip b) = Some (E b)"
  obtains f ni' where "NetworkInterface_send_datagram dg hop ni = Inr ni'" "station E a ni'" "calm ni'"
    "ni_frames_out ni' = ni_frames_out ni @ [f]" "sent_as (E a) (site_ip b, E b, dg) f"
proof -
  let ?Q = "ni_queued (site_ip b) dg ni"
  have st: "station E a ?Q" using assms(1) by (simp add: station_def)
  have q: "dg_queue (ni_dg_map ?Q) i = (if i = site_ip b then [dg] else [])" for i
    using assms(1,2) by (simp add: station_def calm_def)
  obtain f ni' where "NetworkInterface_flush_buffer (site_ip b) (E b) ?Q = Inr ni'" "station E a ni'" "calm ni'"
    "ni_frames_out ni' = ni_frames_out ?Q @ [f]" "sent_as (E a) (site_ip b, E b, dg) f"
    by (rule calm_flush [OF st assms(4) q, where eth = "E b"]) (use assms(2,5) in \<open>auto simp: calm_def\<close>)
  with send_datagram_cases(1) [OF assms(3,5), of dg] show thesis by (intro that [of ni' f]) simp_all
qed

lemma send_unknown:
  assumes "station E a ni" and "calm ni" and "Address_ipv4_numeric hop = Inr (site_ip b)"
    and "omap_find (ni_ip_to_eth_table ni) (site_ip b) = None"
  obtains f ni' where "NetworkInterface_send_datagram dg hop ni = Inr ni'" "station E a ni'" "waits ni' (site_ip b) dg"
    "ni_frames_out ni' = ni_frames_out ni @ [f]" "request_frame E a b f"
proof -
  let ?Q = "ni_queued (site_ip b) dg ni"
  have st: "station E a ?Q" using assms(1) by (simp add: station_def)
  have none: "omap_find (ni_ip_timeout_table ni) (site_ip b) = None" using assms(2,4) by (simp add: calm_def)
  obtain f where f: "send_arp_request (site_ip b) ?Q = Inr (?Q\<lparr>ni_frames_out := ni_frames_out ?Q @ [f]\<rparr>)" "request_frame E a b f"
    using send_request [OF st] by blast
  let ?ni = "?Q\<lparr>ni_frames_out := ni_frames_out ni @ [f], ni_ip_timeout_table := omap_insert (site_ip b) (ni_system_time ni) (ni_ip_timeout_table ni)\<rparr>"
  have "NetworkInterface_send_datagram dg hop ni = Inr ?ni"
    using send_datagram_cases(2) [OF assms(3,4) none, of dg] f(1) by simp
  moreover have "station E a ?ni" using assms(1) by (simp add: station_def)
  moreover have "waits ?ni (site_ip b) dg"
    using assms(1,2,4) by (auto simp: waits_def calm_def station_def om.find_insert)
  ultimately show thesis using f(2) by (intro that [of ?ni f]) simp_all
qed

lemma hear_request:
  assumes "station E s ni" and "request_frame E a b f" and "l < 5" and "set [s, a, b] \<subseteq> set (members l)" and "s \<noteq> b"
  shows "NetworkInterface_recv_frame f ni = Inr (None, learn_mapping (site_ip a) (E a) ni)"
proof -
  have m: "arp_in ni f = Some (arp_request_for (E a) (site_ip a) (site_ip b))" "eh_src (ef_header f) = E a"
    using assms(2) by (simp_all add: request_frame_def)
  have "site_ip b \<noteq> site_ip s" using site_ip_inject [OF assms(3), of b s] assms(4,5) by auto
  moreover have "Address_ipv4_numeric (ni_ip_address ni) = Inr (site_ip s)" using assms(1) by (simp add: station_def)
  ultimately show ?thesis by (simp add: recv_frame_arp_eq [OF m(1)] m(2) arp_request_for_def)
qed

lemma answer_request:
  assumes "station E b ni" and "calm ni" and "request_frame E a b f" and "addr_ok (E a)" and "l < 5" and "set [a, b] \<subseteq> set (members l)"
  obtains g ni' where "NetworkInterface_recv_frame f ni = Inr (None, ni')" "station E b ni'" "calm ni'"
    "ni_frames_out ni' = ni_frames_out ni @ [g]" "reply_frame E a b g"
proof -
  let ?ni = "learn_mapping (site_ip a) (E a) ni"
  have m: "arp_in ni f = Some (arp_request_for (E a) (site_ip a) (site_ip b))" "eh_src (ef_header f) = E a"
    using assms(3) by (simp_all add: request_frame_def)
  have st: "station E b ?ni" using assms(6) by (intro station_learn [OF assms(1,5)]) simp_all
  have c: "calm ?ni" using assms(1,2) by (intro calm_learn) (simp_all add: station_def)
  obtain g where g: "send_arp_reply (E a) (site_ip b) (site_ip a) ?ni = Inr (?ni\<lparr>ni_frames_out := ni_frames_out ?ni @ [g]\<rparr>)" "reply_frame E a b g"
    using send_reply [OF st assms(4)] by blast
  have "Address_ipv4_numeric (ni_ip_address ni) = Inr (site_ip b)" using assms(1) by (simp add: station_def)
  then have "NetworkInterface_recv_frame f ni = Inr (None, ?ni\<lparr>ni_frames_out := ni_frames_out ?ni @ [g]\<rparr>)"
    using g(1) by (simp add: recv_frame_arp_eq [OF m(1)] m(2) arp_request_for_def)
  moreover have "station E b (?ni\<lparr>ni_frames_out := ni_frames_out ?ni @ [g]\<rparr>)" "calm (?ni\<lparr>ni_frames_out := ni_frames_out ?ni @ [g]\<rparr>)"
    using st c by (simp_all add: station_def calm_def)
  ultimately show thesis using g(2) by (intro that [of "?ni\<lparr>ni_frames_out := ni_frames_out ?ni @ [g]\<rparr>" g]) simp_all
qed

lemma take_reply:
  assumes "station E a ni" and "waits ni (site_ip b) dg" and "datagram_ok dg" and "reply_frame E a b g" and "l < 5" and "set [a, b] \<subseteq> set (members l)"
  obtains h ni' where "NetworkInterface_recv_frame g ni = Inr (None, ni')" "station E a ni'" "calm ni'"
    "ni_frames_out ni' = ni_frames_out ni @ [h]" "sent_as (E a) (site_ip b, E b, dg) h"
proof -
  let ?ni = "learn_mapping (site_ip b) (E b) ni"
  have m: "arp_in ni g = Some (arp_reply_to (E b) (site_ip b) (E a) (site_ip a))" "eh_src (ef_header g) = E b"
    using assms(1,4) by (simp_all add: reply_frame_def station_def)
  have st: "station E a ?ni" using assms(6) by (intro station_learn [OF assms(1,5)]) simp_all
  have ok: "omap_ok (ni_ip_to_eth_table ni)" "omap_ok (ni_ip_timeout_table ni)" using assms(1) by (simp_all add: station_def)
  have q: "dg_queue (ni_dg_map ?ni) i = (if i = site_ip b then [dg] else [])" for i using assms(2) by (simp add: waits_def)
  obtain h ni' where h: "NetworkInterface_flush_buffer (site_ip b) (E b) ?ni = Inr ni'" "station E a ni'" "calm ni'"
    "ni_frames_out ni' = ni_frames_out ?ni @ [h]" "sent_as (E a) (site_ip b, E b, dg) h"
    by (rule calm_flush [OF st assms(3) q, where eth = "E b"])
      (use assms(2) ok in \<open>auto simp: waits_def learn_mapping_def om.find_insert\<close>)
  have "Address_ipv4_numeric (ni_ip_address ni) = Inr (site_ip a)" using assms(1) by (simp add: station_def)
  then have "NetworkInterface_recv_frame g ni = Inr (None, ni')"
    using h(1) by (simp add: recv_frame_arp_eq [OF m(1)] m(2) arp_reply_to_def OPCODE_REPLY_def OPCODE_REQUEST_def)
  with h show thesis by (intro that [of ni' h]) simp_all
qed

lemma ignore_frame:
  assumes "station E s ni" and "eh_dst (ef_header f) \<noteq> E s" and "eh_dst (ef_header f) \<noteq> ETHERNET_BROADCAST"
  shows "NetworkInterface_recv_frame f ni = Inr (None, ni)"
  using assms by (simp add: NetworkInterface_recv_frame_def station_def)

subsection \<open>Phases\<close>

definition idle_site :: "(site \<Rightarrow> ethernet_address) \<Rightarrow> network \<Rightarrow> site \<Rightarrow> bool" where
  "idle_site E nw s \<longleftrightarrow> station E s (ai_interface (site_at nw s)) \<and> calm (ai_interface (site_at nw s)) \<and>
     frames_out (site_at nw s) = [] \<and> ai_datagrams_out (site_at nw s) = []"

text \<open>No other site of the link has the address of one of the two.\<close>

definition hop_ok :: "(site \<Rightarrow> ethernet_address) \<Rightarrow> nat \<Rightarrow> site \<Rightarrow> site \<Rightarrow> bool" where
  "hop_ok E l a b \<longleftrightarrow> l < 5 \<and> a \<in> set (members l) \<and> b \<in> set (members l) \<and> a \<noteq> b \<and>
     (\<forall>z \<in> set (members l) - {a, b}. E z \<noteq> E a \<and> E z \<noteq> E b)"

definition asking :: "(site \<Rightarrow> ethernet_address) \<Rightarrow> site \<Rightarrow> site \<Rightarrow> ipv4_datagram \<Rightarrow> network \<Rightarrow> bool" where
  "asking E a b dg nw \<longleftrightarrow> net_shape nw \<and> datagram_ok dg \<and> (\<forall>s. valid_site s \<longrightarrow> s \<noteq> a \<longrightarrow> idle_site E nw s) \<and>
     station E a (ai_interface (site_at nw a)) \<and> waits (ai_interface (site_at nw a)) (site_ip b) dg \<and>
     ai_datagrams_out (site_at nw a) = [] \<and> (\<exists>f. frames_out (site_at nw a) = [f] \<and> request_frame E a b f)"

definition replying :: "(site \<Rightarrow> ethernet_address) \<Rightarrow> site \<Rightarrow> site \<Rightarrow> ipv4_datagram \<Rightarrow> network \<Rightarrow> bool" where
  "replying E a b dg nw \<longleftrightarrow> net_shape nw \<and> datagram_ok dg \<and> (\<forall>s. valid_site s \<longrightarrow> s \<noteq> a \<longrightarrow> s \<noteq> b \<longrightarrow> idle_site E nw s) \<and>
     station E a (ai_interface (site_at nw a)) \<and> waits (ai_interface (site_at nw a)) (site_ip b) dg \<and>
     ai_datagrams_out (site_at nw a) = [] \<and> frames_out (site_at nw a) = [] \<and>
     station E b (ai_interface (site_at nw b)) \<and> calm (ai_interface (site_at nw b)) \<and>
     ai_datagrams_out (site_at nw b) = [] \<and> (\<exists>g. frames_out (site_at nw b) = [g] \<and> reply_frame E a b g)"

definition sending :: "(site \<Rightarrow> ethernet_address) \<Rightarrow> site \<Rightarrow> site \<Rightarrow> ipv4_datagram \<Rightarrow> network \<Rightarrow> bool" where
  "sending E a b dg nw \<longleftrightarrow> net_shape nw \<and> datagram_ok dg \<and> (\<forall>s. valid_site s \<longrightarrow> s \<noteq> a \<longrightarrow> idle_site E nw s) \<and>
     station E a (ai_interface (site_at nw a)) \<and> calm (ai_interface (site_at nw a)) \<and>
     ai_datagrams_out (site_at nw a) = [] \<and> (\<exists>f. frames_out (site_at nw a) = [f] \<and> sent_as (E a) (site_ip b, E b, dg) f)"

definition arrived :: "(site \<Rightarrow> ethernet_address) \<Rightarrow> site \<Rightarrow> ipv4_datagram \<Rightarrow> network \<Rightarrow> bool" where
  "arrived E b dg nw \<longleftrightarrow> net_shape nw \<and> (\<forall>s. valid_site s \<longrightarrow> s \<noteq> b \<longrightarrow> idle_site E nw s) \<and>
     station E b (ai_interface (site_at nw b)) \<and> calm (ai_interface (site_at nw b)) \<and>
     ai_datagrams_out (site_at nw b) = [dg] \<and> frames_out (site_at nw b) = []"

lemma recv_none:
  "NetworkInterface_recv_frame f (ai_interface ai) = Inr (None, ni) \<Longrightarrow>
     AsyncNetworkInterface_recv_frame f ai = Inr (ai\<lparr>ai_interface := ni\<rparr>)"
  by (simp add: AsyncNetworkInterface_recv_frame_def)

lemma cleared_simps [simp]:
  "frames_out (cleared ai) = []" "ai_datagrams_out (cleared ai) = ai_datagrams_out ai"
  "station E s (ai_interface (cleared ai)) = station E s (ai_interface ai)"
  "calm (ai_interface (cleared ai)) = calm (ai_interface ai)"
  "waits (ai_interface (cleared ai)) ip dg = waits (ai_interface ai) ip dg"
  by (simp_all add: cleared_def frames_out_def station_def calm_def waits_def)

lemma idle_cong: "site_at nw' s = site_at nw s \<Longrightarrow> idle_site E nw' s = idle_site E nw s"
  by (simp add: idle_site_def)

lemma frame_heard:
  assumes "net_shape nw" and "l < 5" and "a \<in> set (members l)" and "readable f" and "frames_out (site_at nw a) = [f]"
    and "\<forall>s. valid_site s \<and> s \<noteq> a \<longrightarrow> frames_out (site_at nw s) = []"
    and "\<forall>s. s \<in> set (members l) \<and> s \<noteq> a \<longrightarrow> AsyncNetworkInterface_recv_frame f (site_at nw s) = Inr (A s)"
  obtains nw' where "simulate_physical_connections rs nw = Inr nw'" "net_shape nw'" "net_rest nw' = net_rest nw"
    "\<forall>s. site_at nw' s = (if s = a then cleared (site_at nw a) else if s \<in> set (members l) then A s else site_at nw s)"
proof -
  have "frames_out (site_at nw s) = []" if "valid_site s" "s \<noteq> a" for s using assms(6) that by blast
  moreover have "AsyncNetworkInterface_recv_frame f (site_at nw b) = Inr (A b)" if "b \<in> set (members l)" "b \<noteq> a" for b
    using assms(7) that by blast
  ultimately have "\<exists>nw'. simulate_physical_connections rs nw = Inr nw' \<and> net_shape nw' \<and> net_rest nw' = net_rest nw \<and>
     (\<forall>s. site_at nw' s = (if s = a then cleared (site_at nw a) else if s \<in> set (members l) then A s else site_at nw s))"
    by (rule phys_one [OF assms(1-5)])
  then show thesis by (elim exE conjE) (rule that)
qed

lemma asking_step:
  assumes h: "hop_ok E l a b" and p: "asking E a b dg nw"
  shows "\<exists>nw'. simulate_physical_connections rs nw = Inr nw' \<and> replying E a b dg nw' \<and> net_rest nw' = net_rest nw"
proof -
  have l: "l < 5" "a \<in> set (members l)" "b \<in> set (members l)" "a \<noteq> b" using h by (simp_all add: hop_ok_def)
  have sh: "net_shape nw" and idle: "\<And>s. valid_site s \<Longrightarrow> s \<noteq> a \<Longrightarrow> idle_site E nw s" using p by (simp_all add: asking_def)
  obtain f where f: "frames_out (site_at nw a) = [f]" "request_frame E a b f" using p by (auto simp: asking_def)
  have vb: "valid_site b" by (rule members_valid [OF l(1,3)])
  have b: "station E b (ai_interface (site_at nw b))" "calm (ai_interface (site_at nw b))" "frames_out (site_at nw b) = []"
    "ai_datagrams_out (site_at nw b) = []" using idle [OF vb] l(4) by (simp_all add: idle_site_def)
  have ok: "addr_ok (E a)" "set [a, b] \<subseteq> set (members l)" using p l(2,3) by (simp_all add: asking_def station_def)
  obtain g ni where g: "NetworkInterface_recv_frame f (ai_interface (site_at nw b)) = Inr (None, ni)" "station E b ni" "calm ni"
    "ni_frames_out ni = ni_frames_out (ai_interface (site_at nw b)) @ [g]" "reply_frame E a b g"
    by (rule answer_request [OF b(1,2) f(2) ok(1) l(1) ok(2)])
  define A where "A s = (if s = b then (site_at nw b)\<lparr>ai_interface := ni\<rparr>
     else (site_at nw s)\<lparr>ai_interface := learn_mapping (site_ip a) (E a) (ai_interface (site_at nw s))\<rparr>)" for s
  have st: "station E s (ai_interface (site_at nw s))" if "valid_site s" "s \<noteq> a" for s using idle [OF that] by (simp add: idle_site_def)
  have "AsyncNetworkInterface_recv_frame f (site_at nw s) = Inr (A s)" if "s \<in> set (members l)" "s \<noteq> a" for s
  proof (cases "s = b")
    case True
    then show ?thesis using g(1) by (simp add: A_def recv_none)
  next
    case False
    then show ?thesis using hear_request [OF st [OF members_valid [OF l(1) that(1)] that(2)] f(2) l(1)] that l(2,3)
      by (simp add: A_def recv_none)
  qed
  then have A: "\<forall>s. s \<in> set (members l) \<and> s \<noteq> a \<longrightarrow> AsyncNetworkInterface_recv_frame f (site_at nw s) = Inr (A s)" by blast
  have rd: "readable f" using f(2) by (simp add: request_frame_def)
  have fr: "\<forall>s. valid_site s \<and> s \<noteq> a \<longrightarrow> frames_out (site_at nw s) = []" using idle by (simp add: idle_site_def)
  obtain nw' where nw': "simulate_physical_connections rs nw = Inr nw'" "net_shape nw'" "net_rest nw' = net_rest nw"
    and at: "\<forall>s. site_at nw' s = (if s = a then cleared (site_at nw a) else if s \<in> set (members l) then A s else site_at nw s)"
    by (rule frame_heard [OF sh l(1,2) rd f(1) fr A])
  have "idle_site E nw' s" if "valid_site s" "s \<noteq> a" "s \<noteq> b" for s
  proof (cases "s \<in> set (members l)")
    case True
    have "station E s (learn_mapping (site_ip a) (E a) (ai_interface (site_at nw s)))"
      by (rule station_learn [OF st [OF that(1,2)] l(1) True l(2)])
    moreover have "calm (learn_mapping (site_ip a) (E a) (ai_interface (site_at nw s)))"
      using idle [OF that(1,2)] by (intro calm_learn) (simp_all add: idle_site_def station_def)
    ultimately show ?thesis using idle [OF that(1,2)] at [rule_format, of s] that True by (simp add: idle_site_def A_def frames_out_def)
  next
    case False
    then have "site_at nw' s = site_at nw s" using at that(2) by simp
    from idle_cong [OF this] idle [OF that(1,2)] show ?thesis by simp
  qed
  moreover have "site_at nw' b = (site_at nw b)\<lparr>ai_interface := ni\<rparr>" using at [rule_format, of b] l(3,4) by (simp add: A_def)
  moreover have "site_at nw' a = cleared (site_at nw a)" using at [rule_format, of a] by simp
  ultimately have "replying E a b dg nw'" using p nw'(2) g b(3,4) by (simp add: replying_def asking_def frames_out_def cleared_simps(1) [unfolded frames_out_def])
  with nw'(1,3) show ?thesis by blast
qed

lemma replying_step:
  assumes h: "hop_ok E l a b" and p: "replying E a b dg nw"
  shows "\<exists>nw'. simulate_physical_connections rs nw = Inr nw' \<and> sending E a b dg nw' \<and> net_rest nw' = net_rest nw"
proof -
  have l: "l < 5" "a \<in> set (members l)" "b \<in> set (members l)" "a \<noteq> b" "set [a, b] \<subseteq> set (members l)"
    and z: "\<And>z. z \<in> set (members l) \<Longrightarrow> z \<noteq> a \<Longrightarrow> z \<noteq> b \<Longrightarrow> E z \<noteq> E a" using h by (auto simp: hop_ok_def)
  have sh: "net_shape nw" and idle: "\<And>s. valid_site s \<Longrightarrow> s \<noteq> a \<Longrightarrow> s \<noteq> b \<Longrightarrow> idle_site E nw s" using p by (simp_all add: replying_def)
  obtain g where g: "frames_out (site_at nw b) = [g]" "reply_frame E a b g" using p by (auto simp: replying_def)
  have a: "station E a (ai_interface (site_at nw a))" "waits (ai_interface (site_at nw a)) (site_ip b) dg" "datagram_ok dg"
    "frames_out (site_at nw a) = []" using p by (simp_all add: replying_def)
  obtain f ni where f: "NetworkInterface_recv_frame g (ai_interface (site_at nw a)) = Inr (None, ni)" "station E a ni" "calm ni"
    "ni_frames_out ni = ni_frames_out (ai_interface (site_at nw a)) @ [f]" "sent_as (E a) (site_ip b, E b, dg) f"
    by (rule take_reply [OF a(1-3) g(2) l(1,5)])
  define A where "A s = (if s = a then (site_at nw a)\<lparr>ai_interface := ni\<rparr> else site_at nw s)" for s
  have "AsyncNetworkInterface_recv_frame g (site_at nw s) = Inr (A s)" if s: "s \<in> set (members l)" "s \<noteq> b" for s
  proof (cases "s = a")
    case True
    then show ?thesis using f(1) by (simp add: A_def recv_none)
  next
    case False
    have "station E s (ai_interface (site_at nw s))"
      using idle [OF members_valid [OF l(1) s(1)] False s(2)] by (simp add: idle_site_def)
    moreover have "eh_dst (ef_header g) = E a" "E a \<noteq> ETHERNET_BROADCAST" using g(2) a(1) by (simp_all add: reply_frame_def station_def)
    ultimately show ?thesis using ignore_frame [of E s "ai_interface (site_at nw s)" g] z [OF s(1) False s(2)] False
      by (simp add: A_def recv_none)
  qed
  then have A: "\<forall>s. s \<in> set (members l) \<and> s \<noteq> b \<longrightarrow> AsyncNetworkInterface_recv_frame g (site_at nw s) = Inr (A s)" by blast
  have rd: "readable g" using g(2) by (simp add: reply_frame_def)
  have fr: "\<forall>s. valid_site s \<and> s \<noteq> b \<longrightarrow> frames_out (site_at nw s) = []" using idle a(4) by (metis idle_site_def)
  obtain nw' where nw': "simulate_physical_connections rs nw = Inr nw'" "net_shape nw'" "net_rest nw' = net_rest nw"
    and at: "\<forall>s. site_at nw' s = (if s = b then cleared (site_at nw b) else if s \<in> set (members l) then A s else site_at nw s)"
    by (rule frame_heard [OF sh l(1,3) rd g(1) fr A])
  have "idle_site E nw' s" if s: "valid_site s" "s \<noteq> a" for s
  proof (cases "s = b")
    case True
    then show ?thesis using p at [rule_format, of b] by (simp add: idle_site_def replying_def)
  next
    case False
    then have "site_at nw' s = site_at nw s" using at [rule_format, of s] s(2) by (simp add: A_def)
    from idle_cong [OF this] idle [OF s False] show ?thesis by simp
  qed
  moreover have "site_at nw' a = (site_at nw a)\<lparr>ai_interface := ni\<rparr>" using at [rule_format, of a] l(2,4) by (simp add: A_def)
  ultimately have "sending E a b dg nw'" using p nw'(2) f a(4) by (simp add: sending_def replying_def frames_out_def)
  with nw'(1,3) show ?thesis by blast
qed

lemma sending_step:
  assumes h: "hop_ok E l a b" and p: "sending E a b dg nw"
  shows "\<exists>nw' dg' c. simulate_physical_connections rs nw = Inr nw' \<and> arrived E b dg' nw' \<and> same_datagram dg c dg' \<and> net_rest nw' = net_rest nw"
proof -
  have l: "l < 5" "a \<in> set (members l)" "b \<in> set (members l)" "a \<noteq> b"
    and z: "\<And>z. z \<in> set (members l) \<Longrightarrow> z \<noteq> a \<Longrightarrow> z \<noteq> b \<Longrightarrow> E z \<noteq> E b" using h by (auto simp: hop_ok_def)
  have sh: "net_shape nw" and idle: "\<And>s. valid_site s \<Longrightarrow> s \<noteq> a \<Longrightarrow> idle_site E nw s" using p by (simp_all add: sending_def)
  obtain f where f: "frames_out (site_at nw a) = [f]" "sent_as (E a) (site_ip b, E b, dg) f" using p by (auto simp: sending_def)
  have dg: "datagram_ok dg" using p by (simp add: sending_def)
  have b: "idle_site E nw b" by (rule idle [OF members_valid [OF l(1,3)] l(4) [symmetric]])
  then have st: "station E b (ai_interface (site_at nw b))" by (simp add: idle_site_def)
  then have "sent_as (E a) (site_ip b, ni_ethernet_address (ai_interface (site_at nw b)), dg) f" using f(2) by (simp add: station_def)
  from recv_frame_datagram [OF dg this] obtain dg' c where
    r: "NetworkInterface_recv_frame f (ai_interface (site_at nw b)) = Inr (Some dg', ai_interface (site_at nw b))" "same_datagram dg c dg'" .
  define A where "A s = (if s = b then (site_at nw b)\<lparr>ai_datagrams_out := [dg']\<rparr> else site_at nw s)" for s
  have "AsyncNetworkInterface_recv_frame f (site_at nw s) = Inr (A s)" if s: "s \<in> set (members l)" "s \<noteq> a" for s
  proof (cases "s = b")
    case True
    then show ?thesis using r(1) b by (simp add: A_def AsyncNetworkInterface_recv_frame_def idle_site_def)
  next
    case False
    have "station E s (ai_interface (site_at nw s))" using idle [OF members_valid [OF l(1) s(1)] s(2)] by (simp add: idle_site_def)
    moreover have "eh_dst (ef_header f) = E b" "E b \<noteq> ETHERNET_BROADCAST" using f(2) st by (simp_all add: sent_as_def station_def)
    ultimately show ?thesis using ignore_frame [of E s "ai_interface (site_at nw s)" f] z [OF s False] False
      by (simp add: A_def recv_none)
  qed
  then have A: "\<forall>s. s \<in> set (members l) \<and> s \<noteq> a \<longrightarrow> AsyncNetworkInterface_recv_frame f (site_at nw s) = Inr (A s)" by blast
  have rd: "readable f" by (rule readable_ip [OF dg f(2)])
  have fr: "\<forall>s. valid_site s \<and> s \<noteq> a \<longrightarrow> frames_out (site_at nw s) = []" using idle by (simp add: idle_site_def)
  obtain nw' where nw': "simulate_physical_connections rs nw = Inr nw'" "net_shape nw'" "net_rest nw' = net_rest nw"
    and at: "\<forall>s. site_at nw' s = (if s = a then cleared (site_at nw a) else if s \<in> set (members l) then A s else site_at nw s)"
    by (rule frame_heard [OF sh l(1,2) rd f(1) fr A])
  have "idle_site E nw' s" if s: "valid_site s" "s \<noteq> b" for s
  proof (cases "s = a")
    case True
    then show ?thesis using p at [rule_format, of a] by (simp add: idle_site_def sending_def)
  next
    case False
    then have "site_at nw' s = site_at nw s" using at [rule_format, of s] s(2) by (simp add: A_def)
    from idle_cong [OF this] idle [OF s(1) False] show ?thesis by simp
  qed
  moreover have "site_at nw' b = (site_at nw b)\<lparr>ai_datagrams_out := [dg']\<rparr>" using at [rule_format, of b] l(3,4) by (simp add: A_def)
  ultimately have "arrived E b dg' nw'" using nw'(2) b by (simp add: arrived_def idle_site_def frames_out_def)
  with nw'(1,3) r(2) show ?thesis by blast
qed

end
