(* ===== verification/Simulated_Runs.thy ===== *)
theory Simulated_Runs
  imports Simulated_Hops
begin

text \<open>
  Rounds of the simulation: a datagram that a host has handed to its interface reaches the
  router, the router puts it on the link of the longest matching prefix, and it arrives at the next
  site with its time to live decreased, all within six rounds; then nothing moves any more.
\<close>

subsection \<open>Rounds\<close>

text \<open>Within a number of rounds the network gets to a state with a property, with the routes and hosts as they were.\<close>

definition leads :: "resolver \<Rightarrow> nat \<Rightarrow> (network \<Rightarrow> bool) \<Rightarrow> network \<Rightarrow> bool" where
  "leads rs k P nw \<longleftrightarrow> (\<exists>n nw'. n \<le> k \<and> simulate_rounds n rs nw = Inr nw' \<and> net_rest nw' = net_rest nw \<and> P nw')"

lemma simulate_rounds_add:
  "simulate_rounds (m + n) rs nw = rbind (simulate_rounds m rs nw) (simulate_rounds n rs)"
proof (induction m arbitrary: nw)
  case (Suc m)
  then show ?case by (cases "simulate_round rs nw") simp_all
qed simp

lemma leads_here: "P nw \<Longrightarrow> leads rs k P nw"
  unfolding leads_def by (intro exI [of _ 0] exI [of _ nw]) simp

lemma leads_trans:
  assumes "leads rs k P nw" and "\<And>nw'. P nw' \<Longrightarrow> net_rest nw' = net_rest nw \<Longrightarrow> leads rs m Q nw'"
  shows "leads rs (k + m) Q nw"
proof -
  from assms(1) obtain i nw1 where 1: "i \<le> k" "simulate_rounds i rs nw = Inr nw1" "net_rest nw1 = net_rest nw" "P nw1"
    by (auto simp: leads_def)
  from assms(2) [OF 1(4,3)] obtain j nw2 where 2: "j \<le> m" "simulate_rounds j rs nw1 = Inr nw2" "net_rest nw2 = net_rest nw1" "Q nw2"
    by (auto simp: leads_def)
  have "simulate_rounds (i + j) rs nw = Inr nw2" using 1(2) 2(2) by (simp add: simulate_rounds_add)
  with 1 2 show ?thesis unfolding leads_def by (intro exI [of _ "i + j"] exI [of _ nw2]) simp
qed

lemma leads_step:
  assumes "simulate_round rs nw = Inr nw'" and "net_rest nw' = net_rest nw" and "leads rs k P nw'"
  shows "leads rs (Suc k) P nw"
proof -
  from assms(3) obtain j nw2 where "j \<le> k" "simulate_rounds j rs nw' = Inr nw2" "net_rest nw2 = net_rest nw'" "P nw2"
    by (auto simp: leads_def)
  with assms(1,2) show ?thesis unfolding leads_def by (intro exI [of _ "Suc j"] exI [of _ nw2]) simp
qed

lemma leads_mono: "leads rs k P nw \<Longrightarrow> k \<le> m \<Longrightarrow> leads rs m P nw"
  unfolding leads_def by (meson order_trans)

lemma route_interfaces_quiet:
  "(\<And>i. i \<in> set is \<Longrightarrow> ai_datagrams_out (rt_interfaces r ! i) = []) \<Longrightarrow> route_interfaces is r = Inr r"
  by (induction "is") simp_all

lemma round_without_datagrams:
  assumes "net_shape nw" and "\<And>k. k < 7 \<Longrightarrow> ai_datagrams_out (site_at nw (Rif k)) = []"
  shows "simulate_round rs nw = simulate_physical_connections rs nw"
proof -
  have "Router_route (nw_router nw) = Inr (nw_router nw)"
    unfolding Router_route_def using assms net_shape_lengths [OF assms(1)]
    by (intro route_interfaces_quiet) (simp add: site_at_def)
  then show ?thesis by (simp add: simulate_round_def)
qed

subsection \<open>One hop\<close>

definition hopping :: "(site \<Rightarrow> ethernet_address) \<Rightarrow> site \<Rightarrow> site \<Rightarrow> ipv4_datagram \<Rightarrow> network \<Rightarrow> bool" where
  "hopping E a b dg nw \<longleftrightarrow> asking E a b dg nw \<or> replying E a b dg nw \<or> sending E a b dg nw"

definition hopped :: "(site \<Rightarrow> ethernet_address) \<Rightarrow> site \<Rightarrow> ipv4_datagram \<Rightarrow> network \<Rightarrow> bool" where
  "hopped E b dg nw \<longleftrightarrow> (\<exists>dg' c. arrived E b dg' nw \<and> same_datagram dg c dg')"

lemma hopping_quiet:
  assumes "hop_ok E l a b" and "hopping E a b dg nw"
  shows "net_shape nw" "valid_site s \<Longrightarrow> ai_datagrams_out (site_at nw s) = []"
  using assms by (auto simp: hopping_def asking_def replying_def sending_def idle_site_def)

lemma hopping_round:
  assumes "hop_ok E l a b" and "hopping E a b dg nw"
  shows "simulate_round rs nw = simulate_physical_connections rs nw"
  by (rule round_without_datagrams [OF hopping_quiet(1) [OF assms] hopping_quiet(2) [OF assms]]) (simp add: valid_sites)

lemma sending_leads:
  assumes "hop_ok E l a b" and "sending E a b dg nw"
  shows "leads rs 1 (hopped E b dg) nw"
proof -
  obtain nw' where "simulate_physical_connections rs nw = Inr nw'" "hopped E b dg nw'" "net_rest nw' = net_rest nw"
    using sending_step [OF assms] unfolding hopped_def by blast
  moreover have "simulate_round rs nw = simulate_physical_connections rs nw"
    by (rule hopping_round [OF assms(1), where dg = dg]) (use assms(2) in \<open>simp add: hopping_def\<close>)
  ultimately show ?thesis using leads_step [of rs nw nw' 0] leads_here by simp
qed

lemma replying_leads:
  assumes "hop_ok E l a b" and "replying E a b dg nw"
  shows "leads rs 2 (hopped E b dg) nw"
proof -
  obtain nw' where "simulate_physical_connections rs nw = Inr nw'" "sending E a b dg nw'" "net_rest nw' = net_rest nw"
    using replying_step [OF assms] by blast
  moreover have "simulate_round rs nw = simulate_physical_connections rs nw"
    by (rule hopping_round [OF assms(1), where dg = dg]) (use assms(2) in \<open>simp add: hopping_def\<close>)
  ultimately show ?thesis using leads_step [of rs nw nw' 1] sending_leads [OF assms(1)] by (simp add: numeral_2_eq_2)
qed

lemma hop_leads:
  assumes "hop_ok E l a b" and "hopping E a b dg nw"
  shows "leads rs 3 (hopped E b dg) nw"
proof (cases "asking E a b dg nw")
  case True
  then obtain nw' where "simulate_physical_connections rs nw = Inr nw'" "replying E a b dg nw'" "net_rest nw' = net_rest nw"
    using asking_step [OF assms(1)] by blast
  then show ?thesis using leads_step [of rs nw nw' 2] replying_leads [OF assms(1)] hopping_round [OF assms] by simp
next
  case False
  with assms(2) consider "replying E a b dg nw" | "sending E a b dg nw" by (auto simp: hopping_def)
  then show ?thesis
  proof cases
    case 1
    show ?thesis by (rule leads_mono [OF replying_leads [OF assms(1) 1]]) simp
  next
    case 2
    show ?thesis by (rule leads_mono [OF sending_leads [OF assms(1) 2]]) simp
  qed
qed

text \<open>After the router has put a datagram on a link, the rest of the round is the first exchange of the hop.\<close>

lemma hop_phys:
  assumes "hop_ok E l a b" and "hopping E a b dg nw"
  shows "\<exists>nw'. simulate_physical_connections rs nw = Inr nw' \<and> net_rest nw' = net_rest nw \<and> leads rs 2 (hopped E b dg) nw'"
proof -
  consider "asking E a b dg nw" | "replying E a b dg nw" | "sending E a b dg nw" using assms(2) by (auto simp: hopping_def)
  then show ?thesis
  proof cases
    case 1
    then obtain nw' where "simulate_physical_connections rs nw = Inr nw'" "replying E a b dg nw'" "net_rest nw' = net_rest nw"
      using asking_step [OF assms(1)] by blast
    with replying_leads [OF assms(1)] show ?thesis by blast
  next
    case 2
    then obtain nw' where n: "simulate_physical_connections rs nw = Inr nw'" "sending E a b dg nw'" "net_rest nw' = net_rest nw"
      using replying_step [OF assms(1)] by blast
    have "leads rs 2 (hopped E b dg) nw'" by (rule leads_mono [OF sending_leads [OF assms(1) n(2)]]) simp
    with n show ?thesis by blast
  next
    case 3
    then obtain nw' where n: "simulate_physical_connections rs nw = Inr nw'" "hopped E b dg nw'" "net_rest nw' = net_rest nw"
      using sending_step [OF assms(1)] unfolding hopped_def by blast
    from leads_here [of "hopped E b dg", OF n(2), of rs 2] n(1,3) show ?thesis by blast
  qed
qed

subsection \<open>Starting a hop\<close>

definition all_idle :: "(site \<Rightarrow> ethernet_address) \<Rightarrow> network \<Rightarrow> bool" where
  "all_idle E nw \<longleftrightarrow> net_shape nw \<and> (\<forall>s. valid_site s \<longrightarrow> idle_site E nw s)"

lemma start_hop:
  assumes idle: "all_idle E nw" and h: "hop_ok E l a b" and hop: "Address_ipv4_numeric hop = Inr (site_ip b)" and dg: "datagram_ok dg"
  obtains ni where "NetworkInterface_send_datagram dg hop (ai_interface (site_at nw a)) = Inr ni"
    "hopping E a b dg (put_site a ((site_at nw a)\<lparr>ai_interface := ni\<rparr>) nw)"
proof -
  let ?ni = "ai_interface (site_at nw a)" and ?nw = "\<lambda>ni. put_site a ((site_at nw a)\<lparr>ai_interface := ni\<rparr>) nw"
  have l: "l < 5" "a \<in> set (members l)" "b \<in> set (members l)" using h by (simp_all add: hop_ok_def)
  have va: "valid_site a" by (rule members_valid [OF l(1,2)])
  have sh: "net_shape nw" and ids: "\<And>s. valid_site s \<Longrightarrow> idle_site E nw s" using idle by (simp_all add: all_idle_def)
  have st: "station E a ?ni" "calm ?ni" "ni_frames_out ?ni = []" "ai_datagrams_out (site_at nw a) = []"
    using ids [OF va] by (simp_all add: idle_site_def frames_out_def)
  have at: "site_at (?nw ni) s = (if s = a then (site_at nw a)\<lparr>ai_interface := ni\<rparr> else site_at nw s)" for ni s
    by (rule site_at_put [OF sh va])
  have others: "idle_site E (?nw ni) s" if "valid_site s" "s \<noteq> a" for ni s
    using ids [OF that(1)] that(2) at by (simp add: idle_site_def)
  have sh': "net_shape (?nw ni)" for ni by (rule net_shape_put [OF sh va])
  show thesis
  proof (cases "omap_find (ni_ip_to_eth_table ?ni) (site_ip b)")
    case (Some e)
    then obtain t where "t \<in> set (members l)" "site_ip b = site_ip t" "e = E t" using st(1) l(1,2) unfolding station_def by blast
    then have "e = E b" using site_ip_inject [OF l(1,3), of t] by simp
    with Some have known: "omap_find (ni_ip_to_eth_table ?ni) (site_ip b) = Some (E b)" by simp
    obtain f ni where "NetworkInterface_send_datagram dg hop ?ni = Inr ni" "station E a ni" "calm ni"
      "ni_frames_out ni = ni_frames_out ?ni @ [f]" "sent_as (E a) (site_ip b, E b, dg) f"
      by (rule send_known [OF st(1,2) hop dg known])
    moreover from this have "sending E a b dg (?nw ni)" using st(3,4) sh' others at dg by (simp add: sending_def frames_out_def)
    ultimately show thesis by (intro that [of ni]) (simp_all add: hopping_def)
  next
    case None
    obtain f ni where "NetworkInterface_send_datagram dg hop ?ni = Inr ni" "station E a ni" "waits ni (site_ip b) dg"
      "ni_frames_out ni = ni_frames_out ?ni @ [f]" "request_frame E a b f"
      by (rule send_unknown [OF st(1,2) hop None])
    moreover from this have "asking E a b dg (?nw ni)" using st(3,4) sh' others at dg by (simp add: asking_def frames_out_def)
    ultimately show thesis by (intro that [of ni]) (simp_all add: hopping_def)
  qed
qed

subsection \<open>The router\<close>

lemma route_interfaces_append: "route_interfaces (xs @ ys) r = rbind (route_interfaces xs r) (route_interfaces ys)"
proof (induction xs arbitrary: r)
  case (Cons i xs)
  then show ?case by (cases "route_queue i (ai_datagrams_out (rt_interfaces r ! i)) r") simp_all
qed simp

definition popped :: "nat \<Rightarrow> router \<Rightarrow> router" where
  "popped i r = r\<lparr>rt_interfaces := (rt_interfaces r)[i := (rt_interfaces r ! i)\<lparr>ai_datagrams_out := []\<rparr>]\<rparr>"

lemma route_single:
  assumes i: "i < length (rt_interfaces r)" and q: "ai_datagrams_out (rt_interfaces r ! i) = [dg]"
    and others: "\<And>k. k < length (rt_interfaces r) \<Longrightarrow> k \<noteq> i \<Longrightarrow> ai_datagrams_out (rt_interfaces r ! k) = []"
    and one: "Router_route_one_datagram dg r = Inr r'" and w: "waiting r' = waiting r"
  shows "Router_route r = Inr (popped i r')"
proof -
  have len: "length (rt_interfaces r') = length (rt_interfaces r)" using w by (metis length_waiting)
  have same: "ai_datagrams_out (rt_interfaces r' ! k) = ai_datagrams_out (rt_interfaces r ! k)" if "k < length (rt_interfaces r)" for k
  proof -
    have "waiting r' ! k = waiting r ! k" using w by simp
    with that len show ?thesis by (simp add: waiting_def)
  qed
  have split: "[0 ..< length (rt_interfaces r)] = [0 ..< i] @ i # [Suc i ..< length (rt_interfaces r)]"
    using upt_add_eq_append [of 0 i "length (rt_interfaces r) - i"] i by (simp add: upt_conv_Cons)
  have "route_interfaces [0 ..< i] r = Inr r" using others i by (intro route_interfaces_quiet) simp
  moreover have "route_interfaces [Suc i ..< length (rt_interfaces r)] (popped i r') = Inr (popped i r')"
    using same others by (intro route_interfaces_quiet) (simp add: popped_def)
  ultimately show ?thesis using q one by (simp add: Router_route_def split route_interfaces_append popped_def)
qed

lemma hop_ttl_ok [simp]: "datagram_ok (hop_ttl dg) = datagram_ok dg"
  by (simp add: datagram_ok_def hop_ttl_def ip_header_ok_def)

definition taken_up :: "nat \<Rightarrow> network \<Rightarrow> network" where
  "taken_up i nw = put_site (Rif i) ((site_at nw (Rif i))\<lparr>ai_datagrams_out := []\<rparr>) nw"

lemma taken_up_idle:
  assumes "arrived E (Rif i) dg nw" and "i < 7"
  shows "all_idle E (taken_up i nw)" "net_rest (taken_up i nw) = net_rest nw"
    "site_at (taken_up i nw) s = (if s = Rif i then (site_at nw (Rif i))\<lparr>ai_datagrams_out := []\<rparr> else site_at nw s)"
proof -
  have sh: "net_shape nw" and v: "valid_site (Rif i)" using assms by (simp_all add: arrived_def valid_sites)
  show at: "site_at (taken_up i nw) s = (if s = Rif i then (site_at nw (Rif i))\<lparr>ai_datagrams_out := []\<rparr> else site_at nw s)" for s
    unfolding taken_up_def by (rule site_at_put [OF sh v])
  show "net_rest (taken_up i nw) = net_rest nw" unfolding taken_up_def by (rule net_rest_put [OF sh v])
  have "net_shape (taken_up i nw)" unfolding taken_up_def by (rule net_shape_put [OF sh v])
  with assms(1) show "all_idle E (taken_up i nw)" by (auto simp: all_idle_def idle_site_def arrived_def at frames_out_def)
qed

lemma route_arrived:
  assumes arr: "arrived E (Rif i) dg nw" and i: "i < 7"
    and one: "Router_route_one_datagram dg (nw_router nw) = Inr r'" and w: "waiting r' = waiting (nw_router nw)"
  shows "Router_route (nw_router nw) = Inr (popped i r')"
proof -
  have "net_shape nw" using arr by (simp add: arrived_def)
  then have len: "length (rt_interfaces (nw_router nw)) = 7" by (rule net_shape_lengths)
  have "ai_datagrams_out (rt_interfaces (nw_router nw) ! k) = []" if "k < 7" "k \<noteq> i" for k
  proof -
    have "idle_site E nw (Rif k)" using arr that by (simp add: arrived_def valid_sites)
    then show ?thesis by (simp add: idle_site_def site_at_def)
  qed
  moreover have "ai_datagrams_out (rt_interfaces (nw_router nw) ! i) = [dg]" using arr by (simp add: arrived_def site_at_def)
  ultimately show ?thesis using len i one w by (intro route_single) simp_all
qed

lemma forward:
  assumes arr: "arrived E (Rif i) dg nw" and i: "i < 7" and dg: "datagram_ok dg" and ttl: "1 < ih_ttl (id_header dg)"
    and route: "find_route (ih_dst (id_header dg)) (rev (rt_rtable (nw_router nw))) = Inr (Some (hop, iid))"
    and h: "hop_ok E l (Rif (unat iid)) b" and ip: "Address_ipv4_numeric (hop_address dg hop) = Inr (site_ip b)"
  shows "leads rs 3 (hopped E b (hop_ttl dg)) nw"
proof -
  let ?r = "nw_router nw" and ?j = "unat iid" and ?nw0 = "taken_up i nw"
  have sh: "net_shape nw" using arr by (simp add: arrived_def)
  have len: "length (rt_interfaces ?r) = 7" by (rule net_shape_lengths [OF sh])
  have j: "?j < 7" using members_valid [of l "Rif ?j"] h by (simp add: hop_ok_def valid_site_def)
  note idle = taken_up_idle [OF arr i]
  obtain ni where ni: "NetworkInterface_send_datagram (hop_ttl dg) (hop_address dg hop) (ai_interface (site_at ?nw0 (Rif ?j))) = Inr ni"
    and hp: "hopping E (Rif ?j) b (hop_ttl dg) (put_site (Rif ?j) ((site_at ?nw0 (Rif ?j))\<lparr>ai_interface := ni\<rparr>) ?nw0)"
    using start_hop [OF idle(1) h ip, of "hop_ttl dg"] dg by auto
  let ?r' = "?r\<lparr>rt_interfaces := (rt_interfaces ?r)[?j := (rt_interfaces ?r ! ?j)\<lparr>ai_interface := ni\<rparr>]\<rparr>"
  have "ai_interface (site_at ?nw0 (Rif ?j)) = ai_interface (site_at nw (Rif ?j))" by (simp add: idle(3))
  also have "\<dots> = ai_interface (rt_interfaces ?r ! ?j)" by (simp add: site_at_def)
  finally have "send_from iid (hop_ttl dg) (hop_address dg hop) ?r = Inr ?r'"
    using ni j len by (simp add: send_from_def word_less_nat_alt size64_def)
  then have "Router_route_one_datagram dg ?r = Inr ?r'" using route_one_eq [OF route] ttl by simp
  moreover have "waiting ?r' = waiting ?r" using j len by (simp add: waiting_def map_update list_update_same_conv)
  ultimately have rt: "Router_route ?r = Inr (popped i ?r')" by (rule route_arrived [OF arr i])
  have updates: "ai\<lparr>ai_interface := x, ai_datagrams_out := y\<rparr> = ai\<lparr>ai_datagrams_out := y, ai_interface := x\<rparr>" for ai :: async_interface and x y
    by (cases ai) simp
  have "nw\<lparr>nw_router := popped i ?r'\<rparr> = put_site (Rif ?j) ((site_at ?nw0 (Rif ?j))\<lparr>ai_interface := ni\<rparr>) ?nw0"
    using i j len by (cases "i = ?j") (simp_all add: popped_def taken_up_def put_site_def site_at_def list_update_swap updates)
  with hp have hp': "hopping E (Rif ?j) b (hop_ttl dg) (nw\<lparr>nw_router := popped i ?r'\<rparr>)"
    and rest: "net_rest (nw\<lparr>nw_router := popped i ?r'\<rparr>) = net_rest nw"
    using idle(1,2) net_rest_put [of ?nw0 "Rif ?j"] j by (simp_all add: all_idle_def valid_sites)
  from hop_phys [OF h hp', of rs] obtain nw' where "simulate_round rs nw = Inr nw'" "net_rest nw' = net_rest nw"
    "leads rs 2 (hopped E b (hop_ttl dg)) nw'" using rt rest by (auto simp: simulate_round_def)
  then show ?thesis using leads_step [of rs nw nw' 2] by simp
qed

lemma drop:
  assumes arr: "arrived E (Rif i) dg nw" and i: "i < 7" and ttl: "ih_ttl (id_header dg) \<le> 1"
    and route: "find_route (ih_dst (id_header dg)) (rev (rt_rtable (nw_router nw))) = Inr it"
  shows "leads rs 1 (all_idle E) nw"
proof -
  note idle = taken_up_idle [OF arr i]
  have "Router_route_one_datagram dg (nw_router nw) = Inr (nw_router nw)"
    using route_one_eq [OF route] ttl by (auto split: option.splits)
  then have "Router_route (nw_router nw) = Inr (popped i (nw_router nw))" by (rule route_arrived [OF arr i]) simp
  moreover have "nw\<lparr>nw_router := popped i (nw_router nw)\<rparr> = taken_up i nw" by (simp add: popped_def taken_up_def put_site_def site_at_def)
  ultimately have "simulate_round rs nw = simulate_physical_connections rs (taken_up i nw)" by (simp add: simulate_round_def)
  also have "\<dots> = Inr (taken_up i nw)" using idle(1) by (intro phys_quiet) (simp_all add: all_idle_def idle_site_def)
  finally show ?thesis using leads_step [of rs nw "taken_up i nw" 0] leads_here [of "all_idle E", OF idle(1)] idle(2) by simp
qed

subsection \<open>A journey\<close>

text \<open>The bytes of a datagram do not depend on the checksum that its header has.\<close>

lemma rbind_assoc: "rbind (rbind m f) g = rbind m (\<lambda>x. rbind (f x) g)"
  by (cases m) simp_all

lemma same_datagram_bytes:
  assumes "same_datagram dg c dg'" and "datagram_ok dg"
  shows "datagram_bytes dg' = datagram_bytes dg" "datagram_ok dg'"
    "datagram_bytes (hop_ttl dg') = datagram_bytes (hop_ttl dg)"
proof -
  have h: "id_header dg' = (id_header dg)\<lparr>ih_cksum := c\<rparr>" and p: "buffer_list_ok (id_payload dg')"
    "BufferList_concatenate (id_payload dg') = BufferList_concatenate (id_payload dg)"
    using assms(1) by (simp_all add: same_datagram_def)
  show ok: "datagram_ok dg'" using assms(2) h p by (simp add: datagram_ok_def ip_header_ok_def)
  have eq: "datagram_bytes d' = datagram_bytes d"
    if "id_header d' = (id_header d)\<lparr>ih_cksum := c\<rparr>" "id_payload d = id_payload dg" "id_payload d' = id_payload dg'" for d d'
  proof -
    have size: "BufferList_size (id_payload d') = BufferList_size (id_payload d)"
      using p(2) that(2,3) by (simp add: BufferList_size_eq BufferList_concatenate_eq)
    have "BufferList_concatenate (x # id_payload d') = BufferList_concatenate (x # id_payload d)" for x
      using p(2) that(2,3) by (simp add: BufferList_concatenate_eq)
    then show ?thesis
      using size that(1) by (simp add: datagram_bytes_def IPv4Datagram_serialize_def Let_def IPv4Header_payload_length_def rbind_assoc)
  qed
  show "datagram_bytes dg' = datagram_bytes dg" by (rule eq) (simp_all add: h)
  show "datagram_bytes (hop_ttl dg') = datagram_bytes (hop_ttl dg)" by (rule eq) (simp_all add: h hop_ttl_def)
qed

lemma same_datagram_header:
  assumes "same_datagram dg c dg'"
  shows "ih_dst (id_header dg') = ih_dst (id_header dg)" "ih_ttl (id_header dg') = ih_ttl (id_header dg)"
    "hop_address dg' hop = hop_address dg hop"
  using assms by (simp_all add: same_datagram_def hop_address_def split: option.split)

text \<open>
  From a host to the router and on to a host of the link that the route leads to: the datagram arrives
  with its time to live decreased.
\<close>

lemma journey:
  assumes hp: "hopping E a (Rif i) dg nw" and h1: "hop_ok E l a (Rif i)" and dg: "datagram_ok dg" and ttl: "1 < ih_ttl (id_header dg)"
    and route: "find_route (ih_dst (id_header dg)) (rev (rt_rtable (nw_router nw))) = Inr (Some (hop, iid))"
    and h2: "hop_ok E l' (Rif (unat iid)) b" and ip: "Address_ipv4_numeric (hop_address dg hop) = Inr (site_ip b)"
  shows "leads rs 6 (\<lambda>nw'. \<exists>dg'. arrived E b dg' nw' \<and> datagram_ok dg' \<and> datagram_bytes dg' = datagram_bytes (hop_ttl dg)) nw"
proof -
  have i: "i < 7" using members_valid [of l "Rif i"] h1 by (simp add: hop_ok_def valid_site_def)
  have "leads rs 3 (\<lambda>nw'. \<exists>dg'. arrived E b dg' nw' \<and> datagram_ok dg' \<and> datagram_bytes dg' = datagram_bytes (hop_ttl dg)) nw1"
    if arr: "hopped E (Rif i) dg nw1" and rest: "net_rest nw1 = net_rest nw" for nw1
  proof -
    from arr obtain dg1 c where a: "arrived E (Rif i) dg1 nw1" "same_datagram dg c dg1" by (auto simp: hopped_def)
    note b = same_datagram_bytes [OF a(2) dg] and h = same_datagram_header [OF a(2)]
    have "rt_rtable (nw_router nw1) = rt_rtable (nw_router nw)" using rest by (simp add: net_rest_def)
    then have "leads rs 3 (hopped E b (hop_ttl dg1)) nw1"
      using ttl route ip h by (intro forward [OF a(1) i b(2) _ _ h2, where hop = hop]) simp_all
    then have "leads rs (3 + 0) (\<lambda>nw'. \<exists>dg'. arrived E b dg' nw' \<and> datagram_ok dg' \<and> datagram_bytes dg' = datagram_bytes (hop_ttl dg)) nw1"
    proof (rule leads_trans)
      fix nw2 assume "hopped E b (hop_ttl dg1) nw2"
      then obtain dg2 c' where "arrived E b dg2 nw2" "same_datagram (hop_ttl dg1) c' dg2" by (auto simp: hopped_def)
      moreover from this(2) have "datagram_bytes dg2 = datagram_bytes (hop_ttl dg)" "datagram_ok dg2"
        using same_datagram_bytes [of "hop_ttl dg1" c' dg2] b by simp_all
      ultimately show "leads rs 0 (\<lambda>nw'. \<exists>dg'. arrived E b dg' nw' \<and> datagram_ok dg' \<and> datagram_bytes dg' = datagram_bytes (hop_ttl dg)) nw2"
        by (intro leads_here) blast
    qed
    then show ?thesis by simp
  qed
  from leads_trans [OF hop_leads [OF h1 hp, of rs] this] show ?thesis by simp
qed

lemma arrived_host_stable:
  assumes "arrived E (Hst m) dg nw"
  shows "simulate_rounds n rs nw = Inr nw"
proof -
  have sh: "net_shape nw" using assms by (simp add: arrived_def)
  have "simulate_round rs nw = simulate_physical_connections rs nw"
    using assms by (intro round_without_datagrams [OF sh]) (simp add: arrived_def idle_site_def valid_sites)
  also have "\<dots> = Inr nw"
  proof (rule phys_quiet [OF sh])
    fix s assume "valid_site s"
    with assms show "frames_out (site_at nw s) = []" by (cases "s = Hst m") (simp_all add: arrived_def idle_site_def)
  qed
  finally have "simulate_round rs nw = Inr nw" .
  then show ?thesis by (induction n) simp_all
qed

lemma idle_stable:
  assumes "all_idle E nw"
  shows "simulate_rounds n rs nw = Inr nw"
proof -
  have sh: "net_shape nw" using assms by (simp add: all_idle_def)
  have "simulate_round rs nw = simulate_physical_connections rs nw"
    using assms by (intro round_without_datagrams [OF sh]) (simp add: all_idle_def idle_site_def valid_sites)
  also have "\<dots> = Inr nw" using assms by (intro phys_quiet [OF sh]) (simp add: all_idle_def idle_site_def)
  finally have "simulate_round rs nw = Inr nw" .
  then show ?thesis by (induction n) simp_all
qed

lemma leads_settled:
  assumes "leads rs k P nw" and "k \<le> n" and "\<And>nw' m. P nw' \<Longrightarrow> simulate_rounds m rs nw' = Inr nw'"
  obtains nw' where "simulate_rounds n rs nw = Inr nw'" "net_rest nw' = net_rest nw" "P nw'"
proof -
  from assms(1) obtain i nw' where i: "i \<le> k" "simulate_rounds i rs nw = Inr nw'" "net_rest nw' = net_rest nw" "P nw'"
    by (auto simp: leads_def)
  have "simulate_rounds (i + (n - i)) rs nw = Inr nw'" using i(2) assms(3) [OF i(4)] by (simp add: simulate_rounds_add)
  with i assms(2) show thesis by (intro that) simp_all
qed

end
